(* ===== verification/BB_Prelude.thy ===== *)
theory BB_Prelude
  imports Main "HOL-Library.Word" "HOL-Library.Signed_Division" "HOL-Library.Sublist"
begin

text \<open>
  The vocabulary the component theories share: outcomes of C code that may run into undefined
  behaviour, 32-bit signed integers and their remainder, C strings and the routines of
  \<open>string.h\<close> and \<open>stdio.h\<close> that the program calls, decimal printing and reading, and the
  generic lemmas on lists that the component proofs use.
\<close>

section \<open>Outcomes\<close>

text \<open>
  Where the C code would run into undefined behaviour the model returns \<open>Inl\<close> with the kind;
  a C function that reports an error through its return value still returns \<open>Inr\<close>.
\<close>

datatype c_ub = SignedOverflow | OutOfBounds | DivByZero | BadFree

type_synonym 'a cres = "c_ub + 'a"

named_theorems bb_defs \<open>definitions of the model, unfolded by the component proofs\<close>

section \<open>Signed 32-bit integers\<close>

type_synonym int32 = "32 word"

definition in_int32 :: "int \<Rightarrow> bool" where
  "in_int32 x \<longleftrightarrow> - (2 ^ 31) \<le> x \<and> x < 2 ^ 31"

definition wrap32 :: "int \<Rightarrow> int" where
  "wrap32 x = sint (word_of_int x :: 32 word)"

lemma wrap32_id [simp]: "in_int32 x \<Longrightarrow> wrap32 x = x"
  by (simp add: wrap32_def in_int32_def signed_of_int signed_take_bit_int_eq_self)

lemma sint_in_int32 [simp]: "in_int32 (sint (w :: 32 word))"
  using sint_range_size [of w] by (simp add: in_int32_def word_size)

lemma in_int32_nat [simp]: "0 \<le> x \<Longrightarrow> x < 2147483648 \<Longrightarrow> in_int32 x"
  by (simp add: in_int32_def)

lemma sint_of_small_nat: "n < 2147483648 \<Longrightarrow> sint (word_of_nat n :: int32) = int n"
  by (simp add: signed_of_nat signed_take_bit_int_eq_self)

lemma sint_plus1: "sint w < 2147483647 \<Longrightarrow> sint (w + 1 :: int32) = sint w + 1"
proof -
  assume less: "sint w < 2147483647"
  have "w + 1 = word_of_int (sint w + 1)" by simp
  moreover have "in_int32 (sint w + 1)"
    using less sint_in_int32 [of w] by (simp add: in_int32_def)
  ultimately show ?thesis using wrap32_id [of "sint w + 1"] by (simp add: wrap32_def)
qed

text \<open>C's remainder on non-negative operands is the mathematical one.\<close>

lemma smod_nonneg: "0 \<le> a \<Longrightarrow> 0 < b \<Longrightarrow> a smod b = a mod (b :: int)"
  by (auto simp: smod_int_alt_def sgn_if)

section \<open>Lists\<close>

text \<open>The index of the first element with a property: the scan loops of the code.\<close>

fun find_index :: "('a \<Rightarrow> bool) \<Rightarrow> 'a list \<Rightarrow> nat option" where
  "find_index P [] = None"
| "find_index P (x # xs) = (if P x then Some 0 else map_option Suc (find_index P xs))"

lemma find_index_None [simp]: "find_index P xs = None \<longleftrightarrow> (\<forall>x \<in> set xs. \<not> P x)"
  by (induction xs) auto

lemma find_index_SomeD:
  "find_index P xs = Some i \<Longrightarrow> i < length xs \<and> P (xs ! i) \<and> (\<forall>j<i. \<not> P (xs ! j))"
proof (induction xs arbitrary: i)
  case (Cons x xs)
  then show ?case by (auto split: if_splits simp: nth_Cons' less_Suc_eq_0_disj)
qed simp

lemma find_index_SomeI:
  "i < length xs \<Longrightarrow> P (xs ! i) \<Longrightarrow> (\<And>j. j < i \<Longrightarrow> \<not> P (xs ! j)) \<Longrightarrow> find_index P xs = Some i"
proof (induction xs arbitrary: i)
  case (Cons x xs)
  show ?case
  proof (cases i)
    case 0
    with Cons.prems show ?thesis by simp
  next
    case (Suc k)
    have "find_index P xs = Some k"
    proof (rule Cons.IH)
      show "k < length xs" "P (xs ! k)" using Cons.prems Suc by simp_all
      show "\<not> P (xs ! j)" if "j < k" for j using Cons.prems(3) [of "Suc j"] Suc that by simp
    qed
    moreover have "\<not> P x" using Cons.prems(3) [of 0] Suc by simp
    ultimately show ?thesis using Suc by simp
  qed
qed simp

lemma find_index_ex: "(\<exists>i. find_index P xs = Some i) \<longleftrightarrow> (\<exists>x \<in> set xs. P x)"
  by (metis find_index_None not_None_eq)

lemma length_filter_list_update:
  assumes "i < length xs"
  shows "length (filter P (xs[i := y])) + (if P (xs ! i) then 1 else 0)
       = length (filter P xs) + (if P y then 1 else 0)"
  using assms
proof (induction xs arbitrary: i)
  case (Cons x xs)
  then show ?case by (cases i) auto
qed simp

section \<open>State machines\<close>

text \<open>
  The states a machine reaches from its initial states, and the interface every state machine
  of the development offers: an invariant that holds initially and is kept by each step.
\<close>

inductive reach :: "('s \<Rightarrow> bool) \<Rightarrow> ('s \<Rightarrow> 's \<Rightarrow> bool) \<Rightarrow> 's \<Rightarrow> bool"
  for init step where
  reach_init: "init s \<Longrightarrow> reach init step s"
| reach_step: "reach init step s \<Longrightarrow> step s t \<Longrightarrow> reach init step t"

locale inv_machine =
  fixes init :: "'s \<Rightarrow> bool" and step :: "'s \<Rightarrow> 's \<Rightarrow> bool" and inv :: "'s \<Rightarrow> bool"
  assumes init_inv: "init s \<Longrightarrow> inv s"
    and step_inv: "inv s \<Longrightarrow> step s t \<Longrightarrow> inv t"
begin

lemma reach_inv: "reach init step s \<Longrightarrow> inv s"
  by (induction rule: reach.induct) (auto intro: init_inv step_inv)

lemma steps_inv: "step\<^sup>*\<^sup>* s t \<Longrightarrow> inv s \<Longrightarrow> inv t"
  by (induction rule: rtranclp_induct) (auto intro: step_inv)

lemma reach_steps: "reach init step s \<Longrightarrow> step\<^sup>*\<^sup>* s t \<Longrightarrow> reach init step t"
  by (rotate_tac, induction rule: rtranclp_induct) (auto intro: reach_step)

end

end
