(* ===== verification/BB_Pool.thy ===== *)
theory BB_Pool
  imports BB_Prelude
begin

text \<open>
  The frame pool of \<open>libbb/bb_pool.c\<close>: the descriptors, pool creation and destruction against an
  explicit allocator, the lock-free single-producer ring (SPSC) and the mutex-protected
  multi-producer pool (MPSC) as functions on the pool, one C call after another. The
  interleavings of the calls' atomic operations are in the theories BB_Pool_SPSC and BB_Pool_MPSC.
  An atomic_int is a 32-bit word read by sint: C11 atomics wrap, while the plain subtraction
  \<open>w - r\<close> of bb_pool_sp_acquire is undefined when it leaves the range of int.
\<close>

section \<open>Memory\<close>

text \<open>
  The allocator as the pool sees it: every block has an origin, and \<open>free\<close> accepts only blocks
  of \<open>malloc\<close>, \<open>munmap\<close> only mappings. The n-th request succeeds when \<open>ok n\<close> holds. A
  failed \<open>malloc\<close> is NULL; a failed \<open>mmap\<close> is MAP_FAILED, which is not NULL.
\<close>

datatype ptr = Null | MapFailed | Addr nat
datatype origin = Malloced | Mapped

record heap =
  live :: "nat \<Rightarrow> origin option"
  next_addr :: nat
  closed_fds :: "int list"

definition heap_ok :: "heap \<Rightarrow> bool" where
  "heap_ok h \<longleftrightarrow> (\<forall>a \<ge> next_addr h. live h a = None)"

definition heap_alloc :: "(nat \<Rightarrow> bool) \<Rightarrow> origin \<Rightarrow> heap \<Rightarrow> ptr \<times> heap" where
  "heap_alloc ok og h =
    (if ok (next_addr h)
     then (Addr (next_addr h), h\<lparr>live := (live h)(next_addr h := Some og), next_addr := Suc (next_addr h)\<rparr>)
     else (case og of Malloced \<Rightarrow> Null | Mapped \<Rightarrow> MapFailed, h\<lparr>next_addr := Suc (next_addr h)\<rparr>))"

text \<open>\<open>calloc\<close> of a negative count overflows its size computation and fails.\<close>

definition c_calloc :: "(nat \<Rightarrow> bool) \<Rightarrow> int \<Rightarrow> heap \<Rightarrow> ptr \<times> heap" where
  "c_calloc ok n h = (if n < 0 then (Null, h) else heap_alloc ok Malloced h)"

definition c_free :: "ptr \<Rightarrow> heap \<Rightarrow> heap cres" where
  "c_free p h = (case p of Null \<Rightarrow> Inr h | MapFailed \<Rightarrow> Inl BadFree
    | Addr a \<Rightarrow> if live h a = Some Malloced then Inr (h\<lparr>live := (live h)(a := None)\<rparr>) else Inl BadFree)"

definition c_munmap :: "ptr \<Rightarrow> heap \<Rightarrow> heap cres" where
  "c_munmap p h = (case p of Addr a \<Rightarrow>
      if live h a = Some Mapped then Inr (h\<lparr>live := (live h)(a := None)\<rparr>) else Inl BadFree
    | _ \<Rightarrow> Inl BadFree)"

definition c_close :: "int \<Rightarrow> heap \<Rightarrow> heap" where
  "c_close fd h = h\<lparr>closed_fds := fd # closed_fds h\<rparr>"

section \<open>Frames and pools\<close>

record bb_frame_t =
  f_data :: ptr
  f_size :: nat
  f_fd :: int
  f_refcount :: int32
  f_pts :: "64 word"
  f_frame_num :: int32
  f_fourcc :: int32

record bb_frame_pool_t =
  p_frames_ptr :: ptr
  p_frames :: "bb_frame_t list"
  p_count :: int
  p_write_idx :: int32
  p_read_idx :: int32
  p_mutex_ready :: bool
  p_mp_cond :: bool
  p_mp_pending :: int32

definition frame_zero :: bb_frame_t where
  "frame_zero = \<lparr>f_data = Null, f_size = 0, f_fd = 0, f_refcount = 0, f_pts = 0, f_frame_num = 0, f_fourcc = 0\<rparr>"

definition pool_zero :: bb_frame_pool_t where
  "pool_zero = \<lparr>p_frames_ptr = Null, p_frames = [], p_count = 0, p_write_idx = 0, p_read_idx = 0,
     p_mutex_ready = False, p_mp_cond = False, p_mp_pending = 0\<rparr>"

abbreviation rc :: "bb_frame_pool_t \<Rightarrow> nat \<Rightarrow> int32" where
  "rc p i \<equiv> f_refcount (p_frames p ! i)"

definition set_frame :: "nat \<Rightarrow> (bb_frame_t \<Rightarrow> bb_frame_t) \<Rightarrow> bb_frame_pool_t \<Rightarrow> bb_frame_pool_t" where
  "set_frame i g p = p\<lparr>p_frames := (p_frames p)[i := g (p_frames p ! i)]\<rparr>"

abbreviation set_rc :: "nat \<Rightarrow> int32 \<Rightarrow> bb_frame_pool_t \<Rightarrow> bb_frame_pool_t" where
  "set_rc i v p \<equiv> set_frame i (f_refcount_update (\<lambda>_. v)) p"

section \<open>Creation and destruction\<close>

definition destroy_frame :: "bb_frame_t \<Rightarrow> heap \<Rightarrow> heap cres" where
  "destroy_frame f h =
    (if f_data f \<noteq> Null then
       (if f_fd f \<ge> 0
        then (case c_munmap (f_data f) h of Inl e \<Rightarrow> Inl e | Inr h' \<Rightarrow> Inr (c_close (f_fd f) h'))
        else c_free (f_data f) h)
     else Inr h)"

fun destroy_frames :: "bb_frame_t list \<Rightarrow> heap \<Rightarrow> heap cres" where
  "destroy_frames [] h = Inr h"
| "destroy_frames (f # fs) h =
    (case destroy_frame f h of Inl e \<Rightarrow> Inl e | Inr h' \<Rightarrow> destroy_frames fs h')"

definition bb_pool_destroy :: "bb_frame_pool_t \<Rightarrow> heap \<Rightarrow> (bb_frame_pool_t \<times> heap) cres" where
  "bb_pool_destroy p h =
    (if p_frames_ptr p = Null then Inr (p, h)
     else (case destroy_frames (take (nat (p_count p)) (p_frames p)) h of Inl e \<Rightarrow> Inl e
       | Inr h1 \<Rightarrow> (case c_free (p_frames_ptr p) h1 of Inl e \<Rightarrow> Inl e
           | Inr h2 \<Rightarrow> Inr (pool_zero, h2))))"

text \<open>
  The creation loop over the frame indices left; a NULL buffer destroys what was built so far.
  The result carries the C return code.
\<close>

fun init_frames :: "(nat \<Rightarrow> bool) \<Rightarrow> nat \<Rightarrow> bool \<Rightarrow> nat list \<Rightarrow> bb_frame_pool_t \<Rightarrow> heap
    \<Rightarrow> (int \<times> bb_frame_pool_t \<times> heap) cres" where
  "init_frames ok sz dm [] p h =
    Inr (0, p\<lparr>p_write_idx := 0, p_read_idx := 0, p_mp_pending := 0, p_mutex_ready := True, p_mp_cond := False\<rparr>, h)"
| "init_frames ok sz dm (i # is) p h =
    (let (d, h1) = heap_alloc ok (if dm then Mapped else Malloced) h;
         p1 = set_frame i (\<lambda>f. f\<lparr>f_size := sz, f_fd := -1, f_data := d\<rparr>) p
     in if d = Null then
          (case bb_pool_destroy p1 h1 of Inl e \<Rightarrow> Inl e | Inr (p2, h2) \<Rightarrow> Inr (-1, p2, h2))
        else init_frames ok sz dm is (set_rc i 0 p1) h1)"

definition bb_pool_init :: "(nat \<Rightarrow> bool) \<Rightarrow> int \<Rightarrow> nat \<Rightarrow> bool \<Rightarrow> heap
    \<Rightarrow> (int \<times> bb_frame_pool_t \<times> heap) cres" where
  "bb_pool_init ok count frame_size use_dmabuf h =
    (let (fp, h1) = c_calloc ok count h in
     if fp = Null then Inr (-1, pool_zero, h1)
     else init_frames ok frame_size use_dmabuf [0..<nat count]
       (pool_zero\<lparr>p_frames_ptr := fp, p_frames := replicate (nat count) frame_zero, p_count := count\<rparr>) h1)"

section \<open>SPSC ring\<close>

text \<open>
  The slot an index value names: C's remainder keeps the sign of its left operand, so a negative
  index value names no slot.
\<close>

definition ring_slot :: "bb_frame_pool_t \<Rightarrow> int \<Rightarrow> nat cres" where
  "ring_slot p k =
    (if p_count p = 0 then Inl DivByZero
     else let i = k smod p_count p in
       if i < 0 \<or> i \<ge> int (length (p_frames p)) then Inl OutOfBounds else Inr (nat i))"

text \<open>\<open>atomic_compare_exchange_strong(&refcount, 0, 1)\<close>.\<close>

definition cas_acquire :: "nat \<Rightarrow> bb_frame_pool_t \<Rightarrow> nat option \<times> bb_frame_pool_t" where
  "cas_acquire i p = (if rc p i = 0 then (Some i, set_rc i 1 p) else (None, p))"

text \<open>What the producer decides from the two indices it loaded: the ring is full, or this slot.\<close>

definition sp_pick :: "bb_frame_pool_t \<Rightarrow> int \<Rightarrow> int \<Rightarrow> nat option cres" where
  "sp_pick p w r =
    (if \<not> in_int32 (w - r) then Inl SignedOverflow
     else if w - r \<ge> p_count p then Inr None
     else map_sum id Some (ring_slot p w))"

definition bb_pool_sp_acquire :: "bb_frame_pool_t \<Rightarrow> (nat option \<times> bb_frame_pool_t) cres" where
  "bb_pool_sp_acquire p =
    (case sp_pick p (sint (p_write_idx p)) (sint (p_read_idx p)) of
       Inl e \<Rightarrow> Inl e
     | Inr None \<Rightarrow> Inr (None, p)
     | Inr (Some i) \<Rightarrow> Inr (cas_acquire i p))"

definition bb_pool_sp_commit :: "bb_frame_pool_t \<Rightarrow> bb_frame_pool_t" where
  "bb_pool_sp_commit p = p\<lparr>p_write_idx := p_write_idx p + 1\<rparr>"

definition sp_take :: "bb_frame_pool_t \<Rightarrow> bb_frame_pool_t" where
  "sp_take p = p\<lparr>p_read_idx := p_read_idx p + 1\<rparr>"

text \<open>What the consumer decides from the two indices it loaded: the ring is empty, or this slot.\<close>

definition sp_next :: "bb_frame_pool_t \<Rightarrow> int \<Rightarrow> int \<Rightarrow> nat option cres" where
  "sp_next p w r = (if r \<ge> w then Inr None else map_sum id Some (ring_slot p r))"

definition bb_pool_sp_dequeue :: "bb_frame_pool_t \<Rightarrow> (nat option \<times> bb_frame_pool_t) cres" where
  "bb_pool_sp_dequeue p =
    (case sp_next p (sint (p_write_idx p)) (sint (p_read_idx p)) of
       Inl e \<Rightarrow> Inl e
     | Inr None \<Rightarrow> Inr (None, p)
     | Inr (Some i) \<Rightarrow>
         if sint (rc p i) < 1 then Inr (None, p) else Inr (Some i, sp_take p))"

definition bb_pool_sp_release :: "nat \<Rightarrow> bb_frame_pool_t \<Rightarrow> bb_frame_pool_t" where
  "bb_pool_sp_release i p = set_rc i 0 p"

section \<open>MPSC pool\<close>

definition pool_scan :: "(bb_frame_t \<Rightarrow> bool) \<Rightarrow> bb_frame_pool_t \<Rightarrow> nat option" where
  "pool_scan P p = find_index P (take (nat (p_count p)) (p_frames p))"

definition bb_pool_mp_acquire :: "bb_frame_pool_t \<Rightarrow> nat option \<times> bb_frame_pool_t" where
  "bb_pool_mp_acquire p =
    (case pool_scan (\<lambda>f. f_refcount f = 0) p of
       None \<Rightarrow> (None, p)
     | Some i \<Rightarrow> (Some i, set_rc i 1 p))"

definition bb_frame_ref :: "nat \<Rightarrow> bb_frame_pool_t \<Rightarrow> bb_frame_pool_t" where
  "bb_frame_ref i p = set_rc i (rc p i + 1) p"

definition bb_frame_unref :: "nat \<Rightarrow> bb_frame_pool_t \<Rightarrow> bb_frame_pool_t" where
  "bb_frame_unref i p = set_rc i (rc p i - 1) p"

text \<open>
  The enqueue is an atomic increment outside the mutex, then a second one and the signal under it. The
  condition variable is whether the consumer sleeps on it and has not been signalled.
\<close>

definition mp_mark :: "nat \<Rightarrow> bb_frame_pool_t \<Rightarrow> bb_frame_pool_t" where
  "mp_mark i p = set_rc i (rc p i + 1) p"

definition mp_count :: "bb_frame_pool_t \<Rightarrow> bb_frame_pool_t" where
  "mp_count p = p\<lparr>p_mp_pending := p_mp_pending p + 1\<rparr>"

definition mp_signal :: "bb_frame_pool_t \<Rightarrow> bb_frame_pool_t" where
  "mp_signal p = p\<lparr>p_mp_cond := False\<rparr>"

definition mp_sleep :: "bb_frame_pool_t \<Rightarrow> bb_frame_pool_t" where
  "mp_sleep p = p\<lparr>p_mp_cond := True\<rparr>"

definition bb_pool_mp_enqueue :: "nat \<Rightarrow> bb_frame_pool_t \<Rightarrow> bb_frame_pool_t" where
  "bb_pool_mp_enqueue i p = mp_signal (mp_count (mp_mark i p))"

abbreviation frame_ready :: "bb_frame_t \<Rightarrow> bool" where
  "frame_ready f \<equiv> sint (f_refcount f) \<ge> 2"

text \<open>
  The dequeue under the mutex: \<open>None\<close> is the wait on the condition variable (nothing pending),
  \<open>Some (None, _)\<close> the NULL return, which still consumes one pending count.
\<close>

definition bb_pool_mp_dequeue :: "bb_frame_pool_t \<Rightarrow> (nat option \<times> bb_frame_pool_t) option" where
  "bb_pool_mp_dequeue p =
    (if p_mp_pending p = 0 then None
     else Some (pool_scan frame_ready p, p\<lparr>p_mp_pending := p_mp_pending p - 1\<rparr>))"

definition bb_pool_mp_release :: "nat \<Rightarrow> bb_frame_pool_t \<Rightarrow> bb_frame_pool_t" where
  "bb_pool_mp_release i p = set_rc i 0 p"

lemmas pool_call_defs [bb_defs] =
  bb_pool_sp_acquire_def bb_pool_sp_commit_def bb_pool_sp_dequeue_def bb_pool_sp_release_def
  sp_pick_def sp_next_def sp_take_def ring_slot_def cas_acquire_def
  bb_pool_mp_acquire_def bb_pool_mp_enqueue_def bb_pool_mp_dequeue_def bb_pool_mp_release_def
  mp_mark_def mp_count_def mp_signal_def pool_scan_def bb_frame_ref_def bb_frame_unref_def

section \<open>Field lemmas\<close>

lemma set_frame_simps [simp]:
  "p_count (set_frame i g p) = p_count p"
  "p_write_idx (set_frame i g p) = p_write_idx p"
  "p_read_idx (set_frame i g p) = p_read_idx p"
  "p_mp_pending (set_frame i g p) = p_mp_pending p"
  "p_frames_ptr (set_frame i g p) = p_frames_ptr p"
  "length (p_frames (set_frame i g p)) = length (p_frames p)"
  "p_mp_cond (set_frame i g p) = p_mp_cond p"
  by (simp_all add: set_frame_def)

lemma set_frame_nth [simp]:
  "i < length (p_frames p) \<Longrightarrow>
    p_frames (set_frame i g p) ! j = (if j = i then g (p_frames p ! i) else p_frames p ! j)"
  by (simp add: set_frame_def nth_list_update)

section \<open>Ownership of the allocations\<close>

text \<open>
  A pool owns its descriptor array and one block per frame with a buffer: a mapping when the frame
  carries a dma-buf fd, a heap block otherwise. The heap is the one of the rest of the program with
  these blocks added.
\<close>

definition frame_origin :: "bb_frame_t \<Rightarrow> origin" where
  "frame_origin f = (if f_fd f \<ge> 0 then Mapped else Malloced)"

fun frame_addrs :: "bb_frame_t list \<Rightarrow> nat list" where
  "frame_addrs [] = []"
| "frame_addrs (f # fs) = (case f_data f of Addr a \<Rightarrow> a # frame_addrs fs | _ \<Rightarrow> frame_addrs fs)"

definition frame_owned :: "heap \<Rightarrow> bb_frame_t \<Rightarrow> bool" where
  "frame_owned h f \<longleftrightarrow> (case f_data f of Null \<Rightarrow> True | MapFailed \<Rightarrow> False
     | Addr a \<Rightarrow> live h a = Some (frame_origin f))"

definition pool_owns :: "heap \<Rightarrow> bb_frame_pool_t \<Rightarrow> heap \<Rightarrow> bool" where
  "pool_owns h0 p h \<longleftrightarrow> (\<exists>a0. p_frames_ptr p = Addr a0 \<and> live h a0 = Some Malloced
     \<and> length (p_frames p) = nat (p_count p)
     \<and> list_all (frame_owned h) (p_frames p)
     \<and> distinct (a0 # frame_addrs (p_frames p))
     \<and> live h0 = (\<lambda>a. if a \<in> set (a0 # frame_addrs (p_frames p)) then None else live h a))"

lemma frame_addrs_append [simp]: "frame_addrs (fs @ gs) = frame_addrs fs @ frame_addrs gs"
  by (induction fs) (auto split: ptr.splits)

lemma frame_addrs_zero [simp]: "frame_addrs (replicate n frame_zero) = []"
  by (induction n) (simp_all add: frame_zero_def)

lemma frame_zero_fields [simp]: "f_data frame_zero = Null" "f_refcount frame_zero = 0"
  by (simp_all add: frame_zero_def)

lemma frame_owned_null [simp]: "f_data f = Null \<Longrightarrow> frame_owned h f"
  by (simp add: frame_owned_def)

lemma frame_owned_cong: "live h1 = live h \<Longrightarrow> frame_owned h1 f = frame_owned h f"
  by (simp add: frame_owned_def cong: ptr.case_cong)

lemma destroy_frame_ok:
  assumes "frame_owned h f"
  shows "\<exists>h'. destroy_frame f h = Inr h' \<and>
    live h' = (\<lambda>a. if a \<in> set (frame_addrs [f]) then None else live h a)"
  using assms
  by (auto simp: destroy_frame_def frame_owned_def frame_origin_def c_munmap_def c_free_def
      c_close_def fun_eq_iff split: ptr.splits if_splits)

lemma destroy_frames_ok:
  assumes "list_all (frame_owned h) fs" and "distinct (frame_addrs fs)"
  shows "\<exists>h'. destroy_frames fs h = Inr h' \<and>
    live h' = (\<lambda>a. if a \<in> set (frame_addrs fs) then None else live h a)"
  using assms
proof (induction fs arbitrary: h)
  case (Cons f fs)
  have "frame_owned h f" using Cons.prems(1) by simp
  then obtain h1 where h1: "destroy_frame f h = Inr h1"
    and live1: "live h1 = (\<lambda>a. if a \<in> set (frame_addrs [f]) then None else live h a)"
    using destroy_frame_ok by blast
  have disj: "set (frame_addrs [f]) \<inter> set (frame_addrs fs) = {}"
    using Cons.prems(2) by (auto split: ptr.splits)
  have mem: "a \<in> set (frame_addrs fs)" if "g \<in> set fs" "f_data g = Addr a" for g a
    using that by (induction fs) (auto split: ptr.splits)
  have owned: "list_all (frame_owned h1) fs"
  proof (clarsimp simp: list_all_iff)
    fix g assume g: "g \<in> set fs"
    then have "frame_owned h g" using Cons.prems(1) by (simp add: list_all_iff)
    then show "frame_owned h1 g"
      using mem [OF g] disj by (auto simp: frame_owned_def live1 split: ptr.splits)
  qed
  have "distinct (frame_addrs fs)" using Cons.prems(2) by (auto split: ptr.splits)
  then obtain h2 where h2: "destroy_frames fs h1 = Inr h2"
    and live2: "live h2 = (\<lambda>a. if a \<in> set (frame_addrs fs) then None else live h1 a)"
    using Cons.IH owned by blast
  have "set (frame_addrs (f # fs)) = set (frame_addrs [f]) \<union> set (frame_addrs fs)"
    by (auto split: ptr.splits)
  then have "live h2 = (\<lambda>a. if a \<in> set (frame_addrs (f # fs)) then None else live h a)"
    by (auto simp: live2 live1 fun_eq_iff)
  then show ?case using h1 h2 by simp
qed simp

lemma pool_destroy_owned:
  assumes "pool_owns h0 p h"
  shows "\<exists>h'. bb_pool_destroy p h = Inr (pool_zero, h') \<and> live h' = live h0"
proof -
  obtain a0 where ptr: "p_frames_ptr p = Addr a0" and a0: "live h a0 = Some Malloced"
    and len: "length (p_frames p) = nat (p_count p)"
    and owned: "list_all (frame_owned h) (p_frames p)"
    and dist: "distinct (a0 # frame_addrs (p_frames p))"
    and h0: "live h0 = (\<lambda>a. if a \<in> set (a0 # frame_addrs (p_frames p)) then None else live h a)"
    using assms by (auto simp: pool_owns_def)
  obtain h1 where h1: "destroy_frames (p_frames p) h = Inr h1"
    and live1: "live h1 = (\<lambda>a. if a \<in> set (frame_addrs (p_frames p)) then None else live h a)"
    using destroy_frames_ok [OF owned] dist by auto
  have "live h1 a0 = Some Malloced" using live1 a0 dist by simp
  then have "bb_pool_destroy p h = Inr (pool_zero, h1\<lparr>live := (live h1)(a0 := None)\<rparr>)"
    using h1 ptr len by (simp add: bb_pool_destroy_def c_free_def)
  moreover have "(live h1)(a0 := None) = live h0"
    by (auto simp: live1 h0 fun_eq_iff)
  ultimately show ?thesis by simp
qed

section \<open>Creation builds an owned pool\<close>

lemma frame_owned_mono:
  assumes "frame_owned h f" and "\<And>a. live h a \<noteq> None \<Longrightarrow> live h' a = live h a"
  shows "frame_owned h' f"
  using assms by (auto simp: frame_owned_def split: ptr.splits)

lemma frame_addr_live:
  "list_all (frame_owned h) fs \<Longrightarrow> a \<in> set (frame_addrs fs) \<Longrightarrow> live h a \<noteq> None"
  by (induction fs) (auto simp: frame_owned_def split: ptr.splits)

lemma pool_owns_add:
  assumes owns: "pool_owns h0 p h" and fresh: "live h a = None"
    and fr: "p_frames p = done @ replicate (Suc m) frame_zero"
    and h1: "live h1 = (live h)(a := Some Malloced)"
    and g: "f_data g = Addr a" "f_fd g < 0"
  shows "pool_owns h0 (p\<lparr>p_frames := done @ g # replicate m frame_zero\<rparr>) h1"
proof -
  obtain a0 where ptr: "p_frames_ptr p = Addr a0" and a0: "live h a0 = Some Malloced"
    and len: "length (p_frames p) = nat (p_count p)"
    and owned: "list_all (frame_owned h) (p_frames p)"
    and dist: "distinct (a0 # frame_addrs (p_frames p))"
    and h0: "live h0 = (\<lambda>a. if a \<in> set (a0 # frame_addrs (p_frames p)) then None else live h a)"
    using owns by (auto simp: pool_owns_def)
  have addrs: "frame_addrs (p_frames p) = frame_addrs done"
    using fr by simp
  have new: "a \<noteq> a0" "a \<notin> set (frame_addrs done)"
    using fresh a0 frame_addr_live [OF owned, of a] by (auto simp: addrs)
  have owned1: "list_all (frame_owned h1) done"
    using owned fr by (auto simp: list_all_iff h1 fresh intro!: frame_owned_mono [of h _ h1])
  have zero1: "list_all (frame_owned h1) (replicate m frame_zero)"
    by (simp add: list_all_iff)
  have g1: "frame_owned h1 g" using g by (simp add: frame_owned_def frame_origin_def h1)
  show ?thesis
    unfolding pool_owns_def
  proof (intro exI [of _ a0] conjI)
    show "live h0 = (\<lambda>b. if b \<in> set (a0 # frame_addrs (p_frames
        (p\<lparr>p_frames := done @ g # replicate m frame_zero\<rparr>))) then None else live h1 b)"
      using fresh by (auto simp: h0 addrs h1 g fun_eq_iff)
  qed (use ptr a0 len fr dist owned1 zero1 g1 new in \<open>auto simp: h1 g addrs\<close>)
qed

lemma pool_owns_null:
  assumes owns: "pool_owns h0 p h" and fr: "p_frames p = done @ replicate (Suc m) frame_zero"
    and h1: "live h1 = live h" and g: "f_data g = Null"
  shows "pool_owns h0 (p\<lparr>p_frames := done @ g # replicate m frame_zero\<rparr>) h1"
proof -
  let ?p1 = "p\<lparr>p_frames := done @ g # replicate m frame_zero\<rparr>"
  obtain a0 where ptr: "p_frames_ptr p = Addr a0" and a0: "live h a0 = Some Malloced"
    and len: "length (p_frames p) = nat (p_count p)"
    and owned: "list_all (frame_owned h) (p_frames p)"
    and dist: "distinct (a0 # frame_addrs (p_frames p))"
    and h0: "live h0 = (\<lambda>a. if a \<in> set (a0 # frame_addrs (p_frames p)) then None else live h a)"
    using owns by (auto simp: pool_owns_def)
  have addrs: "frame_addrs (p_frames ?p1) = frame_addrs (p_frames p)" using fr g by simp
  have owned1: "list_all (frame_owned h1) (p_frames ?p1)"
    using owned frame_owned_cong [OF h1] g by (simp add: fr list_all_iff)
  show ?thesis
    unfolding pool_owns_def
    by (intro exI [of _ a0] conjI, unfold addrs h1)
      (use ptr a0 len owned1 dist h0 fr in simp_all)
qed

lemma heap_alloc_ok:
  assumes "heap_ok h" and "heap_alloc ok og h = (d, h1)"
  shows "heap_ok h1" and "d = Addr a \<Longrightarrow> live h a = None \<and> live h1 = (live h)(a := Some og)"
    and "d = Null \<Longrightarrow> live h1 = live h"
    and "og = Malloced \<Longrightarrow> d \<noteq> MapFailed"
  using assms by (auto simp: heap_alloc_def heap_ok_def split: if_splits origin.splits)

lemma init_frames_owns:
  assumes "pool_owns h0 p h" and "heap_ok h"
    and "p_frames p = done @ replicate m frame_zero"
  shows "\<exists>ret p' h'. init_frames ok sz False [length done..<length done + m] p h = Inr (ret, p', h')
     \<and> (ret = 0 \<and> pool_owns h0 p' h' \<or> ret = -1 \<and> p' = pool_zero \<and> live h' = live h0)"
  using assms
proof (induction m arbitrary: "done" p h)
  case 0
  then show ?case by (simp add: pool_owns_def)
next
  case (Suc m)
  let ?k = "length done"
  obtain d h1 where al: "heap_alloc ok Malloced h = (d, h1)" by fastforce
  note fr = Suc.prems(3)
  let ?g = "frame_zero\<lparr>f_size := sz, f_fd := -1, f_data := d\<rparr>"
  let ?p1 = "p\<lparr>p_frames := done @ ?g # replicate m frame_zero\<rparr>"
  have set1: "set_frame ?k (\<lambda>f. f\<lparr>f_size := sz, f_fd := -1, f_data := d\<rparr>) p = ?p1"
    by (simp add: set_frame_def fr nth_append)
  have idx: "[?k..<?k + Suc m] = ?k # [Suc ?k..<Suc ?k + m]" by (simp add: upt_conv_Cons)
  show ?case
  proof (cases "d = Null")
    case True
    have "pool_owns h0 ?p1 h1"
      by (rule pool_owns_null [OF Suc.prems(1) fr heap_alloc_ok(3) [OF Suc.prems(2) al True]])
        (simp add: True)
    from pool_destroy_owned [OF this]
    obtain h2 where d2: "bb_pool_destroy ?p1 h1 = Inr (pool_zero, h2)" and live2: "live h2 = live h0"
      by blast
    have "init_frames ok sz False [?k..<?k + Suc m] p h = Inr (-1, pool_zero, h2)"
      unfolding idx by (simp add: al Let_def set1 d2 [unfolded True] True set1 [unfolded True])
    then show ?thesis using live2 by blast
  next
    case False
    then obtain a where a: "d = Addr a"
      using heap_alloc_ok(4) [OF Suc.prems(2) al] by (cases d) auto
    let ?g2 = "?g\<lparr>f_refcount := 0\<rparr>"
    have set2: "set_rc ?k 0 ?p1 = p\<lparr>p_frames := done @ ?g2 # replicate m frame_zero\<rparr>"
      by (simp add: set_frame_def)
    have "pool_owns h0 (p\<lparr>p_frames := done @ ?g2 # replicate m frame_zero\<rparr>) h1"
      by (rule pool_owns_add [OF Suc.prems(1) _ fr])
        (use heap_alloc_ok(2) [OF Suc.prems(2) al a] a in auto)
    from Suc.IH [OF this heap_alloc_ok(1) [OF Suc.prems(2) al], of "done @ [?g2]"]
    show ?thesis
      unfolding idx by (simp add: al set1 set2 False Let_def)
  qed
qed

lemma pool_init_cases:
  assumes "heap_ok h"
  shows "\<exists>ret p' h'. bb_pool_init ok n sz False h = Inr (ret, p', h')
     \<and> (ret = 0 \<and> pool_owns h p' h' \<or> ret = -1 \<and> p' = pool_zero \<and> live h' = live h)"
proof -
  obtain fp h1 where al: "c_calloc ok n h = (fp, h1)" by fastforce
  show ?thesis
  proof (cases "fp = Null")
    case True
    then have "live h1 = live h"
      using al assms heap_alloc_ok(3) by (auto simp: c_calloc_def split: if_splits)
    then show ?thesis using True al by (simp add: bb_pool_init_def)
  next
    case False
    then have n: "n \<ge> 0" and al': "heap_alloc ok Malloced h = (fp, h1)"
      using al by (auto simp: c_calloc_def split: if_splits)
    obtain a where a: "fp = Addr a"
      using False heap_alloc_ok(4) [OF assms al'] by (cases fp) auto
    let ?p = "pool_zero\<lparr>p_frames_ptr := fp, p_frames := replicate (nat n) frame_zero, p_count := n\<rparr>"
    have "pool_owns h ?p h1"
      using heap_alloc_ok(2) [OF assms al' a] a
      by (auto simp: pool_owns_def list_all_iff fun_eq_iff)
    from init_frames_owns [OF this heap_alloc_ok(1) [OF assms al'], of "[]" "nat n" ok sz]
    show ?thesis using al False by (simp add: bb_pool_init_def)
  qed
qed

section \<open>A created pool is empty\<close>

text \<open>What a successful creation leaves: every frame free, nothing committed, nothing pending.\<close>

definition pool_fresh :: "int \<Rightarrow> bb_frame_pool_t \<Rightarrow> bool" where
  "pool_fresh n p \<longleftrightarrow> p_count p = n \<and> length (p_frames p) = nat n
     \<and> (\<forall>f \<in> set (p_frames p). f_refcount f = 0)
     \<and> p_write_idx p = 0 \<and> p_read_idx p = 0 \<and> p_mp_pending p = 0 \<and> \<not> p_mp_cond p"

lemma init_frames_fresh:
  assumes "init_frames ok sz dm is p h = Inr (0, p', h')"
    and "p_count p = n" and "length (p_frames p) = nat n"
    and "\<forall>f \<in> set (p_frames p). f_refcount f = 0"
  shows "pool_fresh n p'"
  using assms
proof (induction "is" arbitrary: p h)
  case Nil
  then show ?case by (auto simp: pool_fresh_def)
next
  case (Cons i "is")
  obtain d h1 where al: "heap_alloc ok (if dm then Mapped else Malloced) h = (d, h1)" by fastforce
  let ?p1 = "set_frame i (\<lambda>f. f\<lparr>f_size := sz, f_fd := -1, f_data := d\<rparr>) p"
  have "d \<noteq> Null" and rest: "init_frames ok sz dm is (set_rc i 0 ?p1) h1 = Inr (0, p', h')"
    using Cons.prems(1) al by (auto simp: Let_def split: if_splits sum.splits)
  have "\<forall>f \<in> set (p_frames (set_rc i 0 ?p1)). f_refcount f = 0"
    using Cons.prems(4) by (cases "i < length (p_frames p)")
      (auto simp: set_frame_def dest!: set_update_subset_insert [THEN subsetD])
  then show ?case using Cons.IH [OF rest] Cons.prems(2,3) by simp
qed

lemma pool_init_fresh:
  assumes "bb_pool_init ok n sz dm h = Inr (0, p, h')"
  shows "pool_fresh n p"
proof -
  obtain fp h1 where al: "c_calloc ok n h = (fp, h1)" by fastforce
  show ?thesis
    using assms al by (auto simp: bb_pool_init_def split: if_splits intro!: init_frames_fresh)
qed

section \<open>Properties of the lifecycle\<close>

text \<open>
  C17. Creating a heap-backed pool and destroying it, whatever allocations fail on the way, is free
  of undefined behaviour and gives back exactly the blocks it took: creation returns 0 with every
  frame free, or -1 with the heap as before, and in both cases a following destroy leaves the
  zeroed pool and the heap of before.
\<close>

theorem pool_lifecycle_balanced:
  assumes "heap_ok h"
  shows "\<exists>ret p h1 h2. bb_pool_init ok n sz False h = Inr (ret, p, h1)
    \<and> (ret = 0 \<and> pool_fresh n p \<or> ret = -1 \<and> p = pool_zero \<and> live h1 = live h)
    \<and> bb_pool_destroy p h1 = Inr (pool_zero, h2) \<and> live h2 = live h"
proof -
  obtain ret p h1 where init: "bb_pool_init ok n sz False h = Inr (ret, p, h1)"
    and res: "ret = 0 \<and> pool_owns h p h1 \<or> ret = -1 \<and> p = pool_zero \<and> live h1 = live h"
    using pool_init_cases [OF assms] by blast
  from res show ?thesis
  proof
    assume "ret = 0 \<and> pool_owns h p h1"
    then show ?thesis using init pool_destroy_owned pool_init_fresh by blast
  next
    assume "ret = -1 \<and> p = pool_zero \<and> live h1 = live h"
    moreover have "bb_pool_destroy pool_zero h1 = Inr (pool_zero, h1)"
      by (simp add: bb_pool_destroy_def pool_zero_def)
    ultimately show ?thesis using init by blast
  qed
qed

definition empty_heap :: heap where
  "empty_heap = \<lparr>live = (\<lambda>_. None), next_addr = 0, closed_fds = []\<rparr>"

theorem pool_lifecycle_balanced_witness:
  "\<exists>ret p h1 h2. bb_pool_init (\<lambda>a. a < 3) 4 64 False empty_heap = Inr (ret, p, h1)
    \<and> (ret = 0 \<and> pool_fresh 4 p \<or> ret = -1 \<and> p = pool_zero \<and> live h1 = live empty_heap)
    \<and> bb_pool_destroy p h1 = Inr (pool_zero, h2) \<and> live h2 = live empty_heap"
proof -
  have "heap_ok empty_heap" by (simp add: heap_ok_def empty_heap_def)
  from pool_lifecycle_balanced [OF this] show ?thesis .
qed

lemma init_frames_mapped:
  assumes "init_frames ok sz True is p h = Inr (ret, p', h')"
    and "0 \<notin> set is" and "f_fd (p_frames p ! 0) < 0" and "p_frames p \<noteq> []"
    and "f_data (p_frames p ! 0) = MapFailed \<or>
      (\<exists>a < next_addr h. f_data (p_frames p ! 0) = Addr a \<and> live h a = Some Mapped)"
  shows "ret = 0 \<and> p_frames p' \<noteq> [] \<and> f_fd (p_frames p' ! 0) < 0
    \<and> (f_data (p_frames p' ! 0) = MapFailed \<or>
      (\<exists>a. f_data (p_frames p' ! 0) = Addr a \<and> live h' a = Some Mapped))
    \<and> p_frames_ptr p' = p_frames_ptr p \<and> p_count p' = p_count p"
  using assms
proof (induction "is" arbitrary: p h)
  case Nil
  then show ?case by auto
next
  case (Cons i "is")
  obtain d h1 where al: "heap_alloc ok Mapped h = (d, h1)" by fastforce
  let ?p1 = "set_rc i 0 (set_frame i (\<lambda>f. f\<lparr>f_size := sz, f_fd := -1, f_data := d\<rparr>) p)"
  have "d \<noteq> Null" using al by (auto simp: heap_alloc_def split: if_splits)
  then have rest: "init_frames ok sz True is ?p1 h1 = Inr (ret, p', h')"
    using Cons.prems(1) al by (simp add: Let_def)
  have same: "p_frames ?p1 ! 0 = p_frames p ! 0"
    using Cons.prems(2,4) by (simp add: set_frame_def nth_list_update)
  have ne: "p_frames ?p1 \<noteq> []" using Cons.prems(4) by (simp add: set_frame_def)
  have "next_addr h1 = Suc (next_addr h)" and "\<And>a. a < next_addr h \<Longrightarrow> live h1 a = live h a"
    using al by (auto simp: heap_alloc_def split: if_splits)
  then show ?case
    using Cons.IH [OF rest _ _ ne] Cons.prems(2,3,5) same
    by (metis less_SucI list.set_intros(2) set_frame_simps(1,5))
qed

text \<open>
  A pool created with use_dmabuf and destroyed without an imported dma-buf fd frees a mapping:
  the creation leaves fd = -1 beside the mmap'd buffer, and the destruction hands every buffer with
  fd = -1 to free(). The same happens to a failed mmap, whose MAP_FAILED is taken for a buffer.
\<close>

theorem dmabuf_pool_destroy_bad_free:
  assumes "bb_pool_init ok n sz True h = Inr (0, p, h1)" and "n > 0"
  shows "bb_pool_destroy p h1 = Inl BadFree"
proof -
  obtain fp h0 where al: "c_calloc ok n h = (fp, h0)" by fastforce
  let ?p0 = "pool_zero\<lparr>p_frames_ptr := fp, p_frames := replicate (nat n) frame_zero, p_count := n\<rparr>"
  have fp: "fp \<noteq> Null" using assms(1) al by (auto simp: bb_pool_init_def)
  then have init: "init_frames ok sz True [0..<nat n] ?p0 h0 = Inr (0, p, h1)"
    using assms(1) al by (simp add: bb_pool_init_def)
  obtain d h' where ad: "heap_alloc ok Mapped h0 = (d, h')" by fastforce
  then have "d \<noteq> Null" by (auto simp: heap_alloc_def split: if_splits)
  let ?p1 = "set_rc 0 0 (set_frame 0 (\<lambda>f. f\<lparr>f_size := sz, f_fd := -1, f_data := d\<rparr>) ?p0)"
  have upt: "[0..<nat n] = 0 # [1..<nat n]" using assms(2) by (simp add: upt_conv_Cons)
  have rest: "init_frames ok sz True [1..<nat n] ?p1 h' = Inr (0, p, h1)"
    using init ad \<open>d \<noteq> Null\<close> by (simp add: upt Let_def)
  have d: "d = MapFailed \<or> (\<exists>a < next_addr h'. d = Addr a \<and> live h' a = Some Mapped)"
    using ad by (auto simp: heap_alloc_def split: if_splits)
  have fr1: "p_frames ?p1 = (frame_zero\<lparr>f_size := sz, f_fd := -1, f_data := d, f_refcount := 0\<rparr>)
      # replicate (nat n - 1) frame_zero"
    using assms(2) by (cases "nat n") (auto simp: set_frame_def)
  have p: "p_frames p \<noteq> [] \<and> f_fd (p_frames p ! 0) < 0
    \<and> (f_data (p_frames p ! 0) = MapFailed \<or>
      (\<exists>a. f_data (p_frames p ! 0) = Addr a \<and> live h1 a = Some Mapped))
    \<and> p_frames_ptr p = fp \<and> p_count p = n"
    using init_frames_mapped [OF rest] d fr1 by simp
  then obtain f fs where fs: "take (nat (p_count p)) (p_frames p) = f # fs" and f: "f = p_frames p ! 0"
    using assms(2) by (cases "p_frames p"; cases "nat n") auto
  have "destroy_frame f h1 = Inl BadFree"
    using p f by (auto simp: destroy_frame_def c_free_def)
  then show ?thesis using p fp fs by (simp add: bb_pool_destroy_def)
qed

theorem dmabuf_pool_destroy_bad_free_witness:
  "\<exists>p h1. bb_pool_init (\<lambda>_. True) 2 64 True empty_heap = Inr (0, p, h1)
    \<and> bb_pool_destroy p h1 = Inl BadFree"
proof -
  have "\<exists>p h1. bb_pool_init (\<lambda>_. True) 2 64 True empty_heap = Inr (0, p, h1)"
    by (simp add: bb_pool_init_def c_calloc_def heap_alloc_def empty_heap_def numeral_2_eq_2 upt_rec)
  then show ?thesis using dmabuf_pool_destroy_bad_free [of "\<lambda>_. True" 2 64] by fastforce
qed

end
