(* ===== verification/BB_Pool_SPSC.thy ===== *)
theory BB_Pool_SPSC
  imports BB_Pool
begin

text \<open>
  The lock-free path of \<open>libbb/bb_pool.c\<close> under concurrency: one producer and one consumer, each
  at a program point between two atomic operations of the four SPSC calls, interleaved in any order.
  The decisions between the atomics are the functions sp_pick and sp_next of BB_Pool. The payload of
  a slot is the contents of the frame's buffer, written by the producer between acquire and commit
  and read by the consumer between dequeue and release. The lists sent and rcvd record the payloads
  committed and released so far; no step reads them.
\<close>

section \<open>The machine\<close>

datatype ppc = PIdle | PGotW int | PGotR int int | PCas nat | PHold nat | PFault
datatype cpc = CIdle | CGotW int | CGotR int int | CCheck nat | CTake nat | CHold nat | CFault

record 'a spsc =
  pool :: bb_frame_pool_t
  ppc :: ppc
  cpc :: cpc
  bufs :: "nat \<Rightarrow> 'a"
  sent :: "'a list"
  rcvd :: "'a list"

inductive spsc_step :: "'a spsc \<Rightarrow> 'a spsc \<Rightarrow> bool" where
  p_load_w: "ppc s = PIdle \<Longrightarrow>
    spsc_step s (s\<lparr>ppc := PGotW (sint (p_write_idx (pool s)))\<rparr>)"
| p_load_r: "ppc s = PGotW w \<Longrightarrow>
    spsc_step s (s\<lparr>ppc := PGotR w (sint (p_read_idx (pool s)))\<rparr>)"
| p_decide: "ppc s = PGotR w r \<Longrightarrow>
    spsc_step s (s\<lparr>ppc := (case sp_pick (pool s) w r of
      Inl _ \<Rightarrow> PFault | Inr None \<Rightarrow> PIdle | Inr (Some i) \<Rightarrow> PCas i)\<rparr>)"
| p_cas: "ppc s = PCas i \<Longrightarrow> cas_acquire i (pool s) = (res, p') \<Longrightarrow>
    spsc_step s (s\<lparr>pool := p', ppc := (case res of None \<Rightarrow> PIdle | Some j \<Rightarrow> PHold j)\<rparr>)"
| p_fill: "ppc s = PHold i \<Longrightarrow> spsc_step s (s\<lparr>bufs := (bufs s)(i := x)\<rparr>)"
| p_commit: "ppc s = PHold i \<Longrightarrow>
    spsc_step s (s\<lparr>pool := bb_pool_sp_commit (pool s), ppc := PIdle, sent := sent s @ [bufs s i]\<rparr>)"
| p_abort: "ppc s = PHold i \<Longrightarrow>
    spsc_step s (s\<lparr>pool := bb_pool_sp_release i (pool s), ppc := PIdle\<rparr>)"
| c_load_w: "cpc s = CIdle \<Longrightarrow>
    spsc_step s (s\<lparr>cpc := CGotW (sint (p_write_idx (pool s)))\<rparr>)"
| c_load_r: "cpc s = CGotW w \<Longrightarrow>
    spsc_step s (s\<lparr>cpc := CGotR w (sint (p_read_idx (pool s)))\<rparr>)"
| c_decide: "cpc s = CGotR w r \<Longrightarrow>
    spsc_step s (s\<lparr>cpc := (case sp_next (pool s) w r of
      Inl _ \<Rightarrow> CFault | Inr None \<Rightarrow> CIdle | Inr (Some i) \<Rightarrow> CCheck i)\<rparr>)"
| c_check: "cpc s = CCheck i \<Longrightarrow>
    spsc_step s (s\<lparr>cpc := (if sint (rc (pool s) i) < 1 then CIdle else CTake i)\<rparr>)"
| c_take: "cpc s = CTake i \<Longrightarrow> spsc_step s (s\<lparr>pool := sp_take (pool s), cpc := CHold i\<rparr>)"
| c_release: "cpc s = CHold i \<Longrightarrow>
    spsc_step s (s\<lparr>pool := bb_pool_sp_release i (pool s), cpc := CIdle, rcvd := rcvd s @ [bufs s i]\<rparr>)"

text \<open>The start: a created pool of n frames, at least one, both sides idle.\<close>

definition spsc_init :: "int \<Rightarrow> 'a spsc \<Rightarrow> bool" where
  "spsc_init n s \<longleftrightarrow> 0 < n \<and> pool_fresh n (pool s) \<and> ppc s = PIdle \<and> cpc s = CIdle \<and> sent s = [] \<and> rcvd s = []"

section \<open>The invariant\<close>

abbreviation hi :: "'a spsc \<Rightarrow> nat" where "hi s \<equiv> length (sent s)"
abbreviation lo :: "'a spsc \<Rightarrow> nat" where "lo s \<equiv> length (rcvd s)"

text \<open>The value of read_idx: the frames released, plus the one the consumer holds.\<close>

definition taken :: "'a spsc \<Rightarrow> nat" where
  "taken s = lo s + (case cpc s of CHold _ \<Rightarrow> 1 | _ \<Rightarrow> 0)"

definition idx_ok :: "nat \<Rightarrow> 'a spsc \<Rightarrow> bool" where
  "idx_ok n s \<longleftrightarrow> p_count (pool s) = int n \<and> length (p_frames (pool s)) = n \<and> 0 < n
     \<and> p_write_idx (pool s) = word_of_nat (hi s) \<and> p_read_idx (pool s) = word_of_nat (taken s)
     \<and> taken s \<le> hi s \<and> hi s \<le> lo s + n"

text \<open>
  The committed slots not yet released carry refcount 1 and their payload; apart from the slot the
  producer holds, every other slot is free.
\<close>

definition slots_ok :: "nat \<Rightarrow> 'a spsc \<Rightarrow> bool" where
  "slots_ok n s \<longleftrightarrow>
     (\<forall>k. lo s \<le> k \<and> k < hi s \<longrightarrow> rc (pool s) (k mod n) = 1 \<and> bufs s (k mod n) = sent s ! k)
     \<and> (\<forall>j<n. rc (pool s) j \<noteq> 0 \<longrightarrow> (\<exists>k. lo s \<le> k \<and> k < hi s \<and> j = k mod n) \<or> ppc s = PHold j)
     \<and> rcvd s = take (lo s) (sent s)"

definition producer_ok :: "nat \<Rightarrow> 'a spsc \<Rightarrow> bool" where
  "producer_ok n s \<longleftrightarrow> (case ppc s of
       PIdle \<Rightarrow> True
     | PGotW w \<Rightarrow> w = int (hi s)
     | PGotR w r \<Rightarrow> w = int (hi s) \<and> 0 \<le> r \<and> r \<le> int (taken s)
     | PCas i \<Rightarrow> i = hi s mod n
     | PHold i \<Rightarrow> i = hi s mod n \<and> rc (pool s) i = 1 \<and> hi s < lo s + n
     | PFault \<Rightarrow> False)"

definition consumer_ok :: "nat \<Rightarrow> 'a spsc \<Rightarrow> bool" where
  "consumer_ok n s \<longleftrightarrow> (case cpc s of
       CIdle \<Rightarrow> True
     | CGotW w \<Rightarrow> w \<le> int (hi s)
     | CGotR w r \<Rightarrow> w \<le> int (hi s) \<and> r = int (taken s)
     | CCheck i \<Rightarrow> i = taken s mod n \<and> taken s < hi s
     | CTake i \<Rightarrow> i = taken s mod n \<and> taken s < hi s
     | CHold i \<Rightarrow> i = lo s mod n
     | CFault \<Rightarrow> False)"

text \<open>
  The index counters are 32-bit, so the invariant covers the first 2^31 - 1 commits; what the code
  does past them is stated at the end of this theory.
\<close>

definition spsc_good :: "nat \<Rightarrow> 'a spsc \<Rightarrow> bool" where
  "spsc_good n s \<longleftrightarrow> idx_ok n s \<and> slots_ok n s \<and> producer_ok n s \<and> consumer_ok n s"

definition spsc_inv :: "nat \<Rightarrow> 'a spsc \<Rightarrow> bool" where
  "spsc_inv n s \<longleftrightarrow> (hi s < 2147483648 \<longrightarrow> spsc_good n s)"

lemmas spsc_good_defs = spsc_good_def idx_ok_def slots_ok_def producer_ok_def consumer_ok_def taken_def

lemma mod_ne: "a < b \<Longrightarrow> b < a + n \<Longrightarrow> a mod n \<noteq> b mod (n::nat)"
  by (metis add_diff_inverse_nat less_imp_le_nat mod_eq_dvd_iff_nat nat_dvd_not_less
      not_less zero_less_diff add_less_cancel_left)

lemma ring_slot_ok:
  assumes "p_count p = int n" "length (p_frames p) = n" "0 < n"
  shows "ring_slot p (int k) = Inr (k mod n)"
proof -
  have "int k smod int n = int (k mod n)" using assms(3) by (simp add: smod_nonneg zmod_int)
  then show ?thesis using assms by (simp add: ring_slot_def Let_def not_le)
qed

lemma spsc_init_good:
  assumes "spsc_init (int n) s"
  shows "spsc_good n s"
  using assms by (auto simp: spsc_init_def spsc_good_defs pool_fresh_def)

section \<open>Every step keeps the invariant\<close>

lemma idx_vals:
  assumes "idx_ok n s" and "hi s < 2147483648"
  shows "sint (p_write_idx (pool s)) = int (hi s)" "sint (p_read_idx (pool s)) = int (taken s)"
  using assms by (simp_all add: idx_ok_def sint_of_small_nat)

lemma sp_pick_ok:
  assumes "idx_ok n s" "hi s < 2147483648" "0 \<le> r" "r \<le> int (taken s)"
  shows "sp_pick (pool s) (int (hi s)) r =
    (if int (hi s) - r \<ge> int n then Inr None else Inr (Some (hi s mod n)))"
  using assms by (simp add: sp_pick_def idx_ok_def ring_slot_ok in_int32_def)

lemma sp_next_ok:
  assumes "idx_ok n s"
  shows "sp_next (pool s) w (int (taken s)) =
    (if int (taken s) \<ge> w then Inr None else Inr (Some (taken s mod n)))"
  using assms by (simp add: sp_next_def idx_ok_def ring_slot_ok)

lemma good_p_control:
  assumes good: "spsc_good n s" and nh: "\<forall>j. ppc s \<noteq> PHold j"
    and q: "producer_ok n (s\<lparr>ppc := q\<rparr>)"
  shows "spsc_good n (s\<lparr>ppc := q\<rparr>)"
proof -
  have "taken (s\<lparr>ppc := q\<rparr>) = taken s" by (simp add: taken_def)
  then show ?thesis using assms
    by (auto simp: spsc_good_def idx_ok_def slots_ok_def consumer_ok_def split: cpc.splits)
qed

lemma good_c_control:
  assumes good: "spsc_good n s" and nh: "\<forall>j. cpc s \<noteq> CHold j" "\<forall>j. q \<noteq> CHold j"
    and q: "consumer_ok n (s\<lparr>cpc := q\<rparr>)"
  shows "spsc_good n (s\<lparr>cpc := q\<rparr>)"
proof -
  have "taken (s\<lparr>cpc := q\<rparr>) = taken s" using nh by (auto simp: taken_def split: cpc.splits)
  then show ?thesis using assms
    by (auto simp: spsc_good_def idx_ok_def slots_ok_def producer_ok_def split: ppc.splits)
qed

lemma good_cas:
  assumes good: "spsc_good n s" and pc: "ppc s = PCas i"
    and cas: "cas_acquire i (pool s) = (res, p')"
  shows "spsc_good n (s\<lparr>pool := p', ppc := (case res of None \<Rightarrow> PIdle | Some j \<Rightarrow> PHold j)\<rparr>)"
proof (cases "rc (pool s) i = 0")
  case False
  then have "res = None" "p' = pool s" using cas by (auto simp: cas_acquire_def)
  then show ?thesis using good_p_control [OF good, of PIdle] pc by (simp add: producer_ok_def)
next
  case True
  then have res: "res = Some i" and p': "p' = set_rc i 1 (pool s)"
    using cas by (auto simp: cas_acquire_def)
  have idx: "idx_ok n s" and slots: "slots_ok n s" and i: "i = hi s mod n" and c: "consumer_ok n s"
    using good pc by (auto simp: spsc_good_def producer_ok_def)
  have n: "0 < n" "length (p_frames (pool s)) = n" using idx by (auto simp: idx_ok_def)
  have il: "i < n" using i n by simp
  have notc: "i \<noteq> k mod n" if "lo s \<le> k" "k < hi s" for k
    using slots that True by (auto simp: slots_ok_def)
  have room: "hi s < lo s + n"
  proof (rule ccontr)
    assume "\<not> hi s < lo s + n"
    then have "hi s = lo s + n" using idx by (simp add: idx_ok_def)
    then have "i = lo s mod n" "lo s < hi s" using i n by simp_all
    then show False using notc [of "lo s"] by simp
  qed
  let ?t = "s\<lparr>pool := p', ppc := PHold i\<rparr>"
  have rcs: "rc p' j = (if j = i then 1 else rc (pool s) j)" for j
    using p' il n by simp
  have "idx_ok n ?t" using idx p' by (simp add: idx_ok_def taken_def)
  moreover have "slots_ok n ?t"
    using slots notc pc by (auto simp: slots_ok_def rcs)
  moreover have "producer_ok n ?t" using i room by (simp add: producer_ok_def rcs)
  moreover have "consumer_ok n ?t" using c by (auto simp: consumer_ok_def taken_def split: cpc.splits)
  ultimately show ?thesis using res by (simp add: spsc_good_def)
qed

lemma good_fill:
  assumes good: "spsc_good n s" and pc: "ppc s = PHold i"
  shows "spsc_good n (s\<lparr>bufs := (bufs s)(i := x)\<rparr>)"
proof -
  have i: "i = hi s mod n" and room: "hi s < lo s + n" and slots: "slots_ok n s"
    using good pc by (auto simp: spsc_good_def producer_ok_def)
  have "k mod n \<noteq> i" if "lo s \<le> k" "k < hi s" for k
    using mod_ne [of k "hi s" n] that room i by simp
  then show ?thesis using good pc
    by (auto simp: spsc_good_defs split: cpc.splits)
qed

lemma good_commit:
  assumes good: "spsc_good n s" and pc: "ppc s = PHold i"
  shows "spsc_good n (s\<lparr>pool := bb_pool_sp_commit (pool s), ppc := PIdle, sent := sent s @ [bufs s i]\<rparr>)"
    (is "spsc_good n ?t")
proof -
  have idx: "idx_ok n s" and slots: "slots_ok n s" and c: "consumer_ok n s"
    and i: "i = hi s mod n" and rci: "rc (pool s) i = 1" and room: "hi s < lo s + n"
    using good pc by (auto simp: spsc_good_def producer_ok_def)
  have le: "lo s \<le> hi s" using idx by (auto simp: idx_ok_def taken_def)
  have "idx_ok n ?t" using idx room by (auto simp: idx_ok_def taken_def bb_pool_sp_commit_def)
  moreover have "slots_ok n ?t"
    using slots i rci pc le
    by (auto simp: slots_ok_def bb_pool_sp_commit_def nth_append less_Suc_eq)
  moreover have "producer_ok n ?t" by (simp add: producer_ok_def)
  moreover have "consumer_ok n ?t" using c by (auto simp: consumer_ok_def taken_def split: cpc.splits)
  ultimately show ?thesis by (simp add: spsc_good_def)
qed

lemma good_abort:
  assumes good: "spsc_good n s" and pc: "ppc s = PHold i"
  shows "spsc_good n (s\<lparr>pool := bb_pool_sp_release i (pool s), ppc := PIdle\<rparr>)" (is "spsc_good n ?t")
proof -
  have idx: "idx_ok n s" and slots: "slots_ok n s" and c: "consumer_ok n s"
    and i: "i = hi s mod n" and room: "hi s < lo s + n"
    using good pc by (auto simp: spsc_good_def producer_ok_def)
  have n: "0 < n" "length (p_frames (pool s)) = n" using idx by (auto simp: idx_ok_def)
  have ne: "k mod n \<noteq> i" if "lo s \<le> k" "k < hi s" for k
    using mod_ne [of k "hi s" n] that room i by simp
  have rcs: "rc (bb_pool_sp_release i (pool s)) j = (if j = i then 0 else rc (pool s) j)" for j
    using i n by (simp add: bb_pool_sp_release_def)
  have "idx_ok n ?t" using idx by (simp add: idx_ok_def taken_def bb_pool_sp_release_def)
  moreover have "slots_ok n ?t" using slots ne pc by (auto simp: slots_ok_def rcs)
  moreover have "producer_ok n ?t" by (simp add: producer_ok_def)
  moreover have "consumer_ok n ?t" using c by (auto simp: consumer_ok_def taken_def split: cpc.splits)
  ultimately show ?thesis by (simp add: spsc_good_def)
qed

lemma good_take:
  assumes good: "spsc_good n s" and pc: "cpc s = CTake i"
  shows "spsc_good n (s\<lparr>pool := sp_take (pool s), cpc := CHold i\<rparr>)" (is "spsc_good n ?t")
proof -
  have idx: "idx_ok n s" and slots: "slots_ok n s" and p: "producer_ok n s"
    and i: "i = taken s mod n" and lt: "taken s < hi s"
    using good pc by (auto simp: spsc_good_def consumer_ok_def)
  have tk: "taken s = lo s" using pc by (simp add: taken_def)
  have "idx_ok n ?t" using idx lt tk by (auto simp: idx_ok_def taken_def sp_take_def)
  moreover have "slots_ok n ?t" using slots by (simp add: slots_ok_def sp_take_def)
  moreover have "producer_ok n ?t" using p tk
    by (auto simp: producer_ok_def taken_def sp_take_def split: ppc.splits)
  moreover have "consumer_ok n ?t" using i tk by (simp add: consumer_ok_def)
  ultimately show ?thesis by (simp add: spsc_good_def)
qed

lemma good_release:
  assumes good: "spsc_good n s" and pc: "cpc s = CHold i"
  shows "spsc_good n (s\<lparr>pool := bb_pool_sp_release i (pool s), cpc := CIdle, rcvd := rcvd s @ [bufs s i]\<rparr>)"
    (is "spsc_good n ?t")
proof -
  have idx: "idx_ok n s" and slots: "slots_ok n s" and p: "producer_ok n s" and i: "i = lo s mod n"
    using good pc by (auto simp: spsc_good_def consumer_ok_def)
  have n: "0 < n" "length (p_frames (pool s)) = n" using idx by (auto simp: idx_ok_def)
  have lt: "lo s < hi s" and cap: "hi s \<le> lo s + n" using idx pc by (auto simp: idx_ok_def taken_def)
  have buf: "bufs s i = sent s ! lo s" and rci: "rc (pool s) i = 1"
    using slots lt i by (auto simp: slots_ok_def)
  have ne: "k mod n \<noteq> i" if "Suc (lo s) \<le> k" "k < hi s" for k
    using mod_ne [of "lo s" k n] that cap i by simp
  have held: "j \<noteq> i" if "ppc s = PHold j" for j
    using p that mod_ne [of "lo s" "hi s" n] lt i by (auto simp: producer_ok_def)
  have rcs: "rc (bb_pool_sp_release i (pool s)) j = (if j = i then 0 else rc (pool s) j)" for j
    using i n by (simp add: bb_pool_sp_release_def)
  have "idx_ok n ?t" using idx pc by (auto simp: idx_ok_def taken_def bb_pool_sp_release_def)
  moreover have "slots_ok n ?t"
    unfolding slots_ok_def
  proof (intro conjI allI impI)
    fix k assume "lo ?t \<le> k \<and> k < hi ?t"
    then show "rc (pool ?t) (k mod n) = 1" "bufs ?t (k mod n) = sent ?t ! k"
      using ne [of k] slots by (auto simp: rcs slots_ok_def)
  next
    fix j assume "j < n" "rc (pool ?t) j \<noteq> 0"
    then have "j \<noteq> i" "rc (pool s) j \<noteq> 0" by (auto simp: rcs split: if_splits)
    then have "(\<exists>k. lo s \<le> k \<and> k < hi s \<and> j = k mod n) \<or> ppc s = PHold j"
      using slots \<open>j < n\<close> by (auto simp: slots_ok_def)
    then show "(\<exists>k. lo ?t \<le> k \<and> k < hi ?t \<and> j = k mod n) \<or> ppc ?t = PHold j"
      using \<open>j \<noteq> i\<close> i by (auto simp: Suc_le_eq) (metis le_neq_implies_less)
  next
    show "rcvd ?t = take (lo ?t) (sent ?t)"
      using slots lt buf by (auto simp: slots_ok_def take_Suc_conv_app_nth)
  qed
  moreover have "producer_ok n ?t" using p held rcs
    by (auto simp: producer_ok_def taken_def pc split: ppc.splits)
  moreover have "consumer_ok n ?t" by (simp add: consumer_ok_def)
  ultimately show ?thesis by (simp add: spsc_good_def)
qed

lemma sent_mono: "spsc_step s t \<Longrightarrow> hi s \<le> hi t"
  by (induction rule: spsc_step.induct) simp_all

lemma good_step:
  assumes good: "spsc_good n s" and step: "spsc_step s t" and bound: "hi t < 2147483648"
  shows "spsc_good n t"
proof -
  have b: "hi s < 2147483648" using sent_mono [OF step] bound by simp
  have idx: "idx_ok n s" and p: "producer_ok n s" and c: "consumer_ok n s"
    using good by (simp_all add: spsc_good_def)
  note vals = idx_vals [OF idx b]
  show ?thesis using step
  proof (cases rule: spsc_step.cases)
    case p_load_w
    then show ?thesis using vals by (auto intro!: good_p_control [OF good] simp: producer_ok_def)
  next
    case (p_load_r w)
    then show ?thesis using vals p
      by (auto intro!: good_p_control [OF good] simp: producer_ok_def taken_def)
  next
    case (p_decide w r)
    then have "w = int (hi s)" "0 \<le> r" "r \<le> int (taken s)" using p by (auto simp: producer_ok_def)
    then show ?thesis using p_decide sp_pick_ok [OF idx b]
      by (auto intro!: good_p_control [OF good] simp: producer_ok_def)
  next
    case (p_cas i res p')
    then show ?thesis using good_cas [OF good] by simp
  next
    case (p_fill i x)
    then show ?thesis using good_fill [OF good] by simp
  next
    case (p_commit i)
    then show ?thesis using good_commit [OF good] by simp
  next
    case (p_abort i)
    then show ?thesis using good_abort [OF good] by simp
  next
    case c_load_w
    then show ?thesis using vals by (auto intro!: good_c_control [OF good] simp: consumer_ok_def)
  next
    case (c_load_r w)
    then show ?thesis using vals c
      by (auto intro!: good_c_control [OF good] simp: consumer_ok_def taken_def)
  next
    case (c_decide w r)
    then have w: "w \<le> int (hi s)" "r = int (taken s)" using c by (auto simp: consumer_ok_def)
    have "taken (s\<lparr>cpc := q\<rparr>) = taken s" if "\<forall>j. q \<noteq> CHold j" for q
      using that c_decide by (auto simp: taken_def split: cpc.splits)
    then show ?thesis using w c_decide sp_next_ok [OF idx, of w]
      by (auto intro!: good_c_control [OF good] simp: consumer_ok_def)
  next
    case (c_check i)
    then show ?thesis using c
      by (auto intro!: good_c_control [OF good] simp: consumer_ok_def taken_def)
  next
    case (c_take i)
    then show ?thesis using good_take [OF good] by simp
  next
    case (c_release i)
    then show ?thesis using good_release [OF good] by simp
  qed
qed

interpretation spsc: inv_machine "spsc_init (int n)" spsc_step "spsc_inv n" for n
proof unfold_locales
  show "spsc_inv n s" if "spsc_init (int n) s" for s
    using spsc_init_good [OF that] by (simp add: spsc_inv_def)
  show "spsc_inv n t" if "spsc_inv n s" "spsc_step s t" for s t
    using that good_step sent_mono [OF that(2)] by (auto simp: spsc_inv_def)
qed

section \<open>Properties of the lock-free path\<close>

lemma reach_good:
  "reach (spsc_init (int n)) spsc_step s \<Longrightarrow> hi s < 2147483648 \<Longrightarrow> spsc_good n s"
  using spsc.reach_inv [of n s] by (simp add: spsc_inv_def)

text \<open>
  C1. Whatever the interleaving of the producer's and the consumer's atomic operations, as long as
  fewer than 2^31 frames were committed, the payloads the consumer released are a prefix of those
  the producer committed, in order, none lost, duplicated or overwritten, and never more than the
  n frames of the ring are in flight.
\<close>

theorem spsc_fifo:
  assumes "reach (spsc_init (int n)) spsc_step s" and "length (sent s) < 2147483648"
  shows "rcvd s = take (length (rcvd s)) (sent s) \<and> length (rcvd s) \<le> length (sent s)
    \<and> length (sent s) - length (rcvd s) \<le> n"
  using reach_good [OF assms] by (auto simp: spsc_good_defs)

text \<open>A run of the machine: one frame with payload 7 travels through a ring of one slot.\<close>

definition demo_pool :: bb_frame_pool_t where
  "demo_pool = pool_zero\<lparr>p_count := 1, p_frames := [frame_zero]\<rparr>"

definition demo_start :: "nat spsc" where
  "demo_start = \<lparr>pool = demo_pool, ppc = PIdle, cpc = CIdle, bufs = (\<lambda>_. 0), sent = [], rcvd = []\<rparr>"

definition demo_held :: "nat spsc" where
  "demo_held = demo_start\<lparr>pool := set_rc 0 1 demo_pool, ppc := PHold 0\<rparr>"

definition demo_sent :: "nat spsc" where
  "demo_sent = demo_start\<lparr>pool := bb_pool_sp_commit (set_rc 0 1 demo_pool), bufs := (\<lambda>_. 0)(0 := 7), sent := [7]\<rparr>"

definition demo_taken :: "nat spsc" where
  "demo_taken = demo_sent\<lparr>pool := sp_take (pool demo_sent), cpc := CHold 0\<rparr>"

lemma demo_start_reach: "reach (spsc_init 1) spsc_step demo_start"
  by (rule reach_init)
    (simp add: spsc_init_def demo_start_def demo_pool_def pool_fresh_def pool_zero_def)

lemma demo_held_reach: "reach (spsc_init 1) spsc_step demo_held"
proof -
  let ?s1 = "demo_start\<lparr>ppc := PGotW 0\<rparr>"
  let ?s2 = "demo_start\<lparr>ppc := PGotR 0 0\<rparr>"
  let ?s3 = "demo_start\<lparr>ppc := PCas 0\<rparr>"
  note defs = demo_start_def demo_pool_def pool_zero_def demo_held_def
  have "spsc_step demo_start ?s1" using p_load_w [of demo_start] by (simp add: defs)
  moreover have "spsc_step ?s1 ?s2" using p_load_r [of ?s1 0] by (simp add: defs)
  moreover have "spsc_step ?s2 ?s3" using p_decide [of ?s2 0 0]
    by (simp add: defs sp_pick_def ring_slot_def smod_nonneg)
  moreover have "spsc_step ?s3 demo_held" using p_cas [of ?s3 0 "Some 0" "set_rc 0 1 demo_pool"]
    by (simp add: defs cas_acquire_def set_frame_def)
  ultimately show ?thesis by (meson demo_start_reach reach_step)
qed

lemma demo_taken_reach: "reach (spsc_init 1) spsc_step demo_taken"
proof -
  let ?f = "demo_held\<lparr>bufs := (\<lambda>_. 0)(0 := 7)\<rparr>"
  let ?c1 = "demo_sent\<lparr>cpc := CGotW 1\<rparr>"
  let ?c2 = "demo_sent\<lparr>cpc := CGotR 1 0\<rparr>"
  let ?c3 = "demo_sent\<lparr>cpc := CCheck 0\<rparr>"
  let ?c4 = "demo_sent\<lparr>cpc := CTake 0\<rparr>"
  note defs = demo_start_def demo_pool_def pool_zero_def demo_held_def demo_sent_def demo_taken_def
    bb_pool_sp_commit_def set_frame_def
  have "spsc_step demo_held ?f" using p_fill [of demo_held 0 7] by (simp add: defs)
  moreover have "spsc_step ?f demo_sent" using p_commit [of ?f 0] by (simp add: defs)
  moreover have "spsc_step demo_sent ?c1" using c_load_w [of demo_sent] by (simp add: defs)
  moreover have "spsc_step ?c1 ?c2" using c_load_r [of ?c1 1] by (simp add: defs)
  moreover have "spsc_step ?c2 ?c3" using c_decide [of ?c2 1 0]
    by (simp add: defs sp_next_def ring_slot_def smod_nonneg)
  moreover have "spsc_step ?c3 ?c4" using c_check [of ?c3 0] by (simp add: defs)
  moreover have "spsc_step ?c4 demo_taken" using c_take [of ?c4 0] by (simp add: defs)
  ultimately show ?thesis by (meson demo_held_reach reach_step)
qed

lemma demo_released_reach:
  "reach (spsc_init 1) spsc_step
    (demo_taken\<lparr>pool := bb_pool_sp_release 0 (pool demo_taken), cpc := CIdle, rcvd := [7]\<rparr>)"
proof -
  have "spsc_step demo_taken
    (demo_taken\<lparr>pool := bb_pool_sp_release 0 (pool demo_taken), cpc := CIdle, rcvd := [7]\<rparr>)"
    using c_release [of demo_taken 0] by (simp add: demo_taken_def demo_sent_def demo_start_def)
  then show ?thesis by (rule reach_step [OF demo_taken_reach])
qed

theorem spsc_fifo_witness:
  "\<exists>s :: nat spsc. sent s = [7] \<and> rcvd s = [7] \<and> rcvd s = take (length (rcvd s)) (sent s)
    \<and> length (rcvd s) \<le> length (sent s) \<and> length (sent s) - length (rcvd s) \<le> 1"
proof -
  let ?s = "demo_taken\<lparr>pool := bb_pool_sp_release 0 (pool demo_taken), cpc := CIdle, rcvd := [7]\<rparr>"
  have v: "sent ?s = [7]" "rcvd ?s = [7]" by (simp_all add: demo_taken_def demo_sent_def)
  have "reach (spsc_init (int 1)) spsc_step ?s" using demo_released_reach by simp
  from spsc_fifo [OF this] v show ?thesis by (intro exI [of _ ?s]) simp
qed

text \<open>
  C10. The slot the producer is filling is never the slot the consumer is reading, and both are
  frames of the pool: no interleaving hands one buffer to both sides.
\<close>

theorem spsc_exclusive:
  assumes "reach (spsc_init (int n)) spsc_step s" and "length (sent s) < 2147483648"
    and "ppc s = PHold i" and "cpc s = CHold j"
  shows "i \<noteq> j \<and> i < length (p_frames (pool s)) \<and> j < length (p_frames (pool s))"
proof -
  have good: "spsc_good n s" by (rule reach_good [OF assms(1,2)])
  then have "i = hi s mod n" "j = lo s mod n" "hi s < lo s + n" "lo s < hi s"
    "length (p_frames (pool s)) = n" "0 < n"
    using assms(3,4) by (auto simp: spsc_good_defs)
  then show ?thesis using mod_ne [of "lo s" "hi s" n] by simp
qed

definition demo2_pool :: bb_frame_pool_t where
  "demo2_pool = pool_zero\<lparr>p_count := 2, p_frames := [frame_zero, frame_zero]\<rparr>"

definition demo2 :: "bb_frame_pool_t \<Rightarrow> ppc \<Rightarrow> cpc \<Rightarrow> nat list \<Rightarrow> nat spsc" where
  "demo2 p a c xs = \<lparr>pool = p, ppc = a, cpc = c, bufs = (\<lambda>_. 0), sent = xs, rcvd = []\<rparr>"

lemma demo2_reach:
  "reach (spsc_init 2) spsc_step
    (demo2 (set_rc 1 1 (sp_take (bb_pool_sp_commit (set_rc 0 1 demo2_pool)))) (PHold 1) (CHold 0) [0])"
proof -
  let ?p1 = "set_rc 0 1 demo2_pool"
  let ?p2 = "bb_pool_sp_commit ?p1"
  let ?p3 = "sp_take ?p2"
  let ?p4 = "set_rc 1 1 ?p3"
  note defs = demo2_def demo2_pool_def pool_zero_def bb_pool_sp_commit_def sp_take_def set_frame_def
    sp_pick_def sp_next_def ring_slot_def smod_nonneg cas_acquire_def
  have s0: "reach (spsc_init 2) spsc_step (demo2 demo2_pool PIdle CIdle [])"
    by (rule reach_init) (simp add: spsc_init_def demo2_def demo2_pool_def pool_fresh_def pool_zero_def)
  have "spsc_step (demo2 demo2_pool PIdle CIdle []) (demo2 demo2_pool (PGotW 0) CIdle [])"
    using p_load_w [of "demo2 demo2_pool PIdle CIdle []"] by (simp add: defs)
  moreover have "spsc_step (demo2 demo2_pool (PGotW 0) CIdle []) (demo2 demo2_pool (PGotR 0 0) CIdle [])"
    using p_load_r [of "demo2 demo2_pool (PGotW 0) CIdle []"] by (simp add: defs)
  moreover have "spsc_step (demo2 demo2_pool (PGotR 0 0) CIdle []) (demo2 demo2_pool (PCas 0) CIdle [])"
    using p_decide [of "demo2 demo2_pool (PGotR 0 0) CIdle []"] by (simp add: defs)
  moreover have "spsc_step (demo2 demo2_pool (PCas 0) CIdle []) (demo2 ?p1 (PHold 0) CIdle [])"
    using p_cas [of "demo2 demo2_pool (PCas 0) CIdle []" 0] by (simp add: defs)
  moreover have "spsc_step (demo2 ?p1 (PHold 0) CIdle []) (demo2 ?p2 PIdle CIdle [0])"
    using p_commit [of "demo2 ?p1 (PHold 0) CIdle []" 0] by (simp add: demo2_def)
  moreover have "spsc_step (demo2 ?p2 PIdle CIdle [0]) (demo2 ?p2 PIdle (CGotW 1) [0])"
    using c_load_w [of "demo2 ?p2 PIdle CIdle [0]"] by (simp add: defs)
  moreover have "spsc_step (demo2 ?p2 PIdle (CGotW 1) [0]) (demo2 ?p2 PIdle (CGotR 1 0) [0])"
    using c_load_r [of "demo2 ?p2 PIdle (CGotW 1) [0]"] by (simp add: defs)
  moreover have "spsc_step (demo2 ?p2 PIdle (CGotR 1 0) [0]) (demo2 ?p2 PIdle (CCheck 0) [0])"
    using c_decide [of "demo2 ?p2 PIdle (CGotR 1 0) [0]"] by (simp add: defs)
  moreover have "spsc_step (demo2 ?p2 PIdle (CCheck 0) [0]) (demo2 ?p2 PIdle (CTake 0) [0])"
    using c_check [of "demo2 ?p2 PIdle (CCheck 0) [0]" 0] by (simp add: defs)
  moreover have "spsc_step (demo2 ?p2 PIdle (CTake 0) [0]) (demo2 ?p3 PIdle (CHold 0) [0])"
    using c_take [of "demo2 ?p2 PIdle (CTake 0) [0]" 0] by (simp add: demo2_def)
  moreover have "spsc_step (demo2 ?p3 PIdle (CHold 0) [0]) (demo2 ?p3 (PGotW 1) (CHold 0) [0])"
    using p_load_w [of "demo2 ?p3 PIdle (CHold 0) [0]"] by (simp add: defs)
  moreover have "spsc_step (demo2 ?p3 (PGotW 1) (CHold 0) [0]) (demo2 ?p3 (PGotR 1 1) (CHold 0) [0])"
    using p_load_r [of "demo2 ?p3 (PGotW 1) (CHold 0) [0]"] by (simp add: defs)
  moreover have "spsc_step (demo2 ?p3 (PGotR 1 1) (CHold 0) [0]) (demo2 ?p3 (PCas 1) (CHold 0) [0])"
    using p_decide [of "demo2 ?p3 (PGotR 1 1) (CHold 0) [0]"] by (simp add: defs)
  moreover have "spsc_step (demo2 ?p3 (PCas 1) (CHold 0) [0]) (demo2 ?p4 (PHold 1) (CHold 0) [0])"
    using p_cas [of "demo2 ?p3 (PCas 1) (CHold 0) [0]" 1] by (simp add: defs)
  ultimately show ?thesis using s0 by (meson reach_step)
qed

theorem spsc_exclusive_witness:
  "\<exists>s :: nat spsc. ppc s = PHold 1 \<and> cpc s = CHold 0 \<and> (1::nat) \<noteq> 0 \<and> 1 < length (p_frames (pool s))"
proof -
  let ?s = "demo2 (set_rc 1 1 (sp_take (bb_pool_sp_commit (set_rc 0 1 demo2_pool)))) (PHold 1) (CHold 0) [0]"
  have v: "ppc ?s = PHold 1" "cpc ?s = CHold 0" "length (sent ?s) < 2147483648"
    by (simp_all add: demo2_def)
  have r: "reach (spsc_init (int 2)) spsc_step ?s" using demo2_reach by simp
  from spsc_exclusive [OF r v(3,1,2)] v show ?thesis by (intro exI [of _ ?s]) simp
qed

text \<open>
  C40. Below 2^31 commits no interleaving runs into undefined behaviour (no overflow in
  \<open>w - r\<close>, no index outside the frame array), and the refcount test of bb_pool_sp_dequeue
  never turns a committed frame away: a consumer that found the ring non-empty gets its frame.
\<close>

theorem spsc_no_fault:
  assumes "reach (spsc_init (int n)) spsc_step s" and "length (sent s) < 2147483648"
  shows "ppc s \<noteq> PFault \<and> cpc s \<noteq> CFault \<and> (\<forall>i. cpc s = CCheck i \<longrightarrow> rc (pool s) i = 1)"
proof -
  have good: "spsc_good n s" by (rule reach_good [OF assms])
  have "rc (pool s) i = 1" if "cpc s = CCheck i" for i
  proof -
    have "i = lo s mod n" "lo s < hi s" using good that by (auto simp: spsc_good_defs)
    then show ?thesis using good by (auto simp: spsc_good_defs)
  qed
  then show ?thesis using good by (auto simp: spsc_good_defs)
qed

theorem spsc_no_fault_witness:
  "\<exists>s :: nat spsc. cpc s = CHold 0 \<and> length (sent s) = 1 \<and> ppc s \<noteq> PFault \<and> cpc s \<noteq> CFault"
proof -
  have r: "reach (spsc_init (int 1)) spsc_step demo_taken" using demo_taken_reach by simp
  have v: "length (sent demo_taken) = 1" "cpc demo_taken = CHold 0"
    by (simp_all add: demo_taken_def demo_sent_def)
  show ?thesis using spsc_no_fault [OF r] v by (intro exI [of _ demo_taken]) simp
qed

section \<open>The ring between calls\<close>

text \<open>
  For code that makes whole calls, a ring between calls is described by its two counters: r frames
  dequeued and released, w committed, the slots of the frames in between at refcount 1 and all
  others free.
\<close>

definition ring_ok :: "nat \<Rightarrow> nat \<Rightarrow> nat \<Rightarrow> bb_frame_pool_t \<Rightarrow> bool" where
  "ring_ok n w r p \<longleftrightarrow> p_count p = int n \<and> length (p_frames p) = n \<and> 0 < n
     \<and> p_write_idx p = word_of_nat w \<and> p_read_idx p = word_of_nat r
     \<and> r \<le> w \<and> w \<le> r + n \<and> w < 2147483648
     \<and> (\<forall>j<n. rc p j = (if \<exists>k. r \<le> k \<and> k < w \<and> j = k mod n then 1 else 0))"

text \<open>
  The contract the stream's threads rely on: a bounded FIFO of slots, where a full ring refuses the
  producer, an empty one the consumer, a released acquisition leaves no trace, and a slot is reused
  only after its release.
\<close>

locale frame_fifo =
  fixes ok :: "nat \<Rightarrow> nat \<Rightarrow> nat \<Rightarrow> 'p \<Rightarrow> bool"
    and acquire :: "'p \<Rightarrow> (nat option \<times> 'p) cres" and commit :: "'p \<Rightarrow> 'p"
    and dequeue :: "'p \<Rightarrow> (nat option \<times> 'p) cres" and release :: "nat \<Rightarrow> 'p \<Rightarrow> 'p"
  assumes acquire_full: "ok n w r p \<Longrightarrow> w = r + n \<Longrightarrow> acquire p = Inr (None, p)"
    and acquire_room: "ok n w r p \<Longrightarrow> w < r + n \<Longrightarrow> \<exists>p'. acquire p = Inr (Some (w mod n), p')
      \<and> release (w mod n) p' = p \<and> (Suc w < 2147483648 \<longrightarrow> ok n (Suc w) r (commit p'))"
    and dequeue_empty: "ok n w r p \<Longrightarrow> w = r \<Longrightarrow> dequeue p = Inr (None, p)"
    and dequeue_next: "ok n w r p \<Longrightarrow> r < w \<Longrightarrow> \<exists>p'. dequeue p = Inr (Some (r mod n), p')
      \<and> ok n w (Suc r) (release (r mod n) p')"
    and ok_bounds: "ok n w r p \<Longrightarrow> r \<le> w \<and> w \<le> r + n \<and> 0 < n"
begin

text \<open>What a producer that fills and commits, and a consumer that reads and releases, achieve.\<close>

definition put :: "'p \<Rightarrow> 'p" where
  "put p = (case acquire p of Inr (Some _, p') \<Rightarrow> commit p' | _ \<Rightarrow> p)"

definition get :: "'p \<Rightarrow> 'p" where
  "get p = (case dequeue p of Inr (Some i, p') \<Rightarrow> release i p' | _ \<Rightarrow> p)"

lemma put_ok:
  assumes "ok n w r p" and "Suc w < 2147483648"
  shows "ok n (if w < r + n then Suc w else w) r (put p)"
proof (cases "w < r + n")
  case True
  then obtain p' where "acquire p = Inr (Some (w mod n), p')" and "ok n (Suc w) r (commit p')"
    using acquire_room [OF assms(1) True] assms(2) by blast
  then show ?thesis using True by (simp add: put_def)
next
  case False
  then have "w = r + n" using ok_bounds [OF assms(1)] by simp
  then have "put p = p" using acquire_full [OF assms(1)] by (simp add: put_def)
  then show ?thesis using False assms(1) by (simp only: if_False)
qed

lemma get_ok:
  assumes "ok n w r p"
  shows "ok n w (if r < w then Suc r else r) (get p)"
proof (cases "r < w")
  case True
  then obtain p' where "dequeue p = Inr (Some (r mod n), p')" and "ok n w (Suc r) (release (r mod n) p')"
    using dequeue_next [OF assms True] by blast
  then show ?thesis using True by (simp add: get_def)
next
  case False
  then have "w = r" using ok_bounds [OF assms] by simp
  then have "get p = p" using dequeue_empty [OF assms] by (simp add: get_def)
  then show ?thesis using False assms by (simp only: if_False)
qed

lemma fill_drain:
  "ok n w r p \<Longrightarrow> w + k < 2147483648 \<Longrightarrow> w + k \<le> r + n \<Longrightarrow> ok n (w + k) r ((put ^^ k) p)"
proof (induction k)
  case (Suc k)
  then have "ok n (w + k) r ((put ^^ k) p)" by simp
  from put_ok [OF this] Suc.prems show ?case by simp
qed simp

end

lemma ring_vals:
  assumes "ring_ok n w r p"
  shows "sint (p_write_idx p) = int w" "sint (p_read_idx p) = int r"
    "ring_slot p (int k) = Inr (k mod n)" "w mod n < n"
  using assms by (simp_all add: ring_ok_def sint_of_small_nat ring_slot_ok)

lemma ring_free_slot:
  assumes "ring_ok n w r p" "w < r + n"
  shows "rc p (w mod n) = 0"
proof -
  have "\<not> (\<exists>k. r \<le> k \<and> k < w \<and> w mod n = k mod n)"
  proof clarify
    fix k assume k: "r \<le> k" "k < w" "w mod n = k mod n"
    then have "w < k + n" using assms(2) by linarith
    with mod_ne [of k w n] k show False by simp
  qed
  then show ?thesis using assms ring_vals(4) [OF assms(1)] by (simp add: ring_ok_def)
qed

lemma ring_acquire:
  assumes "ring_ok n w r p"
  shows "bb_pool_sp_acquire p =
    (if w = r + n then Inr (None, p) else Inr (Some (w mod n), set_rc (w mod n) 1 p))"
proof -
  have "sp_pick p (int w) (int r) = (if w = r + n then Inr None else Inr (Some (w mod n)))"
    using assms ring_vals(3) [OF assms] by (auto simp: sp_pick_def ring_ok_def)
  moreover have "rc p (w mod n) = 0" if "w \<noteq> r + n"
    using ring_free_slot [OF assms] assms that by (simp add: ring_ok_def)
  ultimately show ?thesis
    by (simp add: bb_pool_sp_acquire_def ring_vals(1,2) [OF assms] cas_acquire_def)
qed

lemma ring_dequeue:
  assumes "ring_ok n w r p"
  shows "bb_pool_sp_dequeue p = (if r = w then Inr (None, p) else Inr (Some (r mod n), sp_take p))"
proof -
  have "sp_next p (int w) (int r) = (if r = w then Inr None else Inr (Some (r mod n)))"
    using assms ring_vals(3) [OF assms] by (auto simp: sp_next_def ring_ok_def)
  moreover have "rc p (r mod n) = 1" if "r \<noteq> w"
  proof -
    have "r \<le> r \<and> r < w \<and> r mod n = r mod n" "r mod n < n"
      using assms that by (auto simp: ring_ok_def)
    then show ?thesis using assms unfolding ring_ok_def by auto
  qed
  ultimately show ?thesis
    by (simp add: bb_pool_sp_dequeue_def ring_vals(1,2) [OF assms])
qed

lemma set_rc_undo:
  assumes "rc p i = 0"
  shows "set_rc i 0 (set_rc i 1 p) = p"
proof -
  have "(p_frames p ! i)\<lparr>f_refcount := 0\<rparr> = p_frames p ! i" using assms by (cases "p_frames p ! i") simp
  then show ?thesis
    by (cases "i < length (p_frames p)") (simp_all add: set_frame_def list_update_beyond)
qed

lemma ring_commit:
  assumes "ring_ok n w r p" "w < r + n" "Suc w < 2147483648"
  shows "ring_ok n (Suc w) r (bb_pool_sp_commit (set_rc (w mod n) 1 p))"
proof -
  have "(\<exists>k. r \<le> k \<and> k < Suc w \<and> j = k mod n) \<longleftrightarrow>
      j = w mod n \<or> (\<exists>k. r \<le> k \<and> k < w \<and> j = k mod n)" for j
    using assms(1) by (auto simp: ring_ok_def less_Suc_eq)
  then show ?thesis using assms by (auto simp: ring_ok_def bb_pool_sp_commit_def)
qed

lemma ring_released:
  assumes "ring_ok n w r p" "r < w"
  shows "ring_ok n w (Suc r) (bb_pool_sp_release (r mod n) (sp_take p))"
proof -
  have ne: "k mod n \<noteq> r mod n" if "Suc r \<le> k" "k < w" for k
    using mod_ne [of r k n] that assms(1) by (auto simp: ring_ok_def)
  have split: "(\<exists>k. r \<le> k \<and> k < w \<and> j = k mod n) \<longleftrightarrow>
      j = r mod n \<or> (\<exists>k. Suc r \<le> k \<and> k < w \<and> j = k mod n)" for j
    using assms(2) by (metis Suc_leI le_neq_implies_less Suc_leD order_refl)
  show ?thesis unfolding ring_ok_def
  proof (intro conjI allI impI)
    fix j assume "j < n"
    then show "rc (bb_pool_sp_release (r mod n) (sp_take p)) j =
        (if \<exists>k. Suc r \<le> k \<and> k < w \<and> j = k mod n then 1 else 0)"
      using assms ne split [of j]
      by (auto simp: ring_ok_def bb_pool_sp_release_def sp_take_def)
  qed (use assms in \<open>auto simp: ring_ok_def bb_pool_sp_release_def sp_take_def\<close>)
qed

interpretation sp_ring: frame_fifo ring_ok bb_pool_sp_acquire bb_pool_sp_commit
  bb_pool_sp_dequeue bb_pool_sp_release
proof
  fix n w r p assume ok: "ring_ok n w r p"
  show "bb_pool_sp_acquire p = Inr (None, p)" if "w = r + n" using ring_acquire [OF ok] that by simp
  show "\<exists>p'. bb_pool_sp_acquire p = Inr (Some (w mod n), p') \<and> bb_pool_sp_release (w mod n) p' = p
      \<and> (Suc w < 2147483648 \<longrightarrow> ring_ok n (Suc w) r (bb_pool_sp_commit p'))" if "w < r + n"
    using ring_acquire [OF ok] that ring_commit [OF ok that]
      set_rc_undo [OF ring_free_slot [OF ok that]]
    by (simp add: bb_pool_sp_release_def)
  show "bb_pool_sp_dequeue p = Inr (None, p)" if "w = r" using ring_dequeue [OF ok] that by simp
  show "\<exists>p'. bb_pool_sp_dequeue p = Inr (Some (r mod n), p')
      \<and> ring_ok n w (Suc r) (bb_pool_sp_release (r mod n) p')" if "r < w"
    using ring_dequeue [OF ok] that ring_released [OF ok that] by simp
  show "r \<le> w \<and> w \<le> r + n \<and> 0 < n" using ok by (auto simp: ring_ok_def)
qed

lemma fresh_ring_ok: "pool_fresh (int n) p \<Longrightarrow> 0 < n \<Longrightarrow> ring_ok n 0 0 p"
  by (auto simp: pool_fresh_def ring_ok_def)

text \<open>
  C36. Between calls the ring is a bounded FIFO queue: with w commits and r releases behind it, an
  acquire is refused exactly when n frames are in flight and otherwise hands out slot w mod n and
  can be aborted without trace; a dequeue is refused exactly when nothing is committed and otherwise
  hands out slot r mod n, and the release leads to the ring with one frame less.
\<close>

theorem sp_ring_refines_queue:
  assumes "ring_ok n w r p"
  shows "bb_pool_sp_acquire p =
      (if w = r + n then Inr (None, p) else Inr (Some (w mod n), set_rc (w mod n) 1 p))
    \<and> bb_pool_sp_dequeue p = (if r = w then Inr (None, p) else Inr (Some (r mod n), sp_take p))
    \<and> (w < r + n \<longrightarrow> bb_pool_sp_release (w mod n) (set_rc (w mod n) 1 p) = p)
    \<and> (w < r + n \<longrightarrow> Suc w < 2147483648 \<longrightarrow>
        ring_ok n (Suc w) r (bb_pool_sp_commit (set_rc (w mod n) 1 p)))
    \<and> (r < w \<longrightarrow> ring_ok n w (Suc r) (bb_pool_sp_release (r mod n) (sp_take p)))"
  using ring_acquire [OF assms] ring_dequeue [OF assms] ring_commit [OF assms]
    ring_released [OF assms] set_rc_undo [OF ring_free_slot [OF assms]]
  by (simp add: bb_pool_sp_release_def)

theorem sp_ring_refines_queue_witness:
  "bb_pool_sp_acquire demo2_pool = Inr (Some 0, set_rc 0 1 demo2_pool)
    \<and> bb_pool_sp_dequeue demo2_pool = Inr (None, demo2_pool)
    \<and> ring_ok 2 1 0 (bb_pool_sp_commit (set_rc 0 1 demo2_pool))"
proof -
  have "pool_fresh (int 2) demo2_pool" by (simp add: pool_fresh_def demo2_pool_def pool_zero_def)
  then have "ring_ok 2 0 0 demo2_pool" by (rule fresh_ring_ok) simp
  from sp_ring_refines_queue [OF this] show ?thesis by simp
qed

text \<open>
  The index counters are not reduced: the commit after 2^31 - 1 others makes write_idx negative,
  from then on the consumer sees an empty ring although frames are committed, and the producer's
  \<open>w - r\<close> overflows.
\<close>

theorem sp_index_wrap_stalls:
  assumes "sint (p_write_idx p) = 2147483647" and "0 < sint (p_read_idx p)"
  shows "sint (p_write_idx (bb_pool_sp_commit p)) = -2147483648
    \<and> bb_pool_sp_dequeue (bb_pool_sp_commit p) = Inr (None, bb_pool_sp_commit p)
    \<and> bb_pool_sp_acquire (bb_pool_sp_commit p) = Inl SignedOverflow"
proof -
  have "p_write_idx p = word_of_int (sint (p_write_idx p))" by simp
  then have w: "p_write_idx p = 2147483647" using assms(1) by simp
  then have neg: "sint (p_write_idx (bb_pool_sp_commit p)) = -2147483648"
    by (simp add: bb_pool_sp_commit_def)
  moreover have "p_read_idx (bb_pool_sp_commit p) = p_read_idx p" by (simp add: bb_pool_sp_commit_def)
  ultimately show ?thesis using assms(2)
    by (simp add: bb_pool_sp_dequeue_def bb_pool_sp_acquire_def sp_next_def sp_pick_def in_int32_def)
qed

theorem sp_index_wrap_stalls_witness:
  "\<exists>p. ring_ok 2 2147483647 2147483646 p
    \<and> bb_pool_sp_dequeue (bb_pool_sp_commit p) = Inr (None, bb_pool_sp_commit p)
    \<and> bb_pool_sp_acquire (bb_pool_sp_commit p) = Inl SignedOverflow"
proof -
  let ?p = "demo2_pool\<lparr>p_frames := [frame_zero\<lparr>f_refcount := 1\<rparr>, frame_zero],
    p_write_idx := 2147483647, p_read_idx := 2147483646\<rparr>"
  have k: "k = 2147483646" if "2147483646 \<le> k" "k < 2147483647" for k :: nat using that by linarith
  have 0: "\<exists>k. 2147483646 \<le> k \<and> k < 2147483647 \<and> (0::nat) = k mod 2"
    by (rule exI [of _ 2147483646]) simp
  have 1: "\<not> (\<exists>k. 2147483646 \<le> k \<and> k < 2147483647 \<and> (1::nat) = k mod 2)"
  proof
    assume "\<exists>k. 2147483646 \<le> k \<and> k < 2147483647 \<and> (1::nat) = k mod 2"
    then obtain k' where "2147483646 \<le> k'" "k' < 2147483647" and odd: "(1::nat) = k' mod 2" by blast
    then have "k' = 2147483646" using k by blast
    then have "(1::nat) = 2147483646 mod 2" using odd by (simp only:)
    then show False by simp
  qed
  have rcs: "rc ?p j = (if \<exists>k. 2147483646 \<le> k \<and> k < 2147483647 \<and> j = k mod 2 then 1 else 0)"
    if "j < 2" for j
  proof (cases "j = 0")
    case True
    then show ?thesis using 0 by (simp only: if_True True) simp
  next
    case False
    then have "j = 1" using that by simp
    then show ?thesis using 1 by (simp only: if_False) (simp add: demo2_pool_def)
  qed
  have "ring_ok 2 2147483647 2147483646 ?p"
    unfolding ring_ok_def
  proof (intro conjI allI impI)
    show "rc ?p j = (if \<exists>k. 2147483646 \<le> k \<and> k < 2147483647 \<and> j = k mod 2 then 1 else 0)"
      if "j < 2" for j by (rule rcs [OF that])
  qed (simp_all add: demo2_pool_def pool_zero_def)
  moreover have "sint (p_write_idx ?p) = 2147483647" "0 < sint (p_read_idx ?p)" by simp_all
  ultimately show ?thesis using sp_index_wrap_stalls [of ?p] by blast
qed

end
