(* ===== verification/BB_Pool_MPSC.thy ===== *)
theory BB_Pool_MPSC
  imports BB_Pool
begin

text \<open>
  The mutex-protected path of \<open>libbb/bb_pool.c\<close> under concurrency: any number of producers that
  acquire, fill and enqueue frames and one consumer that dequeues, reads and releases, interleaved
  at each atomic operation, mutex operation, condition wait and signal. The consumer sleeps in the wait
  until a signal or, as a POSIX condition variable may, for no reason. Then the order in which frames leave
  the pool.
\<close>

section \<open>The machine\<close>

datatype mpc = MIdle | MScan nat | MHold nat | MMarked nat | MLocked nat | MCounted | MUnlock
datatype dpc = DIdle | DAsleep | DLocked | DScan nat | DFound nat | DNone | DTook nat | DHold nat
datatype thread = Producer nat | Consumer

record mpsc =
  mpool :: bb_frame_pool_t
  mpc :: "nat \<Rightarrow> mpc"
  dpc :: dpc
  mutex :: "thread option"

abbreviation set_mpc :: "nat \<Rightarrow> mpc \<Rightarrow> mpsc \<Rightarrow> mpsc" where
  "set_mpc t q s \<equiv> s\<lparr>mpc := (mpc s)(t := q)\<rparr>"

abbreviation in_pool :: "nat \<Rightarrow> mpsc \<Rightarrow> bool" where
  "in_pool i s \<equiv> int i < p_count (mpool s)"

inductive mpsc_step :: "nat \<Rightarrow> mpsc \<Rightarrow> mpsc \<Rightarrow> bool" for m where
  m_start: "t < m \<Longrightarrow> mpc s t = MIdle \<Longrightarrow> mpsc_step m s (set_mpc t (MScan 0) s)"
| m_cas: "t < m \<Longrightarrow> mpc s t = MScan i \<Longrightarrow> in_pool i s \<Longrightarrow> cas_acquire i (mpool s) = (res, p') \<Longrightarrow>
    mpsc_step m s (set_mpc t (case res of None \<Rightarrow> MScan (Suc i) | Some j \<Rightarrow> MHold j) (s\<lparr>mpool := p'\<rparr>))"
| m_full: "t < m \<Longrightarrow> mpc s t = MScan i \<Longrightarrow> \<not> in_pool i s \<Longrightarrow> mpsc_step m s (set_mpc t MIdle s)"
| m_mark: "t < m \<Longrightarrow> mpc s t = MHold i \<Longrightarrow>
    mpsc_step m s (set_mpc t (MMarked i) (s\<lparr>mpool := mp_mark i (mpool s)\<rparr>))"
| m_lock: "t < m \<Longrightarrow> mpc s t = MMarked i \<Longrightarrow> mutex s = None \<Longrightarrow>
    mpsc_step m s (set_mpc t (MLocked i) (s\<lparr>mutex := Some (Producer t)\<rparr>))"
| m_count: "t < m \<Longrightarrow> mpc s t = MLocked i \<Longrightarrow>
    mpsc_step m s (set_mpc t MCounted (s\<lparr>mpool := mp_count (mpool s)\<rparr>))"
| m_signal: "t < m \<Longrightarrow> mpc s t = MCounted \<Longrightarrow>
    mpsc_step m s (set_mpc t MUnlock (s\<lparr>mpool := mp_signal (mpool s)\<rparr>))"
| m_unlock: "t < m \<Longrightarrow> mpc s t = MUnlock \<Longrightarrow>
    mpsc_step m s (set_mpc t MIdle (s\<lparr>mutex := None\<rparr>))"
| d_lock: "dpc s = DIdle \<Longrightarrow> mutex s = None \<Longrightarrow>
    mpsc_step m s (s\<lparr>dpc := DLocked, mutex := Some Consumer\<rparr>)"
| d_wait: "dpc s = DLocked \<Longrightarrow> p_mp_pending (mpool s) = 0 \<Longrightarrow>
    mpsc_step m s (s\<lparr>dpc := DAsleep, mutex := None, mpool := mp_sleep (mpool s)\<rparr>)"
| d_wake: "dpc s = DAsleep \<Longrightarrow> \<not> p_mp_cond (mpool s) \<Longrightarrow> mpsc_step m s (s\<lparr>dpc := DIdle\<rparr>)"
| d_spurious: "dpc s = DAsleep \<Longrightarrow> mpsc_step m s (s\<lparr>dpc := DIdle, mpool := mp_signal (mpool s)\<rparr>)"
| d_scan: "dpc s = DLocked \<Longrightarrow> p_mp_pending (mpool s) \<noteq> 0 \<Longrightarrow> mpsc_step m s (s\<lparr>dpc := DScan 0\<rparr>)"
| d_load: "dpc s = DScan i \<Longrightarrow> in_pool i s \<Longrightarrow>
    mpsc_step m s (s\<lparr>dpc := (if frame_ready (p_frames (mpool s) ! i) then DFound i else DScan (Suc i))\<rparr>)"
| d_exhausted: "dpc s = DScan i \<Longrightarrow> \<not> in_pool i s \<Longrightarrow> mpsc_step m s (s\<lparr>dpc := DNone\<rparr>)"
| d_take: "dpc s = DFound i \<Longrightarrow>
    mpsc_step m s (s\<lparr>dpc := DTook i, mpool := (mpool s)\<lparr>p_mp_pending := p_mp_pending (mpool s) - 1\<rparr>\<rparr>)"
| d_none: "dpc s = DNone \<Longrightarrow>
    mpsc_step m s (s\<lparr>dpc := DIdle, mutex := None,
      mpool := (mpool s)\<lparr>p_mp_pending := p_mp_pending (mpool s) - 1\<rparr>\<rparr>)"
| d_unlock: "dpc s = DTook i \<Longrightarrow> mpsc_step m s (s\<lparr>dpc := DHold i, mutex := None\<rparr>)"
| d_release: "dpc s = DHold i \<Longrightarrow>
    mpsc_step m s (s\<lparr>dpc := DIdle, mpool := bb_pool_mp_release i (mpool s)\<rparr>)"

definition mpsc_init :: "int \<Rightarrow> mpsc \<Rightarrow> bool" where
  "mpsc_init n s \<longleftrightarrow> 0 < n \<and> n < 2147483648 \<and> pool_fresh n (mpool s)
     \<and> (\<forall>t. mpc s t = MIdle) \<and> dpc s = DIdle \<and> mutex s = None"

section \<open>The invariant\<close>

text \<open>
  The producers between marking their frame and counting it; the frames marked ready; the frame
  the consumer took out of the count.
\<close>

definition uncounted :: "nat \<Rightarrow> mpsc \<Rightarrow> nat set" where
  "uncounted m s = {t. t < m \<and> (\<exists>i. mpc s t = MMarked i \<or> mpc s t = MLocked i)}"

definition ready_slots :: "nat \<Rightarrow> mpsc \<Rightarrow> nat set" where
  "ready_slots n s = {j. j < n \<and> rc (mpool s) j = 2}"

definition held_slots :: "mpsc \<Rightarrow> nat set" where
  "held_slots s = (case dpc s of DTook i \<Rightarrow> {i} | DHold i \<Rightarrow> {i} | _ \<Rightarrow> {})"

definition mslots_ok :: "nat \<Rightarrow> mpsc \<Rightarrow> bool" where
  "mslots_ok n s \<longleftrightarrow> p_count (mpool s) = int n \<and> length (p_frames (mpool s)) = n \<and> n < 2147483648
     \<and> (\<forall>j<n. rc (mpool s) j \<in> {0, 1, 2})
     \<and> (\<forall>t i. mpc s t = MHold i \<longrightarrow> i < n \<and> rc (mpool s) i = 1)
     \<and> (\<forall>t t' i. mpc s t = MHold i \<and> mpc s t' = MHold i \<longrightarrow> t = t')
     \<and> held_slots s \<subseteq> ready_slots n s"

text \<open>The pending count: what is ready and not taken, less what is marked and not yet counted.\<close>

definition pending_ok :: "nat \<Rightarrow> nat \<Rightarrow> mpsc \<Rightarrow> bool" where
  "pending_ok n m s \<longleftrightarrow> (\<exists>k. p_mp_pending (mpool s) = word_of_nat k
     \<and> k + card (uncounted m s) = card (ready_slots n s - held_slots s))"

fun m_has_mutex :: "mpc \<Rightarrow> bool" where
  "m_has_mutex (MLocked i) = True"
| "m_has_mutex MCounted = True"
| "m_has_mutex MUnlock = True"
| "m_has_mutex _ = False"

fun d_has_mutex :: "dpc \<Rightarrow> bool" where
  "d_has_mutex DIdle = False"
| "d_has_mutex DAsleep = False"
| "d_has_mutex (DHold i) = False"
| "d_has_mutex _ = True"

definition locks_ok :: "mpsc \<Rightarrow> bool" where
  "locks_ok s \<longleftrightarrow>
     (\<forall>t. m_has_mutex (mpc s t) \<longleftrightarrow> mutex s = Some (Producer t))
     \<and> (d_has_mutex (dpc s) \<longleftrightarrow> mutex s = Some Consumer)"

text \<open>
  A frame the scan passed by and that is ready now was marked meanwhile by a producer that cannot
  count it before the consumer gives the mutex back.
\<close>

definition scan_ok :: "nat \<Rightarrow> nat \<Rightarrow> mpsc \<Rightarrow> bool" where
  "scan_ok n m s \<longleftrightarrow> (case dpc s of
       DScan i \<Rightarrow> p_mp_pending (mpool s) \<noteq> 0 \<and>
         (\<forall>j \<in> ready_slots n s. j < i \<longrightarrow> (\<exists>t<m. mpc s t = MMarked j))
     | DFound i \<Rightarrow> p_mp_pending (mpool s) \<noteq> 0 \<and> i \<in> ready_slots n s
     | DNone \<Rightarrow> False
     | _ \<Rightarrow> True)"

text \<open>
  No wakeup is lost: the consumer sleeps unsignalled only while nothing is pending, or while a producer
  that has counted its frame is about to signal.
\<close>

definition sleep_ok :: "mpsc \<Rightarrow> bool" where
  "sleep_ok s \<longleftrightarrow> (p_mp_cond (mpool s) \<longrightarrow> dpc s = DAsleep \<and> (p_mp_pending (mpool s) = 0 \<or> (\<exists>t. mpc s t = MCounted)))"

definition mpsc_inv :: "nat \<Rightarrow> nat \<Rightarrow> mpsc \<Rightarrow> bool" where
  "mpsc_inv n m s \<longleftrightarrow> mslots_ok n s \<and> pending_ok n m s \<and> locks_ok s \<and> scan_ok n m s \<and> sleep_ok s"

lemmas mpsc_inv_defs = mpsc_inv_def mslots_ok_def locks_ok_def scan_ok_def sleep_ok_def

lemma two_le_sint: "w \<in> {0, 1, 2} \<Longrightarrow> 2 \<le> sint (w :: int32) \<longleftrightarrow> w = 2"
  by auto

lemma pool_call_rc [simp]:
  assumes "i < length (p_frames p)"
  shows "rc (mp_mark i p) j = (if j = i then rc p i + 1 else rc p j)"
    "rc (bb_pool_mp_release i p) j = (if j = i then 0 else rc p j)"
  using assms by (simp_all add: mp_mark_def bb_pool_mp_release_def)

lemma pool_call_simps [simp]:
  "p_count (mp_mark i p) = p_count p" "length (p_frames (mp_mark i p)) = length (p_frames p)"
  "p_mp_pending (mp_mark i p) = p_mp_pending p"
  "p_mp_cond (mp_mark i p) = p_mp_cond p"
  "p_count (mp_count p) = p_count p" "p_frames (mp_count p) = p_frames p"
  "p_mp_pending (mp_count p) = p_mp_pending p + 1" "p_mp_cond (mp_count p) = p_mp_cond p"
  "p_count (mp_signal p) = p_count p" "p_frames (mp_signal p) = p_frames p"
  "p_mp_pending (mp_signal p) = p_mp_pending p" "\<not> p_mp_cond (mp_signal p)"
  "p_count (mp_sleep p) = p_count p" "p_frames (mp_sleep p) = p_frames p"
  "p_mp_pending (mp_sleep p) = p_mp_pending p" "p_mp_cond (mp_sleep p)"
  "p_count (bb_pool_mp_release i p) = p_count p"
  "length (p_frames (bb_pool_mp_release i p)) = length (p_frames p)"
  "p_mp_pending (bb_pool_mp_release i p) = p_mp_pending p"
  "p_mp_cond (bb_pool_mp_release i p) = p_mp_cond p"
  by (simp_all add: mp_mark_def mp_count_def mp_signal_def mp_sleep_def bb_pool_mp_release_def)

lemma cas_acquire_cases:
  assumes "cas_acquire i p = (res, p')"
  obtains (won) "rc p i = 0" "res = Some i" "p' = set_rc i 1 p" | (lost) "rc p i \<noteq> 0" "res = None" "p' = p"
  using assms by (auto simp: cas_acquire_def split: if_splits)

lemma slots_step:
  assumes "mpsc_inv n m s" and "mpsc_step m s t"
  shows "mslots_ok n t"
  using assms(2)
proof cases
  case (m_cas t i res p')
  from m_cas(5) show ?thesis using assms(1) m_cas
    by (cases rule: cas_acquire_cases)
      (auto simp: mpsc_inv_defs ready_slots_def held_slots_def split: dpc.splits)
next
  case (m_mark t i)
  then show ?thesis using assms(1)
    by (auto simp: mpsc_inv_defs ready_slots_def held_slots_def split: dpc.splits)
next
  case (d_release i)
  then show ?thesis using assms(1)
    by (auto simp: mpsc_inv_defs ready_slots_def held_slots_def split: dpc.splits)
qed (use assms(1) in \<open>fastforce simp: mpsc_inv_defs ready_slots_def held_slots_def split: dpc.splits\<close>)+

lemma locks_step:
  assumes inv: "mpsc_inv n m s" and step: "mpsc_step m s t"
  shows "locks_ok t"
proof -
  have p: "m_has_mutex (mpc s u) \<longleftrightarrow> mutex s = Some (Producer u)"
    and d: "d_has_mutex (dpc s) \<longleftrightarrow> mutex s = Some Consumer" for u
    using inv by (simp_all add: mpsc_inv_def locks_ok_def)
  show ?thesis using step
  proof cases
    case (m_cas t i res p')
    have "mutex s \<noteq> Some (Producer t)" using p [of t] m_cas(3) by simp
    with m_cas(5) show ?thesis
      using p d m_cas(1) by (cases rule: cas_acquire_cases) (simp_all add: locks_ok_def)
  next
    case (m_start t)
    then show ?thesis using p d p [of t] by (simp add: locks_ok_def)
  next
    case (m_full t)
    then show ?thesis using p d p [of t] by (simp add: locks_ok_def)
  next
    case (m_mark t)
    then show ?thesis using p d p [of t] by (simp add: locks_ok_def)
  next
    case (m_lock t)
    then show ?thesis using p d by (auto simp add: locks_ok_def)
  next
    case (m_count t)
    then show ?thesis using p d p [of t] by (auto simp add: locks_ok_def)
  next
    case (m_signal t)
    then show ?thesis using p d p [of t] by (auto simp add: locks_ok_def)
  next
    case (m_unlock t)
    then show ?thesis using p d p [of t] by (auto simp add: locks_ok_def)
  qed (use p d in \<open>auto simp: locks_ok_def\<close>)
qed

lemma ready_finite [simp]: "finite (ready_slots n s)" "finite (uncounted m s)"
  by (simp_all add: ready_slots_def uncounted_def)

text \<open>Steps that touch neither a ready frame, the count nor a producer about to count.\<close>

lemma pending_keep:
  assumes "pending_ok n m s" and "p_mp_pending (mpool t) = p_mp_pending (mpool s)"
    and "uncounted m t = uncounted m s" and "ready_slots n t - held_slots t = ready_slots n s - held_slots s"
  shows "pending_ok n m t"
  using assms by (simp add: pending_ok_def)

lemma pending_mark:
  assumes inv: "mpsc_inv n m s" and t: "t < m" "mpc s t = MHold i"
  shows "pending_ok n m (set_mpc t (MMarked i) (s\<lparr>mpool := mp_mark i (mpool s)\<rparr>))"
    (is "pending_ok n m ?t")
proof -
  have i: "i < n" "rc (mpool s) i = 1" "length (p_frames (mpool s)) = n" "held_slots s \<subseteq> ready_slots n s"
    using inv t by (auto simp: mpsc_inv_defs)
  have "ready_slots n ?t - held_slots ?t = insert i (ready_slots n s - held_slots s)"
    "i \<notin> ready_slots n s - held_slots s"
    using i by (auto simp: ready_slots_def held_slots_def split: dpc.splits)
  moreover have "uncounted m ?t = insert t (uncounted m s)" "t \<notin> uncounted m s"
    using t by (auto simp: uncounted_def)
  ultimately show ?thesis using inv by (auto simp: mpsc_inv_def pending_ok_def)
qed

lemma pending_count:
  assumes inv: "mpsc_inv n m s" and t: "t < m" "mpc s t = MLocked i"
  shows "pending_ok n m (set_mpc t MCounted (s\<lparr>mpool := mp_count (mpool s)\<rparr>))"
    (is "pending_ok n m ?t")
proof -
  obtain k where k: "p_mp_pending (mpool s) = word_of_nat k"
    "k + card (uncounted m s) = card (ready_slots n s - held_slots s)"
    using inv by (auto simp: mpsc_inv_def pending_ok_def)
  have "ready_slots n ?t - held_slots ?t = ready_slots n s - held_slots s"
    by (auto simp: ready_slots_def held_slots_def split: dpc.splits)
  moreover have "uncounted m s = insert t (uncounted m ?t)" "t \<notin> uncounted m ?t"
    using t by (auto simp: uncounted_def)
  ultimately have "p_mp_pending (mpool ?t) = word_of_nat (Suc k)"
    "Suc k + card (uncounted m ?t) = card (ready_slots n ?t - held_slots ?t)"
    using k by simp_all
  then show ?thesis unfolding pending_ok_def by blast
qed

lemma pending_take:
  assumes inv: "mpsc_inv n m s" and d: "dpc s = DFound i"
  shows "pending_ok n m (s\<lparr>dpc := DTook i,
    mpool := (mpool s)\<lparr>p_mp_pending := p_mp_pending (mpool s) - 1\<rparr>\<rparr>)" (is "pending_ok n m ?t")
proof -
  obtain k where k: "p_mp_pending (mpool s) = word_of_nat k"
    "k + card (uncounted m s) = card (ready_slots n s - held_slots s)"
    using inv by (auto simp: mpsc_inv_def pending_ok_def)
  have i: "i \<in> ready_slots n s" "p_mp_pending (mpool s) \<noteq> 0"
    using inv d by (simp_all add: mpsc_inv_defs)
  then obtain k' where k': "k = Suc k'" using k by (cases k) auto
  have "held_slots s = {}" "held_slots ?t = {i}" "ready_slots n ?t = ready_slots n s"
    "uncounted m ?t = uncounted m s"
    using d by (auto simp: held_slots_def ready_slots_def uncounted_def)
  then have "p_mp_pending (mpool ?t) = word_of_nat k'"
    "k' + card (uncounted m ?t) = card (ready_slots n ?t - held_slots ?t)"
    using i k k' by simp_all
  then show ?thesis unfolding pending_ok_def by blast
qed

lemma pending_step:
  assumes inv: "mpsc_inv n m s" and step: "mpsc_step m s t"
  shows "pending_ok n m t"
  using step
proof cases
  case (m_cas t i res p')
  have p: "pending_ok n m s" and i: "i < length (p_frames (mpool s))" "length (p_frames (mpool s)) = n"
    using inv m_cas by (auto simp: mpsc_inv_def mslots_ok_def)
  from m_cas(5) show ?thesis
  proof (cases rule: cas_acquire_cases)
    case won
    show ?thesis
      by (rule pending_keep [OF p])
        (use won m_cas i in \<open>auto simp: uncounted_def ready_slots_def held_slots_def\<close>)
  next
    case lost
    show ?thesis
      by (rule pending_keep [OF p])
        (use lost m_cas in \<open>auto simp: uncounted_def ready_slots_def held_slots_def\<close>)
  qed
next
  case (m_mark t i)
  then show ?thesis using pending_mark [OF inv] by simp
next
  case (m_count t i)
  then show ?thesis using pending_count [OF inv] by simp
next
  case (d_take i)
  then show ?thesis using pending_take [OF inv] by simp
next
  case d_none
  then show ?thesis using inv by (simp add: mpsc_inv_defs)
next
  case (d_release i)
  have p: "pending_ok n m s" and i: "i < length (p_frames (mpool s))"
    using inv d_release by (auto simp: mpsc_inv_def mslots_ok_def held_slots_def ready_slots_def)
  show ?thesis
    by (rule pending_keep [OF p])
      (use d_release i in \<open>auto simp: uncounted_def ready_slots_def held_slots_def split: if_splits\<close>)
qed (rule pending_keep [of n m s], use inv in \<open>simp add: mpsc_inv_def\<close>,
    auto simp: uncounted_def ready_slots_def held_slots_def split: dpc.splits)+

text \<open>
  The scan cannot run off the end: each ready frame it passed belongs to a producer that has not
  counted yet, so the ones counted would be none.
\<close>

lemma scan_finds:
  assumes inv: "mpsc_inv n m s" and d: "dpc s = DScan i"
  shows "in_pool i s"
proof (rule ccontr)
  assume "\<not> in_pool i s"
  then have ni: "n \<le> i" using inv by (simp add: mpsc_inv_defs)
  obtain k where k: "p_mp_pending (mpool s) = word_of_nat k"
    "k + card (uncounted m s) = card (ready_slots n s)"
    using inv d by (auto simp: mpsc_inv_def pending_ok_def held_slots_def)
  have "\<forall>j \<in> ready_slots n s. \<exists>t. t < m \<and> mpc s t = MMarked j"
    using inv d ni by (fastforce simp: mpsc_inv_defs ready_slots_def)
  then obtain f where f: "\<forall>j \<in> ready_slots n s. f j < m \<and> mpc s (f j) = MMarked j" by metis
  have "inj_on f (ready_slots n s)"
  proof (rule inj_onI)
    fix x y assume "x \<in> ready_slots n s" "y \<in> ready_slots n s" "f x = f y"
    then have "MMarked x = MMarked y" using f by metis
    then show "x = y" by simp
  qed
  moreover have "f ` ready_slots n s \<subseteq> uncounted m s" using f by (auto simp: uncounted_def)
  ultimately have "card (ready_slots n s) \<le> card (uncounted m s)"
    by (metis card_image card_mono ready_finite(2))
  then have "k = 0" using k by simp
  then show False using inv d k by (simp add: mpsc_inv_defs)
qed

text \<open>Steps of a producer that leave the ready frames and the marks of the others alone.\<close>

lemma scan_keep:
  assumes "scan_ok n m s" and "dpc t = dpc s" and "p_mp_pending (mpool t) = p_mp_pending (mpool s)"
    and "ready_slots n t = ready_slots n s" and "\<And>u j. mpc s u = MMarked j \<Longrightarrow> mpc t u = MMarked j"
  shows "scan_ok n m t"
proof (cases "dpc s")
  case (DScan i)
  then show ?thesis using assms unfolding scan_ok_def by simp blast
qed (use assms in \<open>simp_all add: scan_ok_def\<close>)

lemma scan_idle: "\<not> d_has_mutex (dpc s) \<Longrightarrow> scan_ok n m s"
  by (cases "dpc s") (simp_all add: scan_ok_def)

lemma scan_mark:
  assumes inv: "mpsc_inv n m s" and t: "t < m" "mpc s t = MHold i"
  shows "scan_ok n m (set_mpc t (MMarked i) (s\<lparr>mpool := mp_mark i (mpool s)\<rparr>))"
    (is "scan_ok n m ?t")
proof -
  have scan: "scan_ok n m s" and i: "i < n" "rc (mpool s) i = 1" "length (p_frames (mpool s)) = n"
    using inv t by (auto simp: mpsc_inv_def mslots_ok_def)
  have r: "ready_slots n ?t = insert i (ready_slots n s)"
    using i by (auto simp: ready_slots_def)
  have keep: "\<exists>u<m. mpc ?t u = MMarked j" if "\<exists>u<m. mpc s u = MMarked j" for j
  proof -
    from that obtain u where "u < m" "mpc s u = MMarked j" by blast
    moreover from this have "u \<noteq> t" using t(2) by auto
    ultimately show ?thesis by auto
  qed
  have me: "\<exists>u<m. mpc ?t u = MMarked i" using t(1) by auto
  show ?thesis
  proof (cases "dpc s")
    case (DScan k)
    then show ?thesis using scan r keep me unfolding scan_ok_def by simp
  qed (use scan r in \<open>simp_all add: scan_ok_def\<close>)
qed

lemma scan_step:
  assumes inv: "mpsc_inv n m s" and step: "mpsc_step m s t"
  shows "scan_ok n m t"
proof -
  have scan: "scan_ok n m s" using inv by (simp add: mpsc_inv_def)
  show ?thesis
    using step
  proof cases
    case (m_start t)
    show ?thesis by (rule scan_keep [OF scan]) (use m_start in \<open>auto simp: ready_slots_def\<close>)
  next
    case (m_cas t i res p')
    have i: "i < length (p_frames (mpool s))" using inv m_cas by (auto simp: mpsc_inv_def mslots_ok_def)
    from m_cas(5) show ?thesis
    proof (cases rule: cas_acquire_cases)
      case won
      show ?thesis by (rule scan_keep [OF scan]) (use won m_cas i in \<open>auto simp: ready_slots_def\<close>)
    next
      case lost
      show ?thesis by (rule scan_keep [OF scan]) (use lost m_cas in \<open>auto simp: ready_slots_def\<close>)
    qed
  next
    case (m_full t i)
    show ?thesis by (rule scan_keep [OF scan]) (use m_full in \<open>auto simp: ready_slots_def\<close>)
  next
    case (m_mark t i)
    then show ?thesis using scan_mark [OF inv] by simp
  next
    case (m_lock t i)
    then have "mutex s \<noteq> Some Consumer" by simp
    then have "\<not> d_has_mutex (dpc s)" using inv by (simp add: mpsc_inv_def locks_ok_def)
    then show ?thesis using m_lock by (auto intro: scan_idle)
  next
    case (m_count t i)
    then have "mutex s = Some (Producer t)"
      using inv by (metis m_has_mutex.simps(1) mpsc_inv_def locks_ok_def)
    then have "\<not> d_has_mutex (dpc s)" using inv by (simp add: mpsc_inv_def locks_ok_def)
    then show ?thesis using m_count by (auto intro: scan_idle)
  next
    case (m_signal t)
    show ?thesis by (rule scan_keep [OF scan]) (use m_signal in \<open>auto simp: ready_slots_def\<close>)
  next
    case (m_unlock t)
    show ?thesis by (rule scan_keep [OF scan]) (use m_unlock in \<open>auto simp: ready_slots_def\<close>)
  next
    case (d_load i)
    then have "rc (mpool s) i \<in> {0, 1, 2}" "i < n" using inv by (auto simp: mpsc_inv_def mslots_ok_def)
    note this(2) two_le_sint [OF this(1)]
    then show ?thesis using scan d_load by (auto simp: scan_ok_def ready_slots_def less_Suc_eq)
  next
    case (d_exhausted i)
    then show ?thesis using scan_finds [OF inv] by simp
  qed (use scan in \<open>simp_all add: scan_ok_def ready_slots_def\<close>)
qed

lemma sleep_keep:
  assumes "sleep_ok s" "p_mp_cond (mpool t) = p_mp_cond (mpool s)" "dpc t = dpc s" "p_mp_pending (mpool t) = p_mp_pending (mpool s)"
    and "\<And>u. mpc s u = MCounted \<Longrightarrow> mpc t u = MCounted"
  shows "sleep_ok t"
  using assms unfolding sleep_ok_def by metis

lemma sleep_step:
  assumes inv: "mpsc_inv n m s" and step: "mpsc_step m s t"
  shows "sleep_ok t"
proof -
  have sleep: "sleep_ok s" using inv by (simp add: mpsc_inv_def)
  show ?thesis using step
  proof cases
    case (m_start u)
    then show ?thesis by (intro sleep_keep [OF sleep]) auto
  next
    case (m_cas u i res p')
    from m_cas(5) show ?thesis
      by (cases rule: cas_acquire_cases) (use m_cas in \<open>auto intro!: sleep_keep [OF sleep]\<close>)
  next
    case (m_full u i)
    then show ?thesis by (intro sleep_keep [OF sleep]) auto
  next
    case (m_mark u i)
    then show ?thesis by (intro sleep_keep [OF sleep]) auto
  next
    case (m_lock u i)
    then show ?thesis by (intro sleep_keep [OF sleep]) auto
  next
    case (m_unlock u)
    then show ?thesis by (intro sleep_keep [OF sleep]) auto
  qed (use sleep in \<open>auto simp: sleep_ok_def\<close>)
qed

interpretation mpsc: inv_machine "mpsc_init (int n)" "mpsc_step m" "mpsc_inv n m" for n m
proof unfold_locales
  fix s assume "mpsc_init (int n) s"
  then have s: "0 < n" "n < 2147483648" "pool_fresh (int n) (mpool s)"
    "\<forall>t. mpc s t = MIdle" "dpc s = DIdle" "mutex s = None" by (simp_all add: mpsc_init_def)
  then have rcs: "\<forall>j<n. rc (mpool s) j = 0" by (simp add: pool_fresh_def)
  then have "ready_slots n s = {}" "held_slots s = {}" "uncounted m s = {}"
    using s by (simp_all add: ready_slots_def held_slots_def uncounted_def)
  moreover from this have "mslots_ok n s" using s rcs by (simp add: mslots_ok_def pool_fresh_def)
  moreover have "locks_ok s" "scan_ok n m s" "sleep_ok s"
    using s by (simp_all add: locks_ok_def scan_ok_def sleep_ok_def pool_fresh_def)
  moreover have "p_mp_pending (mpool s) = word_of_nat 0" using s by (simp add: pool_fresh_def)
  ultimately show "mpsc_inv n m s"
    unfolding mpsc_inv_def pending_ok_def by (intro conjI exI [of _ 0]) simp_all
next
  show "mpsc_inv n m t" if "mpsc_inv n m s" "mpsc_step m s t" for s t
    using slots_step [OF that] locks_step [OF that] pending_step [OF that] scan_step [OF that] sleep_step [OF that]
    unfolding mpsc_inv_def by blast
qed

section \<open>A run of the machine\<close>

definition mdemo_pool :: "int32 \<Rightarrow> int32 \<Rightarrow> int32 \<Rightarrow> bb_frame_pool_t" where
  "mdemo_pool a b k = pool_zero\<lparr>p_count := 2,
     p_frames := [frame_zero\<lparr>f_refcount := a\<rparr>, frame_zero\<lparr>f_refcount := b\<rparr>], p_mp_pending := k\<rparr>"

definition mdemo :: "bb_frame_pool_t \<Rightarrow> mpc \<Rightarrow> dpc \<Rightarrow> thread option \<Rightarrow> mpsc" where
  "mdemo p q d l = \<lparr>mpool = p, mpc = (\<lambda>_. MIdle)(0 := q), dpc = d, mutex = l\<rparr>"

lemma mdemo_scan_reach:
  "reach (mpsc_init 2) (mpsc_step 2) (mdemo (mdemo_pool 2 0 1) MIdle (DScan 0) (Some Consumer))"
proof -
  note defs = mdemo_def mdemo_pool_def pool_zero_def mp_mark_def mp_count_def mp_signal_def cas_acquire_def
    set_frame_def
  let ?p0 = "mdemo_pool 0 0 0" and ?p1 = "mdemo_pool 1 0 0" and ?p2 = "mdemo_pool 2 0 0"
    and ?p3 = "mdemo_pool 2 0 1"
  have "reach (mpsc_init 2) (mpsc_step 2) (mdemo ?p0 MIdle DIdle None)"
    by (rule reach_init) (simp add: mpsc_init_def mdemo_def mdemo_pool_def pool_fresh_def pool_zero_def frame_zero_def)
  moreover have "mpsc_step 2 (mdemo ?p0 MIdle DIdle None) (mdemo ?p0 (MScan 0) DIdle None)"
    using m_start [of 0 2 "mdemo ?p0 MIdle DIdle None"] by (simp add: defs)
  moreover have "mpsc_step 2 (mdemo ?p0 (MScan 0) DIdle None) (mdemo ?p1 (MHold 0) DIdle None)"
    using m_cas [of 0 2 "mdemo ?p0 (MScan 0) DIdle None" 0] by (simp add: defs)
  moreover have "mpsc_step 2 (mdemo ?p1 (MHold 0) DIdle None) (mdemo ?p2 (MMarked 0) DIdle None)"
    using m_mark [of 0 2 "mdemo ?p1 (MHold 0) DIdle None" 0] by (simp add: defs)
  moreover have "mpsc_step 2 (mdemo ?p2 (MMarked 0) DIdle None)
      (mdemo ?p2 (MLocked 0) DIdle (Some (Producer 0)))"
    using m_lock [of 0 2 "mdemo ?p2 (MMarked 0) DIdle None" 0] by (simp add: defs)
  moreover have "mpsc_step 2 (mdemo ?p2 (MLocked 0) DIdle (Some (Producer 0)))
      (mdemo ?p3 MCounted DIdle (Some (Producer 0)))"
    using m_count [of 0 2 "mdemo ?p2 (MLocked 0) DIdle (Some (Producer 0))" 0] by (simp add: defs)
  moreover have "mpsc_step 2 (mdemo ?p3 MCounted DIdle (Some (Producer 0)))
      (mdemo ?p3 MUnlock DIdle (Some (Producer 0)))"
    using m_signal [of 0 2 "mdemo ?p3 MCounted DIdle (Some (Producer 0))"] by (simp add: defs)
  moreover have "mpsc_step 2 (mdemo ?p3 MUnlock DIdle (Some (Producer 0))) (mdemo ?p3 MIdle DIdle None)"
    using m_unlock [of 0 2 "mdemo ?p3 MUnlock DIdle (Some (Producer 0))"] by (simp add: defs)
  moreover have "mpsc_step 2 (mdemo ?p3 MIdle DIdle None) (mdemo ?p3 MIdle DLocked (Some Consumer))"
    using d_lock [of "mdemo ?p3 MIdle DIdle None" 2] by (simp add: defs)
  moreover have "mpsc_step 2 (mdemo ?p3 MIdle DLocked (Some Consumer))
      (mdemo ?p3 MIdle (DScan 0) (Some Consumer))"
    using d_scan [of "mdemo ?p3 MIdle DLocked (Some Consumer)" 2] by (simp add: defs)
  ultimately show ?thesis by (meson reach_step)
qed

lemma mdemo_held_reach:
  "reach (mpsc_init 2) (mpsc_step 2) (mdemo (mdemo_pool 2 1 0) (MHold 1) (DHold 0) None)"
proof -
  note defs = mdemo_def mdemo_pool_def pool_zero_def mp_mark_def mp_count_def mp_signal_def cas_acquire_def
    set_frame_def
  let ?p3 = "mdemo_pool 2 0 1" and ?p4 = "mdemo_pool 2 0 0" and ?p5 = "mdemo_pool 2 1 0"
  have "mpsc_step 2 (mdemo ?p3 MIdle (DScan 0) (Some Consumer))
      (mdemo ?p3 MIdle (DFound 0) (Some Consumer))"
    using d_load [of "mdemo ?p3 MIdle (DScan 0) (Some Consumer)" 0 2] by (simp add: defs)
  moreover have "mpsc_step 2 (mdemo ?p3 MIdle (DFound 0) (Some Consumer))
      (mdemo ?p4 MIdle (DTook 0) (Some Consumer))"
    using d_take [of "mdemo ?p3 MIdle (DFound 0) (Some Consumer)" 0 2] by (simp add: defs)
  moreover have "mpsc_step 2 (mdemo ?p4 MIdle (DTook 0) (Some Consumer)) (mdemo ?p4 MIdle (DHold 0) None)"
    using d_unlock [of "mdemo ?p4 MIdle (DTook 0) (Some Consumer)" 0 2] by (simp add: defs)
  moreover have "mpsc_step 2 (mdemo ?p4 MIdle (DHold 0) None) (mdemo ?p4 (MScan 0) (DHold 0) None)"
    using m_start [of 0 2 "mdemo ?p4 MIdle (DHold 0) None"] by (simp add: defs)
  moreover have "mpsc_step 2 (mdemo ?p4 (MScan 0) (DHold 0) None) (mdemo ?p4 (MScan 1) (DHold 0) None)"
    using m_cas [of 0 2 "mdemo ?p4 (MScan 0) (DHold 0) None" 0] by (simp add: defs)
  moreover have "mpsc_step 2 (mdemo ?p4 (MScan 1) (DHold 0) None) (mdemo ?p5 (MHold 1) (DHold 0) None)"
    using m_cas [of 0 2 "mdemo ?p4 (MScan 1) (DHold 0) None" 1] by (simp add: defs)
  ultimately show ?thesis using mdemo_scan_reach by (meson reach_step)
qed

section \<open>Properties of the mutex-protected path\<close>

text \<open>
  C4. For any number of producers and any interleaving, a scan of bb_pool_mp_dequeue that has begun
  finds a ready frame before it runs off the end of the frame array: the NULL return at its end is
  unreachable, although producers mark their frames outside the mutex.
\<close>

theorem mpsc_dequeue_never_null:
  assumes "reach (mpsc_init (int n)) (mpsc_step m) s"
  shows "dpc s \<noteq> DNone \<and> (dpc s = DScan i \<longrightarrow> in_pool i s)"
proof -
  have inv: "mpsc_inv n m s" by (rule mpsc.reach_inv [OF assms])
  then have "dpc s \<noteq> DNone" by (auto simp: mpsc_inv_def scan_ok_def)
  then show ?thesis using scan_finds [OF inv] by blast
qed

theorem mpsc_dequeue_never_null_witness:
  "\<exists>s :: mpsc. dpc s = DScan 0 \<and> dpc s \<noteq> DNone \<and> in_pool 0 s"
proof -
  let ?s = "mdemo (mdemo_pool 2 0 1) MIdle (DScan 0) (Some Consumer)"
  have "reach (mpsc_init (int 2)) (mpsc_step 2) ?s" using mdemo_scan_reach by simp
  moreover have "dpc ?s = DScan 0" by (simp add: mdemo_def)
  ultimately show ?thesis using mpsc_dequeue_never_null [of 2 2 ?s 0] by blast
qed

text \<open>
  C11. No two producers hold the same frame, and none holds the frame the consumer reads, under every
  interleaving of any number of producers.
\<close>

theorem mpsc_exclusive:
  assumes "reach (mpsc_init (int n)) (mpsc_step m) s" and "mpc s t = MHold i"
  shows "i < n \<and> (mpc s u = MHold i \<longrightarrow> u = t) \<and> dpc s \<noteq> DHold i \<and> dpc s \<noteq> DTook i"
proof -
  have inv: "mpsc_inv n m s" by (rule mpsc.reach_inv [OF assms(1)])
  then have "i < n" "rc (mpool s) i = 1" and "mpc s u = MHold i \<Longrightarrow> u = t"
    using assms(2) by (auto simp: mpsc_inv_def mslots_ok_def)
  moreover from this have "i \<notin> held_slots s"
    using inv by (auto simp: mpsc_inv_def mslots_ok_def ready_slots_def)
  ultimately show ?thesis by (auto simp: held_slots_def)
qed

theorem mpsc_exclusive_witness:
  "\<exists>s :: mpsc. mpc s 0 = MHold 1 \<and> dpc s = DHold 0 \<and> dpc s \<noteq> DHold 1"
proof -
  let ?s = "mdemo (mdemo_pool 2 1 0) (MHold 1) (DHold 0) None"
  have "reach (mpsc_init (int 2)) (mpsc_step 2) ?s" using mdemo_held_reach by simp
  moreover have "mpc ?s 0 = MHold 1" "dpc ?s = DHold 0" by (simp_all add: mdemo_def)
  ultimately show ?thesis using mpsc_exclusive [of 2 2 ?s 0 1 0]
    by (intro exI [of _ ?s]) simp
qed

text \<open>
  The pending counter is exact: with no call in progress it is the number of frames that are
  filled and not yet dequeued, so a consumer is neither put to sleep over a ready frame nor woken
  for none.
\<close>

theorem mpsc_pending_exact:
  assumes "reach (mpsc_init (int n)) (mpsc_step m) s" and "\<forall>t<m. mpc s t = MIdle" and "dpc s = DIdle"
  shows "p_mp_pending (mpool s) = word_of_nat (card {j. j < n \<and> rc (mpool s) j = 2})"
proof -
  have inv: "mpsc_inv n m s" by (rule mpsc.reach_inv [OF assms(1)])
  moreover have "uncounted m s = {}" "held_slots s = {}"
    using assms(2,3) by (auto simp: uncounted_def held_slots_def)
  ultimately show ?thesis by (auto simp: mpsc_inv_def pending_ok_def ready_slots_def)
qed

theorem mpsc_pending_exact_witness:
  "\<exists>s :: mpsc. mpc s 0 = MIdle \<and> p_mp_pending (mpool s) = word_of_nat (card {j. j < 2 \<and> rc (mpool s) j = 2})"
proof -
  let ?s = "mdemo (mdemo_pool 0 0 0) MIdle DIdle None"
  have "reach (mpsc_init (int 2)) (mpsc_step 2) ?s"
    by (rule reach_init) (simp add: mpsc_init_def mdemo_def mdemo_pool_def pool_fresh_def pool_zero_def frame_zero_def)
  moreover have "\<forall>t<2. mpc ?s t = MIdle" "dpc ?s = DIdle" "mpc ?s 0 = MIdle" by (simp_all add: mdemo_def)
  ultimately show ?thesis using mpsc_pending_exact [of 2 2 ?s]
    by (intro exI [of _ ?s]) simp
qed

text \<open>
  The frames do not leave the pool in the order they were enqueued: whichever of two filled
  frames has the lower index is dequeued first. Here the one enqueued last overtakes.
\<close>

theorem mpsc_not_fifo:
  assumes "i < j" and "j < nat (p_count p)" and "length (p_frames p) = nat (p_count p)"
    and "rc p i = 1" and "rc p j = 1" and "\<forall>k<i. sint (rc p k) < 2"
    and "0 \<le> sint (p_mp_pending p)" and "sint (p_mp_pending p) < 1000"
  shows "\<exists>q. bb_pool_mp_dequeue (bb_pool_mp_enqueue i (bb_pool_mp_enqueue j p)) = Some (Some i, q)"
proof -
  let ?q = "bb_pool_mp_enqueue i (bb_pool_mp_enqueue j p)"
  have il: "i < length (p_frames p)" "j < length (p_frames p)" using assms by auto
  have rcs: "rc ?q k = (if k = i \<or> k = j then 2 else rc p k)" for k
    using il assms(1,4,5) by (simp add: bb_pool_mp_enqueue_def mp_mark_def mp_count_def mp_signal_def)
  have len: "length (p_frames ?q) = length (p_frames p)" "p_count ?q = p_count p"
    by (simp_all add: bb_pool_mp_enqueue_def mp_mark_def mp_count_def mp_signal_def)
  have "pool_scan frame_ready ?q = Some i"
    unfolding pool_scan_def
    using assms il len rcs by (intro find_index_SomeI) auto
  moreover have "p_mp_pending ?q = p_mp_pending p + 2"
    by (simp add: bb_pool_mp_enqueue_def mp_mark_def mp_count_def mp_signal_def)
  moreover have "p_mp_pending p + 2 \<noteq> 0"
  proof
    assume "p_mp_pending p + 2 = 0"
    then have "p_mp_pending p = -2" by (simp add: eq_neg_iff_add_eq_0)
    then have "sint (p_mp_pending p) = -2" by simp
    then show False using assms(7) by simp
  qed
  ultimately show ?thesis by (simp add: bb_pool_mp_dequeue_def)
qed

theorem mpsc_not_fifo_witness:
  "\<exists>q. bb_pool_mp_dequeue (bb_pool_mp_enqueue 0 (bb_pool_mp_enqueue 1 (mdemo_pool 1 1 0))) = Some (Some 0, q)"
  by (rule mpsc_not_fifo) (simp_all add: mdemo_pool_def)

text \<open>
  The reference-counting calls take part in the same counter: bb_frame_ref on a frame that was
  only acquired makes bb_pool_mp_dequeue hand it out although it was never enqueued, and a
  release resets the counter whatever references are outstanding.
\<close>

theorem frame_ref_confuses_pool:
  assumes "i < nat (p_count p)" and "length (p_frames p) = nat (p_count p)"
    and "rc p i = 1" and "p_mp_pending p \<noteq> 0" and "\<forall>k<i. sint (rc p k) < 2"
  shows "fst (the (bb_pool_mp_dequeue (bb_frame_ref i p))) = Some i
    \<and> rc (bb_pool_mp_release i (bb_frame_ref i p)) i = 0
    \<and> bb_frame_unref i (bb_frame_ref i p) = p"
proof -
  have il: "i < length (p_frames p)" using assms by simp
  have "pool_scan frame_ready (bb_frame_ref i p) = Some i"
    unfolding pool_scan_def bb_frame_ref_def
    using assms il by (intro find_index_SomeI) auto
  then have "fst (the (bb_pool_mp_dequeue (bb_frame_ref i p))) = Some i"
    using assms(4) by (simp add: bb_pool_mp_dequeue_def bb_frame_ref_def)
  moreover have "rc (bb_pool_mp_release i (bb_frame_ref i p)) i = 0"
    using il by (simp add: bb_frame_ref_def)
  moreover have "bb_frame_unref i (bb_frame_ref i p) = p"
    using il by (simp add: bb_frame_ref_def bb_frame_unref_def set_frame_def)
  ultimately show ?thesis by simp
qed

theorem frame_ref_confuses_pool_witness:
  "fst (the (bb_pool_mp_dequeue (bb_frame_ref 1 (mdemo_pool 0 1 1)))) = Some 1"
  using frame_ref_confuses_pool [of 1 "mdemo_pool 0 1 1"] by (simp add: mdemo_pool_def)

end
