(* ===== verification/BB_CString.thy ===== *)
theory BB_CString
  imports BB_Prelude
begin

text \<open>
  C strings and the library routines the program calls on them, over char lists: the terminating
  NUL, \<open>strchr\<close>, \<open>strstr\<close>, \<open>strncmp\<close> against a literal (the list prefix), the \<open>%s\<close> conversion of
  \<open>sscanf\<close>, decimal printing and \<open>atoi\<close>. A pointer into a string is the index or the suffix it
  points to.
\<close>

section \<open>Bytes\<close>

abbreviation NUL :: char where "NUL \<equiv> CHR 0x00"
abbreviation NL :: char where "NL \<equiv> CHR 0x0A"
abbreviation TAB :: char where "TAB \<equiv> CHR 0x09"
abbreviation QUOTE :: char where "QUOTE \<equiv> CHR 0x22"
abbreviation BACKSLASH :: char where "BACKSLASH \<equiv> CHR 0x5C"

text \<open>The string an array holds: its bytes up to the first NUL.\<close>

definition cstr :: "string \<Rightarrow> string" where
  "cstr b = takeWhile (\<lambda>c. c \<noteq> NUL) b"

lemma cstr_id [simp]: "NUL \<notin> set s \<Longrightarrow> cstr s = s"
  by (auto simp: cstr_def takeWhile_eq_all_conv)

lemma cstr_append_nul [simp]: "NUL \<notin> set s \<Longrightarrow> cstr (s @ NUL # r) = s"
  by (auto simp: cstr_def takeWhile_append)

lemma cstr_no_nul [simp]: "NUL \<notin> set (cstr b)"
  by (auto simp: cstr_def dest: set_takeWhileD)

definition isspace :: "char \<Rightarrow> bool" where
  "isspace c \<longleftrightarrow> c \<in> {CHR '' '', TAB, NL, CHR 0x0B, CHR 0x0C, CHR 0x0D}"

definition isdigit :: "char \<Rightarrow> bool" where
  "isdigit c \<longleftrightarrow> 48 \<le> (of_char c :: nat) \<and> (of_char c :: nat) \<le> 57"

text \<open>A text between double quotes, as the printf formats of the program write it.\<close>

definition quoted :: "string \<Rightarrow> string" where
  "quoted s = [QUOTE] @ s @ [QUOTE]"

section \<open>Searching\<close>

definition strchr :: "string \<Rightarrow> char \<Rightarrow> nat option" where
  "strchr b c = find_index (\<lambda>x. x = c) (cstr b)"

fun strstr :: "string \<Rightarrow> string \<Rightarrow> nat option" where
  "strstr [] n = (if n = [] then Some 0 else None)"
| "strstr (c # s) n = (if prefix n (c # s) then Some 0 else map_option Suc (strstr s n))"

lemma strstr_Some_prefix: "strstr s n = Some i \<Longrightarrow> i \<le> length s \<and> prefix n (drop i s)"
  by (induction s n arbitrary: i rule: strstr.induct) (auto split: if_splits)

text \<open>A result found after n bytes were passed over.\<close>

definition shift :: "nat \<Rightarrow> nat option \<Rightarrow> nat option" where
  "shift n = map_option (\<lambda>i. n + i)"

lemma shift_simps [simp]:
  "shift n None = None" "shift n (Some i) = Some (n + i)" "shift 0 x = x"
  "shift m (shift n x) = shift (m + n) x"
  by (cases x; simp add: shift_def)+

lemma map_Suc_shift: "map_option Suc x = shift 1 x"
  by (cases x) (simp_all add: shift_def)

text \<open>A search for a text that begins with a byte skips whatever does not contain this byte.\<close>

lemma strstr_skip:
  "q \<notin> set xs \<Longrightarrow> strstr (xs @ ys) (q # k) = shift (length xs) (strstr ys (q # k))"
  by (induction xs) (auto simp: map_Suc_shift)

lemma strstr_Cons_no: "\<not> prefix n (c # s) \<Longrightarrow> strstr (c # s) n = shift 1 (strstr s n)"
  by (simp add: map_Suc_shift)

lemma prefix_quoted:
  assumes "q \<notin> set k" "q \<notin> set k'"
  shows "prefix (k @ [q]) (k' @ q # r) \<longleftrightarrow> k = k'"
  using assms
proof (induction k arbitrary: k')
  case Nil
  then show ?case by (cases k') auto
next
  case (Cons x k)
  then show ?case by (cases k') auto
qed

section \<open>Scanning\<close>

text \<open>\<open>%ws\<close>: skip white space, read up to w bytes of anything else; fail on nothing.\<close>

definition scan_word :: "nat \<Rightarrow> string \<Rightarrow> (string \<times> string) option" where
  "scan_word w s =
    (let t = dropWhile isspace s; tok = take w (takeWhile (\<lambda>c. \<not> isspace c) t)
     in if tok = [] then None else Some (tok, drop (length tok) t))"

definition skip_space :: "string \<Rightarrow> string" where
  "skip_space s = dropWhile isspace s"

lemma scan_word_exact:
  assumes "t \<noteq> []" "\<forall>c \<in> set t. \<not> isspace c" "length t \<le> w" "r = [] \<or> isspace (hd r)"
  shows "scan_word w (t @ r) = Some (t, r)"
proof -
  have "dropWhile isspace (t @ r) = t @ r" using assms by (cases t) auto
  moreover have "takeWhile (\<lambda>c. \<not> isspace c) (t @ r) = t"
    using assms by (cases r) (auto simp: takeWhile_append takeWhile_eq_all_conv)
  ultimately show ?thesis using assms(1,3) by (cases t) (simp_all add: scan_word_def)
qed

lemma scan_word_space [simp]: "isspace c \<Longrightarrow> scan_word w (c # s) = scan_word w s"
  by (simp add: scan_word_def)

lemma scan_word_SomeD:
  "scan_word w s = Some (t, r) \<Longrightarrow> t \<noteq> [] \<and> length t \<le> w \<and> (\<forall>c \<in> set t. \<not> isspace c)"
  by (auto simp: scan_word_def Let_def split: if_splits dest!: in_set_takeD set_takeWhileD)

section \<open>Decimal numbers\<close>

definition digit_char :: "nat \<Rightarrow> char" where
  "digit_char d = char_of (48 + d)"

definition digit_val :: "char \<Rightarrow> nat" where
  "digit_val c = of_char c - 48"

fun dec_nat :: "nat \<Rightarrow> string" where
  "dec_nat n = (if n < 10 then [digit_char n] else dec_nat (n div 10) @ [digit_char (n mod 10)])"

declare dec_nat.simps [simp del]

definition dec_int :: "int \<Rightarrow> string" where
  "dec_int i = (if i < 0 then CHR ''-'' # dec_nat (nat (- i)) else dec_nat (nat i))"

fun digits_val :: "nat \<Rightarrow> string \<Rightarrow> nat" where
  "digits_val a [] = a"
| "digits_val a (c # cs) = (if isdigit c then digits_val (10 * a + digit_val c) cs else a)"

text \<open>
  \<open>atoi\<close>: white space, an optional sign, digits; undefined when the value does not fit an int.
\<close>

definition atoi :: "string \<Rightarrow> int cres" where
  "atoi s =
    (let t = skip_space s;
         v = (if t \<noteq> [] \<and> hd t = CHR ''-'' then - int (digits_val 0 (tl t))
              else if t \<noteq> [] \<and> hd t = CHR ''+'' then int (digits_val 0 (tl t))
              else int (digits_val 0 t))
     in if in_int32 v then Inr v else Inl SignedOverflow)"

lemma isdigit_plain:
  "isdigit c \<Longrightarrow> \<not> isspace c"
  "isdigit c \<Longrightarrow> c \<notin> {CHR ''-'', CHR ''+'', QUOTE, BACKSLASH, NUL, NL, CHR '','', CHR '':'', CHR '' ''}"
  by (auto simp: isdigit_def isspace_def)

lemma of_char_digit_char: "d < 10 \<Longrightarrow> (of_char (digit_char d) :: nat) = 48 + d"
  by (simp add: digit_char_def)

lemma digit_char_props [simp]:
  assumes "d < 10"
  shows "isdigit (digit_char d)" "digit_val (digit_char d) = d" "\<not> isspace (digit_char d)"
    "digit_char d \<notin> {CHR ''-'', CHR ''+'', QUOTE, BACKSLASH, NUL, NL, CHR '','', CHR '':'', CHR '' ''}"
proof -
  show d: "isdigit (digit_char d)" "digit_val (digit_char d) = d"
    using assms by (simp_all add: isdigit_def digit_val_def of_char_digit_char)
  show "\<not> isspace (digit_char d)" by (rule isdigit_plain(1) [OF d(1)])
  show "digit_char d \<notin> {CHR ''-'', CHR ''+'', QUOTE, BACKSLASH, NUL, NL, CHR '','', CHR '':'', CHR '' ''}"
    by (rule isdigit_plain(2) [OF d(1)])
qed

lemma digits_val_append:
  "\<forall>c \<in> set xs. isdigit c \<Longrightarrow> digits_val a (xs @ ys) = digits_val (digits_val a xs) ys"
  by (induction xs arbitrary: a) auto

lemma dec_nat_digits: "c \<in> set (dec_nat n) \<Longrightarrow> \<exists>d<10. c = digit_char d"
proof (induction n rule: dec_nat.induct)
  case (1 n)
  show ?case
  proof (cases "n < 10")
    case True
    then show ?thesis using 1(2) by (subst (asm) dec_nat.simps) auto
  next
    case False
    then have "c \<in> set (dec_nat (n div 10)) \<or> c = digit_char (n mod 10)"
      using 1(2) by (subst (asm) dec_nat.simps) auto
    moreover have "n mod 10 < 10" by simp
    ultimately show ?thesis using 1(1) [OF False] by blast
  qed
qed

lemma dec_nat_isdigit: "c \<in> set (dec_nat n) \<Longrightarrow> isdigit c"
  using dec_nat_digits by force

lemma dec_nat_ne [simp]: "dec_nat n \<noteq> []"
  by (subst dec_nat.simps) simp

lemma digits_val_dec_nat [simp]: "digits_val 0 (dec_nat n) = n"
proof (induction n rule: dec_nat.induct)
  case (1 n)
  show ?case
  proof (cases "n < 10")
    case True
    then show ?thesis by (subst dec_nat.simps) simp
  next
    case False
    then have "digits_val 0 (dec_nat (n div 10)) = n div 10" by (rule 1)
    then show ?thesis using False
      by (subst dec_nat.simps) (simp add: digits_val_append dec_nat_isdigit)
  qed
qed

lemma digits_val_stop: "r = [] \<or> \<not> isdigit (hd r) \<Longrightarrow> digits_val a r = a"
  by (cases r) auto

lemma dec_nat_hd: "hd (dec_nat n) \<in> set (dec_nat n)"
  by simp

text \<open>Reading back what \<open>%d\<close> printed, whatever non-digit follows it.\<close>

lemma atoi_dec_int:
  assumes "in_int32 i" "r = [] \<or> \<not> isdigit (hd r)"
  shows "atoi (dec_int i @ r) = Inr i"
proof -
  have val: "digits_val 0 (dec_nat n @ r) = n" for n
    using assms(2) by (simp add: digits_val_append dec_nat_isdigit digits_val_stop)
  have hd: "\<not> isspace (hd (dec_nat n))" "hd (dec_nat n) \<noteq> CHR ''-''" "hd (dec_nat n) \<noteq> CHR ''+''" for n
    using isdigit_plain [OF dec_nat_isdigit [OF dec_nat_hd [of n]]] by simp_all
  show ?thesis
  proof (cases "i < 0")
    case True
    have "skip_space (CHR ''-'' # dec_nat (nat (- i)) @ r) = CHR ''-'' # dec_nat (nat (- i)) @ r"
      by (simp add: skip_space_def isspace_def)
    then show ?thesis using True assms val [of "nat (- i)"] by (simp add: atoi_def dec_int_def)
  next
    case False
    have "skip_space (dec_nat (nat i) @ r) = dec_nat (nat i) @ r"
      using hd [of "nat i"] by (cases "dec_nat (nat i)") (auto simp: skip_space_def)
    then show ?thesis using False assms val [of "nat i"] hd [of "nat i"]
      by (simp add: atoi_def dec_int_def)
  qed
qed

lemma dec_int_chars:
  "c \<in> set (dec_int i) \<Longrightarrow> c = CHR ''-'' \<or> isdigit c"
  by (auto simp: dec_int_def dec_nat_isdigit split: if_splits)

lemma dec_int_plain [simp]:
  "QUOTE \<notin> set (dec_int i)" "NUL \<notin> set (dec_int i)" "NL \<notin> set (dec_int i)" "CHR '','' \<notin> set (dec_int i)"
  using dec_int_chars [of _ i] isdigit_plain(2) by force+

text \<open>How long a printed number is.\<close>

lemma dec_nat_length: "n < 10 ^ k \<Longrightarrow> 0 < k \<Longrightarrow> length (dec_nat n) \<le> k"
proof (induction k arbitrary: n)
  case (Suc k)
  show ?case
  proof (cases "n < 10")
    case True
    then show ?thesis by (subst dec_nat.simps) simp
  next
    case False
    then have "0 < k" using Suc.prems by (cases k) auto
    moreover have "n div 10 < 10 ^ k" using Suc.prems(1) by (simp add: less_mult_imp_div_less)
    ultimately have "length (dec_nat (n div 10)) \<le> k" using Suc.IH by simp
    then show ?thesis using False by (subst dec_nat.simps) simp
  qed
qed simp

lemma dec_int_length: "in_int32 i \<Longrightarrow> length (dec_int i) \<le> 11"
proof -
  assume i: "in_int32 i"
  then have "nat (- i) < 10 ^ 10" "nat i < 10 ^ 10" by (auto simp: in_int32_def)
  then have "length (dec_nat (nat (- i))) \<le> 10" "length (dec_nat (nat i)) \<le> 10"
    using dec_nat_length [of "nat (- i)" 10] dec_nat_length [of "nat i" 10] by simp_all
  then show ?thesis by (simp add: dec_int_def)
qed

lemma dec_nat_plain [simp]:
  "QUOTE \<notin> set (dec_nat n)" "NUL \<notin> set (dec_nat n)" "NL \<notin> set (dec_nat n)" "CHR '','' \<notin> set (dec_nat n)"
  using dec_nat_isdigit isdigit_plain(2) by blast+

end
