(* ===== verification/BB_Framing.thy ===== *)
theory BB_Framing
  imports BB_CString
begin

text \<open>
  The receive loop that the daemon, the bus client and the command line tool each contain: received
  bytes are appended to a fixed buffer, complete lines are cut off and the rest is moved to the
  front. The interface states what a receiver does with a stream however it is segmented.
\<close>

section \<open>Cutting lines off a buffer\<close>

text \<open>
  \<open>while ((nl = strchr(start, '\n')) != NULL)\<close>: the complete lines and the rest. A NUL byte in
  the buffer stops strchr, so the bytes after it stay in the rest.
\<close>

function split_lines :: "string \<Rightarrow> string list \<times> string" where
  "split_lines b =
    (case strchr b NL of None \<Rightarrow> ([], b)
     | Some i \<Rightarrow> let (ls, r) = split_lines (drop (Suc i) b) in (take i b # ls, r))"
  by pat_completeness auto

lemma cstr_prefix: "prefix (cstr b) b"
  unfolding cstr_def by (metis prefixI takeWhile_dropWhile_id)

lemma length_cstr: "length (cstr b) \<le> length b"
  using cstr_prefix prefix_length_le by blast

lemma strchr_SomeD:
  assumes "strchr b c = Some i"
  shows "i < length b" "b ! i = c" "c \<notin> set (take i b)"
proof -
  have i: "i < length (cstr b)" "cstr b ! i = c" "\<forall>j<i. cstr b ! j \<noteq> c"
    using find_index_SomeD [OF assms [unfolded strchr_def]] by auto
  have nth: "b ! j = cstr b ! j" if "j < length (cstr b)" for j
    using takeWhile_nth [of j "\<lambda>c. c \<noteq> NUL" b] that unfolding cstr_def by presburger
  show "i < length b" using i(1) length_cstr [of b] by simp
  show "b ! i = c" using nth [OF i(1)] i(2) by simp
  show "c \<notin> set (take i b)"
  proof
    assume "c \<in> set (take i b)"
    then obtain j where "j < i" "b ! j = c" by (auto simp: in_set_conv_nth)
    moreover from this nth [of j] i have "b ! j \<noteq> c" by simp
    ultimately show False by blast
  qed
qed

termination split_lines
  by (relation "measure length") (auto dest: strchr_SomeD(1))

declare split_lines.simps [simp del]

lemma strchr_None: "NUL \<notin> set b \<Longrightarrow> strchr b c = None \<longleftrightarrow> c \<notin> set b"
  by (auto simp: strchr_def)

lemma split_lines_none: "strchr b NL = None \<Longrightarrow> split_lines b = ([], b)"
  by (subst split_lines.simps) simp

lemma split_lines_some:
  "strchr b NL = Some i \<Longrightarrow> split_lines b =
    (take i b # fst (split_lines (drop (Suc i) b)), snd (split_lines (drop (Suc i) b)))"
  by (subst split_lines.simps) (simp add: case_prod_beta)

lemma split_lines_length: "length (snd (split_lines b)) \<le> length b"
proof (induction b rule: split_lines.induct)
  case (1 b)
  show ?case
  proof (cases "strchr b NL")
    case None
    then show ?thesis by (simp add: split_lines_none)
  next
    case (Some i)
    then have "length (snd (split_lines (drop (Suc i) b))) \<le> length (drop (Suc i) b)" by (rule 1)
    then have "length (snd (split_lines (drop (Suc i) b))) \<le> length b" by simp
    then show ?thesis using Some by (simp add: split_lines_some)
  qed
qed

section \<open>The stream a receiver sees\<close>

text \<open>Byte by byte: the line being collected and the complete lines, oldest first.\<close>

fun feed :: "string list \<times> string \<Rightarrow> char \<Rightarrow> string list \<times> string" where
  "feed (ls, cur) c = (if c = NL then (ls @ [cur], []) else (ls, cur @ [c]))"

definition feed_all :: "string list \<times> string \<Rightarrow> string \<Rightarrow> string list \<times> string" where
  "feed_all st bs = foldl feed st bs"

lemma feed_all_append: "feed_all st (xs @ ys) = feed_all (feed_all st xs) ys"
  by (simp add: feed_all_def)

lemma feed_all_nonl: "NL \<notin> set xs \<Longrightarrow> feed_all (ls, cur) xs = (ls, cur @ xs)"
  by (induction xs arbitrary: cur) (auto simp: feed_all_def)

lemma feed_all_lines:
  "feed_all (ls, cur) bs = (ls @ fst (feed_all ([], cur) bs), snd (feed_all ([], cur) bs))"
proof (induction bs arbitrary: ls cur)
  case Nil
  show ?case by (simp add: feed_all_def)
next
  case (Cons c bs)
  show ?case using Cons [of "ls @ [cur]" "[]"] Cons [of "[cur]" "[]"] Cons [of ls "cur @ [c]"]
    by (simp add: feed_all_def)
qed

lemma split_lines_feed:
  "NUL \<notin> set b \<Longrightarrow> split_lines b = feed_all ([], []) b"
proof (induction b rule: split_lines.induct)
  case (1 b)
  show ?case
  proof (cases "strchr b NL")
    case None
    then have "NL \<notin> set b" using 1(2) by (simp add: strchr_None)
    then show ?thesis using None by (simp add: split_lines_none feed_all_nonl)
  next
    case (Some i)
    note d = strchr_SomeD [OF Some]
    have b: "b = take i b @ NL # drop (Suc i) b" using d(1,2) by (metis id_take_nth_drop)
    have "NUL \<notin> set (drop (Suc i) b)" using 1(2) by (auto dest: in_set_dropD)
    then have rest: "split_lines (drop (Suc i) b) = feed_all ([], []) (drop (Suc i) b)"
      by (rule 1(1) [OF Some])
    have "feed_all ([], []) b = feed_all (feed_all ([], []) (take i b)) (NL # drop (Suc i) b)"
      by (subst b) (rule feed_all_append)
    also have "feed_all ([], []) (take i b) = ([], take i b)" using d(3) by (simp add: feed_all_nonl)
    also have "feed_all ([], take i b) (NL # drop (Suc i) b) = feed_all ([take i b], []) (drop (Suc i) b)"
      by (simp add: feed_all_def)
    also have "\<dots> = (take i b # fst (feed_all ([], []) (drop (Suc i) b)), snd (feed_all ([], []) (drop (Suc i) b)))"
      by (subst feed_all_lines) simp
    finally show ?thesis using rest by (simp add: split_lines_some [OF Some])
  qed
qed

lemma split_lines_rest_nonl: "NUL \<notin> set b \<Longrightarrow> NL \<notin> set (snd (split_lines b)) \<and> NUL \<notin> set (snd (split_lines b))"
proof (induction b rule: split_lines.induct)
  case (1 b)
  show ?case
  proof (cases "strchr b NL")
    case None
    then show ?thesis using 1(2) by (simp add: split_lines_none strchr_None)
  next
    case (Some i)
    have "NUL \<notin> set (drop (Suc i) b)" using 1(2) by (auto dest: in_set_dropD)
    from 1(1) [OF Some this] Some show ?thesis by (simp add: split_lines_some)
  qed
qed

section \<open>Receivers\<close>

text \<open>
  The segments a recv loop over a buffer of cap bytes can return: nonempty and no longer than the
  room left.
\<close>

fun rx_fits :: "nat \<Rightarrow> string \<Rightarrow> string list \<Rightarrow> bool" where
  "rx_fits cap buf [] = True"
| "rx_fits cap buf (c # cs) = (c \<noteq> [] \<and> length buf + length c \<le> cap \<and> NUL \<notin> set c
    \<and> rx_fits cap (snd (split_lines (buf @ c))) cs)"

text \<open>
  A receiver takes the bytes of one \<open>recv\<close> into its buffer of at most cap bytes and reports the
  messages of the lines that became complete.
\<close>

locale line_receiver =
  fixes take_bytes :: "string \<Rightarrow> string \<Rightarrow> string \<times> 'm list"
    and cap :: nat
    and msgs :: "string \<Rightarrow> 'm list"
  assumes take_bytes_split: "length buf + length bs \<le> cap \<Longrightarrow> bs \<noteq> [] \<Longrightarrow>
    take_bytes buf bs = (snd (split_lines (buf @ bs)), concat (map msgs (fst (split_lines (buf @ bs)))))"
begin

fun receive :: "string \<Rightarrow> string list \<Rightarrow> string \<times> 'm list" where
  "receive buf [] = (buf, [])"
| "receive buf (c # cs) =
    (let (buf1, ms) = take_bytes buf c; (buf2, ms') = receive buf1 cs in (buf2, ms @ ms'))"

lemma receive_stream:
  assumes "rx_fits cap buf cs" "NUL \<notin> set buf" "NL \<notin> set buf"
  shows "receive buf cs = (snd (feed_all ([], buf) (concat cs)),
    concat (map msgs (fst (feed_all ([], buf) (concat cs)))))"
  using assms
proof (induction cs arbitrary: buf)
  case Nil
  show ?case by (simp add: feed_all_def)
next
  case (Cons c cs)
  let ?r = "snd (split_lines (buf @ c))" and ?l = "fst (split_lines (buf @ c))"
  have nul: "NUL \<notin> set (buf @ c)" using Cons.prems by auto
  have fa: "feed_all ([], buf) c = (?l, ?r)"
    using split_lines_feed [OF nul] Cons.prems(3) by (simp add: feed_all_append feed_all_nonl)
  have fits: "rx_fits cap ?r cs" using Cons.prems(1) by simp
  have "NUL \<notin> set ?r" "NL \<notin> set ?r" using split_lines_rest_nonl [OF nul] by simp_all
  note IH = Cons.IH [OF fits this]
  have "feed_all ([], buf) (concat (c # cs)) = feed_all (?l, ?r) (concat cs)"
    by (simp add: feed_all_append fa)
  also have "\<dots> = (?l @ fst (feed_all ([], ?r) (concat cs)), snd (feed_all ([], ?r) (concat cs)))"
    by (rule feed_all_lines)
  finally show ?case
    using Cons.prems(1) take_bytes_split [of buf c] IH by (simp add: Let_def case_prod_beta)
qed

text \<open>Segmentation does not matter: two segmentations of one stream give the same messages.\<close>

lemma receive_segmentation:
  assumes "rx_fits cap [] cs" "rx_fits cap [] ds" "concat cs = concat ds"
  shows "receive [] cs = receive [] ds"
  using receive_stream [OF assms(1)] receive_stream [OF assms(2)] assms(3) by simp

end

end
