(* ===== verification/BB_Bus.thy ===== *)
theory BB_Bus
  imports BB_Framing
begin

text \<open>
  The bus client library \<open>libbb/bb_bus.c\<close>: connection, the commands it sends and the poll that
  collects received bytes in a static buffer and hands publications to the handler. The results of
  the socket calls are arguments.
\<close>

section \<open>Connection\<close>

record bb_bus_t =
  b_fd :: int
  b_path :: string
  b_handler :: bool

definition BB_MAX_LINE :: nat where "BB_MAX_LINE = 128 + 4096 + 64"

text \<open>
  \<open>snprintf\<close> into an array of n bytes keeps n - 1; \<open>strncpy\<close> into a zeroed array does the same.
\<close>

definition fit :: "nat \<Rightarrow> string \<Rightarrow> string" where
  "fit n s = take (n - 1) s"

lemma fit_short: "length s < n \<Longrightarrow> fit n s = s"
  by (simp add: fit_def)

text \<open>The result carries the return code and the descriptors closed on the way.\<close>

definition bb_bus_connect :: "string \<Rightarrow> int \<Rightarrow> int \<Rightarrow> int \<times> bb_bus_t \<times> int list" where
  "bb_bus_connect path sock conn =
    (let bus = \<lparr>b_fd = sock, b_path = fit 128 path, b_handler = False\<rparr> in
     if sock < 0 then (-1, bus, [])
     else if conn < 0 then (-1, bus\<lparr>b_fd := -1\<rparr>, [sock])
     else (0, bus, []))"

definition bb_bus_set_handler :: "bool \<Rightarrow> bb_bus_t \<Rightarrow> bb_bus_t" where
  "bb_bus_set_handler h bus = bus\<lparr>b_handler := h\<rparr>"

definition bb_bus_close :: "bb_bus_t \<Rightarrow> bb_bus_t \<times> int list" where
  "bb_bus_close bus = (if b_fd bus \<ge> 0 then (bus\<lparr>b_fd := -1\<rparr>, [b_fd bus]) else (bus, []))"

section \<open>Commands\<close>

text \<open>\<open>tx\<close> is the result of send for a message; the second component lists what was passed to it.\<close>

definition send_line :: "(string \<Rightarrow> int) \<Rightarrow> bb_bus_t \<Rightarrow> string \<Rightarrow> int \<times> string list" where
  "send_line tx bus line =
    (if b_fd bus < 0 then (-1, [])
     else (if tx (line @ [NL]) > 0 then 0 else -1, [line @ [NL]]))"

definition bb_bus_publish :: "(string \<Rightarrow> int) \<Rightarrow> bb_bus_t \<Rightarrow> string \<Rightarrow> string \<Rightarrow> int \<times> string list" where
  "bb_bus_publish tx bus topic payload =
    send_line tx bus (fit BB_MAX_LINE (''PUB '' @ topic @ '' '' @ payload))"

definition bb_bus_subscribe :: "(string \<Rightarrow> int) \<Rightarrow> bb_bus_t \<Rightarrow> string \<Rightarrow> int \<times> string list" where
  "bb_bus_subscribe tx bus topic = send_line tx bus (fit BB_MAX_LINE (''SUB '' @ topic))"

definition bb_bus_unsubscribe :: "(string \<Rightarrow> int) \<Rightarrow> bb_bus_t \<Rightarrow> string \<Rightarrow> int \<times> string list" where
  "bb_bus_unsubscribe tx bus topic = send_line tx bus (fit BB_MAX_LINE (''UNSUB '' @ topic))"

text \<open>The answer to a ping is one recv of at most 63 bytes, compared on its first four.\<close>

definition bb_bus_ping :: "(string \<Rightarrow> int) \<Rightarrow> (nat \<Rightarrow> string) \<Rightarrow> bb_bus_t \<Rightarrow> int \<times> string list" where
  "bb_bus_ping tx rcv bus =
    (let (r, out) = send_line tx bus ''PING'' in
     if r < 0 then (-1, out)
     else let bs = rcv 63 in
       if bs \<noteq> [] \<and> prefix ''PONG'' (cstr bs) then (0, out) else (-1, out))"

section \<open>Polling\<close>

text \<open>A line \<open>PUB <topic> <payload>\<close> is a message, any other line is dropped.\<close>

definition line_msgs :: "bool \<Rightarrow> string \<Rightarrow> (string \<times> string) list" where
  "line_msgs handler line =
    (if prefix ''PUB '' line then
       (let topic = drop 4 line in
        case strchr topic (CHR '' '') of
          None \<Rightarrow> []
        | Some i \<Rightarrow> if handler then [(take i topic, drop (Suc i) topic)] else [])
     else [])"

definition bus_bytes :: "bool \<Rightarrow> string \<Rightarrow> string \<Rightarrow> string \<times> (string \<times> string) list" where
  "bus_bytes handler buf bs =
    (let (ls, r) = split_lines (buf @ bs) in (r, concat (map (line_msgs handler) ls)))"

text \<open>
  \<open>sel\<close> is the result of select and \<open>rcv n\<close> what recv delivers for a request of n bytes, empty for
  end of file or an error. The static buffer is passed in and out; the last component lists the
  handler calls.
\<close>

definition bb_bus_poll :: "int \<Rightarrow> (nat \<Rightarrow> string) \<Rightarrow> bb_bus_t \<Rightarrow> string \<Rightarrow> int \<times> string \<times> (string \<times> string) list" where
  "bb_bus_poll sel rcv bus buf =
    (if b_fd bus < 0 then (-1, buf, [])
     else if sel \<le> 0 then (sel, buf, [])
     else let bs = rcv (BB_MAX_LINE - 1 - length buf) in
       if bs = [] then (-1, buf, [])
       else let (buf', ms) = bus_bytes (b_handler bus) buf bs in (0, buf', ms))"

interpretation bus_rx: line_receiver "bus_bytes h" "BB_MAX_LINE - 1" "line_msgs h" for h
proof unfold_locales
  show "bus_bytes h buf bs = (snd (split_lines (buf @ bs)), concat (map (line_msgs h) (fst (split_lines (buf @ bs)))))"
    for buf bs by (simp add: bus_bytes_def case_prod_beta)
qed

text \<open>A loop of successful polls over a sequence of received segments.\<close>

fun poll_all :: "bb_bus_t \<Rightarrow> string \<Rightarrow> string list \<Rightarrow> string \<times> (string \<times> string) list" where
  "poll_all bus buf [] = (buf, [])"
| "poll_all bus buf (c # cs) =
    (let (_, buf1, ms) = bb_bus_poll 1 (\<lambda>_. c) bus buf; (buf2, ms') = poll_all bus buf1 cs in (buf2, ms @ ms'))"

lemma poll_all_receive:
  "0 \<le> b_fd bus \<Longrightarrow> \<forall>c \<in> set cs. c \<noteq> [] \<Longrightarrow> poll_all bus buf cs = bus_rx.receive (b_handler bus) buf cs"
proof (induction cs arbitrary: buf)
  case (Cons c cs)
  obtain b1 ms where bb: "bus_bytes (b_handler bus) buf c = (b1, ms)" by fastforce
  then have "bb_bus_poll 1 (\<lambda>_. c) bus buf = (0, b1, ms)" using Cons.prems by (simp add: bb_bus_poll_def)
  then show ?case using Cons bb by simp
qed simp

lemma fits_nonempty: "rx_fits cap buf cs \<Longrightarrow> \<forall>c \<in> set cs. c \<noteq> []"
  by (induction cs arbitrary: buf) auto

text \<open>The text of complete lines.\<close>

definition lines_text :: "string list \<Rightarrow> string" where
  "lines_text ls = concat (map (\<lambda>l. l @ [NL]) ls)"

lemma feed_lines_text:
  "\<forall>l \<in> set ls. NL \<notin> set l \<Longrightarrow> NL \<notin> set r \<Longrightarrow> feed_all ([], []) (lines_text ls @ r) = (ls, r)"
proof (induction ls)
  case Nil
  then show ?case by (simp add: lines_text_def feed_all_nonl)
next
  case (Cons l ls)
  have "feed_all ([], []) (lines_text (l # ls) @ r) = feed_all (feed_all ([], []) l) (NL # lines_text ls @ r)"
    by (simp add: lines_text_def feed_all_append)
  also have "feed_all ([], []) l = ([], l)" using Cons.prems by (simp add: feed_all_nonl)
  also have "feed_all ([], l) (NL # lines_text ls @ r) = feed_all ([l], []) (lines_text ls @ r)"
    by (simp add: feed_all_def)
  also have "\<dots> = ([l] @ ls, r)" using Cons by (subst feed_all_lines) simp
  finally show ?case by simp
qed

text \<open>
  C23. Whatever segments the socket delivers a stream of complete lines in, the handler is called with
  exactly the publications among them, in order, and the buffer ends up empty.
\<close>

theorem bus_poll_stream:
  assumes "0 \<le> b_fd bus" and "concat cs = lines_text ls" and "\<forall>l \<in> set ls. NL \<notin> set l"
    and "rx_fits (BB_MAX_LINE - 1) [] cs"
  shows "poll_all bus [] cs = ([], concat (map (line_msgs (b_handler bus)) ls))"
proof -
  have "poll_all bus [] cs = bus_rx.receive (b_handler bus) [] cs"
    by (rule poll_all_receive [OF assms(1) fits_nonempty [OF assms(4)]])
  also have "\<dots> = (snd (feed_all ([], []) (concat cs)),
      concat (map (line_msgs (b_handler bus)) (fst (feed_all ([], []) (concat cs)))))"
    by (rule bus_rx.receive_stream [OF assms(4)]) simp_all
  also have "feed_all ([], []) (concat cs) = (ls, [])"
    using feed_lines_text [OF assms(3), of "[]"] assms(2) by simp
  finally show ?thesis by simp
qed

definition demo_bus :: bb_bus_t where
  "demo_bus = \<lparr>b_fd = 4, b_path = ''/run/bb-bus.sock'', b_handler = True\<rparr>"

theorem bus_poll_stream_witness:
  "poll_all demo_bus [] [''PUB a'', ''/b 1'' @ [NL] @ ''PU'', ''B c 2'' @ [NL]] = ([], [(''a/b'', ''1''), (''c'', ''2'')])"
proof -
  have "poll_all demo_bus [] [''PUB a'', ''/b 1'' @ [NL] @ ''PU'', ''B c 2'' @ [NL]]
    = ([], concat (map (line_msgs (b_handler demo_bus)) [''PUB a/b 1'', ''PUB c 2'']))"
    by (rule bus_poll_stream)
      (simp_all add: demo_bus_def lines_text_def BB_MAX_LINE_def split_lines.simps strchr_def cstr_def)
  also have "concat (map (line_msgs (b_handler demo_bus)) [''PUB a/b 1'', ''PUB c 2''])
    = [(''a/b'', ''1''), (''c'', ''2'')]"
    by (simp add: demo_bus_def line_msgs_def strchr_def cstr_def)
  finally show ?thesis .
qed

text \<open>
  A line that does not fit the static buffer stalls the client for good: with the buffer full and no
  newline in it, recv is asked for 0 bytes and returns 0, every later poll fails and the buffer
  never changes. The daemon forwards lines of up to 8191 bytes, the buffer holds 4287.
\<close>

theorem bus_poll_stuck:
  assumes "length buf = 4287" and "\<forall>n. length (rcv n) \<le> n" and "0 \<le> b_fd bus" and "0 < sel"
  shows "bb_bus_poll sel rcv bus buf = (-1, buf, [])"
proof -
  have "BB_MAX_LINE - 1 - length buf = 0" using assms(1) by (simp add: BB_MAX_LINE_def)
  then have "rcv (BB_MAX_LINE - 1 - length buf) = []" using assms(2) by (metis le_zero_eq length_0_conv)
  then show ?thesis using assms(3,4) by (simp add: bb_bus_poll_def)
qed

theorem bus_poll_stuck_witness:
  "bb_bus_poll 1 (\<lambda>n. take n ''more'') demo_bus (replicate 4287 (CHR ''x'')) = (-1, replicate 4287 (CHR ''x''), [])"
  by (rule bus_poll_stuck) (simp_all add: demo_bus_def)

end
