(* ===== verification/BB_Busd.thy ===== *)
theory BB_Busd
  imports BB_Framing "HOL-Library.Multiset"
begin

text \<open>
  The message bus daemon \<open>services/bb-busd.c\<close>: the subscription table, the line protocol, the
  client array and one iteration of the event loop. The kernel enters as arguments: the descriptor
  that accept returned, what recv delivered for a descriptor and a length, and the event epoll
  reported with the data word the daemon registered.
\<close>

section \<open>State\<close>

record sub_t =
  s_topic :: string
  s_ids :: "int list"

record client_t =
  c_fd :: int
  c_buf :: string

text \<open>
  The client array always has its 64 slots, in use or stale. \<open>regs\<close> are the epoll registrations
  (descriptor to data word), \<open>sends\<close> the datagrams sent, newest last.
\<close>

record busd =
  clients :: "client_t list"
  num_clients :: int
  subs :: "sub_t list"
  regs :: "int \<Rightarrow> int option"
  sends :: "(int \<times> string) list"
  closed :: "int list"

definition max_clients :: nat where "max_clients = 64"
definition max_subs :: nat where "max_subs = 256"
definition buf_size :: nat where "buf_size = 8192"

section \<open>The protocol\<close>

definition find_sub :: "string \<Rightarrow> sub_t list \<Rightarrow> nat option" where
  "find_sub topic ss = find_index (\<lambda>u. s_topic u = topic) ss"

definition topic_match :: "string \<Rightarrow> string \<Rightarrow> bool" where
  "topic_match pat topic \<longleftrightarrow> pat = topic \<or> (pat \<noteq> [] \<and> last pat = CHR ''#'' \<and> prefix (butlast pat) topic)"

definition pub_line :: "string \<Rightarrow> string \<Rightarrow> string" where
  "pub_line topic payload = ''PUB '' @ topic @ '' '' @ payload"

definition publish :: "string \<Rightarrow> string \<Rightarrow> int \<Rightarrow> busd \<Rightarrow> busd" where
  "publish topic payload sender s =
    (let msg = pub_line topic payload @ [NL] in
     if length msg \<ge> buf_size then s
     else s\<lparr>sends := sends s @ concat (map (\<lambda>u.
       if topic_match (s_topic u) topic
       then map (\<lambda>c. (c, msg)) (filter (\<lambda>c. c \<noteq> sender) (s_ids u)) else []) (subs s))\<rparr>)"

text \<open>
  The topic array of a fresh entry holds at most 127 bytes of the name. The membership test and the
  append of SUB, and the first-match swap-with-last of UNSUB.
\<close>

definition sub_slot :: "string \<Rightarrow> sub_t list \<Rightarrow> nat option \<times> sub_t list" where
  "sub_slot topic ss =
    (case find_sub topic ss of
       Some i \<Rightarrow> (Some i, ss)
     | None \<Rightarrow> if length ss < max_subs
         then (Some (length ss), ss @ [\<lparr>s_topic = take 127 topic, s_ids = []\<rparr>]) else (None, ss))"

definition join_ids :: "int \<Rightarrow> int list \<Rightarrow> int list" where
  "join_ids fd ids = (if length ids < max_clients \<and> fd \<notin> set ids then ids @ [fd] else ids)"

definition do_sub :: "int \<Rightarrow> string \<Rightarrow> sub_t list \<Rightarrow> sub_t list" where
  "do_sub fd topic ss =
    (case sub_slot topic ss of
       (None, ss') \<Rightarrow> ss'
     | (Some i, ss') \<Rightarrow> ss'[i := (ss' ! i)\<lparr>s_ids := join_ids fd (s_ids (ss' ! i))\<rparr>])"

definition swap_remove :: "nat \<Rightarrow> 'a list \<Rightarrow> 'a list" where
  "swap_remove j xs = butlast (xs[j := last xs])"

definition leave_ids :: "int \<Rightarrow> int list \<Rightarrow> int list" where
  "leave_ids fd ids = (case find_index (\<lambda>x. x = fd) ids of None \<Rightarrow> ids | Some j \<Rightarrow> swap_remove j ids)"

definition do_unsub :: "int \<Rightarrow> string \<Rightarrow> sub_t list \<Rightarrow> sub_t list" where
  "do_unsub fd topic ss =
    (case find_sub topic ss of None \<Rightarrow> ss
     | Some i \<Rightarrow> ss[i := (ss ! i)\<lparr>s_ids := leave_ids fd (s_ids (ss ! i))\<rparr>])"

text \<open>
  \<open>sscanf(line, "PUB %255s %8191[^\n]", ...) >= 2\<close>: a topic word, and something other than
  white space after it. The payload sent on is found by a second scan of the line.
\<close>

definition pub_topic :: "string \<Rightarrow> string option" where
  "pub_topic line = (case scan_word 255 (skip_space (drop 3 line)) of
     None \<Rightarrow> None | Some (topic, rest) \<Rightarrow> if skip_space rest = [] then None else Some topic)"

definition pub_payload :: "string \<Rightarrow> string" where
  "pub_payload line =
    (let p = dropWhile (\<lambda>c. c \<noteq> CHR '' '') (drop 4 line) in if p = [] then [] else tl p)"

definition handle_line :: "int \<Rightarrow> string \<Rightarrow> busd \<Rightarrow> busd" where
  "handle_line fd line s =
    (if prefix ''PUB '' line then
       (case pub_topic line of None \<Rightarrow> s | Some topic \<Rightarrow> publish topic (pub_payload line) fd s)
     else case (if prefix ''SUB '' line then scan_word 255 (drop 3 line) else None) of
       Some (topic, _) \<Rightarrow> s\<lparr>subs := do_sub fd topic (subs s)\<rparr>
     | None \<Rightarrow>
       (case (if prefix ''UNSUB '' line then scan_word 255 (drop 5 line) else None) of
          Some (topic, _) \<Rightarrow> s\<lparr>subs := do_unsub fd topic (subs s)\<rparr>
        | None \<Rightarrow> if line = ''PING'' then s\<lparr>sends := sends s @ [(fd, ''PONG'' @ [NL])]\<rparr> else s))"

section \<open>Clients\<close>

text \<open>
  Removal from one subscription: every match is overwritten by the last entry, which is examined
  next.
\<close>

function purge :: "int \<Rightarrow> nat \<Rightarrow> int list \<Rightarrow> int list" where
  "purge fd j ids =
    (if j < length ids then
       if ids ! j = fd then purge fd j (swap_remove j ids) else purge fd (Suc j) ids
     else ids)"
  by pat_completeness auto
termination by (relation "measure (\<lambda>(fd, j, ids). length ids - j)") (auto simp: swap_remove_def)

declare purge.simps [simp del]

text \<open>\<open>memmove(&clients[idx], &clients[idx + 1], num_clients - idx - 1)\<close> on the whole array.\<close>

definition shift_down :: "nat \<Rightarrow> nat \<Rightarrow> 'a list \<Rightarrow> 'a list" where
  "shift_down idx n cs = take idx cs @ take (n - Suc idx) (drop (Suc idx) cs) @ drop (n - 1) cs"

definition remove_client :: "nat \<Rightarrow> busd \<Rightarrow> busd" where
  "remove_client idx s =
    (let fd = c_fd (clients s ! idx) in
     s\<lparr>subs := map (\<lambda>u. u\<lparr>s_ids := purge fd 0 (s_ids u)\<rparr>) (subs s),
       regs := (regs s)(fd := None),
       closed := fd # closed s,
       clients := (if int idx < num_clients s - 1
                   then shift_down idx (nat (num_clients s)) (clients s) else clients s),
       num_clients := num_clients s - 1\<rparr>)"

text \<open>
  A new connection is registered with its array index as data word. An accepted descriptor that
  finds the array full is dropped without being closed.
\<close>

definition accept_client :: "int \<Rightarrow> busd \<Rightarrow> busd cres" where
  "accept_client cfd s =
    (if cfd \<ge> 0 \<and> num_clients s < int max_clients then
       if num_clients s < 0 then Inl OutOfBounds
       else Inr (s\<lparr>regs := (regs s)(cfd \<mapsto> num_clients s),
              clients := (clients s)[nat (num_clients s) := \<lparr>c_fd = cfd, c_buf = []\<rparr>],
              num_clients := num_clients s + 1\<rparr>)
     else Inr s)"

text \<open>One recv of a client: the lines that became complete, and the rest moved to the front.\<close>

definition client_bytes :: "string \<Rightarrow> string \<Rightarrow> string \<times> string list" where
  "client_bytes buf bs = (let (ls, r) = split_lines (buf @ bs) in (r, ls))"

fun handle_lines :: "int \<Rightarrow> string list \<Rightarrow> busd \<Rightarrow> busd" where
  "handle_lines fd [] s = s"
| "handle_lines fd (l # ls) s = handle_lines fd ls (handle_line fd l s)"

definition set_cbuf :: "nat \<Rightarrow> string \<Rightarrow> busd \<Rightarrow> busd" where
  "set_cbuf i b s = s\<lparr>clients := (clients s)[i := (clients s ! i)\<lparr>c_buf := b\<rparr>]\<rparr>"

text \<open>
  The read of a ready client. \<open>rcv fd n\<close> is what recv delivers for a request of n bytes, empty for
  end of file or an error. The flag says whether the client was removed.
\<close>

definition read_client :: "(int \<Rightarrow> nat \<Rightarrow> string) \<Rightarrow> nat \<Rightarrow> busd \<Rightarrow> bool \<times> busd" where
  "read_client rcv i s =
    (let c = clients s ! i; bs = rcv (c_fd c) (buf_size - length (c_buf c) - 1) in
     if bs = [] then (True, remove_client i s)
     else let (r, ls) = client_bytes (c_buf c) bs
          in (False, handle_lines (c_fd c) ls (set_cbuf i r s)))"

record epoll_event =
  e_data :: int
  e_in :: bool
  e_hup :: bool

text \<open>
  The handling of one event: a data word equal to the listening descriptor is taken for a new
  connection, any other for an index into the client array.
\<close>

definition handle_event :: "int \<Rightarrow> int \<Rightarrow> (int \<Rightarrow> nat \<Rightarrow> string) \<Rightarrow> epoll_event \<Rightarrow> busd \<Rightarrow> busd cres" where
  "handle_event srv acc rcv ev s =
    (if e_data ev = srv then accept_client acc s
     else if e_data ev < 0 \<or> int (length (clients s)) \<le> e_data ev then Inl OutOfBounds
     else let i = nat (e_data ev);
              (gone, s1) = (if e_in ev then read_client rcv i s else (False, s))
          in Inr (if gone then s1 else if e_hup ev then remove_client i s1 else s1))"

definition busd_start :: "int \<Rightarrow> busd" where
  "busd_start srv = \<lparr>clients = replicate max_clients \<lparr>c_fd = 0, c_buf = []\<rparr>, num_clients = 0, subs = [],
     regs = (\<lambda>_. None)(srv \<mapsto> srv), sends = [], closed = []\<rparr>"

section \<open>The subscription table\<close>

lemma mset_swap_remove:
  assumes "j < length xs"
  shows "mset (swap_remove j xs) = mset xs - {#xs ! j#}"
proof -
  obtain ys y where xs: "xs = ys @ [y]" using assms by (cases xs rule: rev_cases) auto
  show ?thesis
  proof (cases "j < length ys")
    case True
    then show ?thesis
      by (simp add: xs swap_remove_def list_update_append nth_append butlast_append mset_update)
  next
    case False
    then have "j = length ys" using assms xs by simp
    then show ?thesis by (simp add: xs swap_remove_def list_update_append)
  qed
qed

lemma take_swap_remove: "j < length xs \<Longrightarrow> take j (swap_remove j xs) = take j xs"
  by (simp add: swap_remove_def take_butlast)

text \<open>The loop of remove_client keeps the other descriptors with their multiplicity.\<close>

lemma mset_purge:
  "\<forall>x \<in> set (take j ids). x \<noteq> fd \<Longrightarrow> mset (purge fd j ids) = filter_mset (\<lambda>x. x \<noteq> fd) (mset ids)"
proof (induction fd j ids rule: purge.induct)
  case (1 fd j ids)
  show ?case
  proof (cases "j < length ids")
    case False
    then have "\<forall>x \<in># mset ids. x \<noteq> fd" using 1(3) by simp
    then have "filter_mset (\<lambda>x. x \<noteq> fd) (mset ids) = mset ids" by (simp add: filter_mset_eq_conv)
    then show ?thesis using False by (subst purge.simps) simp
  next
    case True
    show ?thesis
    proof (cases "ids ! j = fd")
      case eq: True
      have "purge fd j ids = purge fd j (swap_remove j ids)"
        by (subst purge.simps) (simp add: True eq)
      then show ?thesis using 1(1) [OF True eq] 1(3) True eq
        by (simp add: take_swap_remove mset_swap_remove)
    next
      case ne: False
      have "purge fd j ids = purge fd (Suc j) ids"
        by (subst purge.simps) (simp add: True ne)
      moreover have "\<forall>x \<in> set (take (Suc j) ids). x \<noteq> fd"
        using 1(3) True ne by (simp add: take_Suc_conv_app_nth)
      ultimately show ?thesis using 1(2) [OF True ne] by simp
    qed
  qed
qed

lemma purge_facts:
  shows set_purge: "set (purge fd 0 ids) = set ids - {fd}"
    and distinct_purge: "distinct ids \<Longrightarrow> distinct (purge fd 0 ids)"
    and length_purge: "length (purge fd 0 ids) \<le> length ids"
proof -
  have m: "mset (purge fd 0 ids) = filter_mset (\<lambda>x. x \<noteq> fd) (mset ids)" by (rule mset_purge) simp
  have m': "mset (purge fd 0 ids) = mset (filter (\<lambda>x. x \<noteq> fd) ids)" using m by simp
  note mset_eq_setD [OF m'] mset_eq_imp_distinct_iff [OF m'] mset_eq_length [OF m']
  then show "set (purge fd 0 ids) = set ids - {fd}" "distinct ids \<Longrightarrow> distinct (purge fd 0 ids)"
    "length (purge fd 0 ids) \<le> length ids" by auto
qed

lemma leave_ids_facts:
  assumes "distinct ids"
  shows "set (leave_ids fd ids) = set ids - {fd}" "distinct (leave_ids fd ids)"
    "length (leave_ids fd ids) \<le> length ids"
proof -
  have "mset (leave_ids fd ids) = mset ids - {#fd#}"
  proof (cases "find_index (\<lambda>x. x = fd) ids")
    case None
    then have "fd \<notin> set ids" by auto
    then show ?thesis using None by (simp add: leave_ids_def diff_single_trivial del: find_index_None)
  next
    case (Some j)
    from find_index_SomeD [OF Some] have "j < length ids" "ids ! j = fd" by auto
    then show ?thesis using Some by (simp add: leave_ids_def mset_swap_remove)
  qed
  then have m: "mset (leave_ids fd ids) = mset (remove1 fd ids)" by simp
  note mset_eq_setD [OF m] mset_eq_imp_distinct_iff [OF m] mset_eq_length [OF m]
  then show "set (leave_ids fd ids) = set ids - {fd}" "distinct (leave_ids fd ids)"
    "length (leave_ids fd ids) \<le> length ids"
    using assms by (auto simp: distinct_remove1 length_remove1 set_remove1_eq)
qed

text \<open>
  What a subscription table promises: the set of (topic, descriptor) pairs it stands for, and the
  three commands on it. The laws hold as long as the topics in use come from T and the descriptors
  from F, sets the table has room for.
\<close>

datatype sub_cmd = CSub int string | CUnsub int string | CDrop int

fun spec_cmd :: "sub_cmd \<Rightarrow> (string \<times> int) set \<Rightarrow> (string \<times> int) set" where
  "spec_cmd (CSub fd t) R = insert (t, fd) R"
| "spec_cmd (CUnsub fd t) R = R - {(t, fd)}"
| "spec_cmd (CDrop fd) R = {(t, fd'). (t, fd') \<in> R \<and> fd' \<noteq> fd}"

locale sub_table =
  fixes exec :: "sub_cmd \<Rightarrow> 't \<Rightarrow> 't" and rel :: "'t \<Rightarrow> (string \<times> int) set"
    and ok :: "'t \<Rightarrow> bool" and allowed :: "sub_cmd \<Rightarrow> bool"
  assumes exec_ok: "ok t \<Longrightarrow> allowed c \<Longrightarrow> ok (exec c t)"
    and exec_rel: "ok t \<Longrightarrow> allowed c \<Longrightarrow> rel (exec c t) = spec_cmd c (rel t)"
begin

lemma run_rel:
  "ok t \<Longrightarrow> \<forall>c \<in> set cs. allowed c \<Longrightarrow>
    ok (fold exec cs t) \<and> rel (fold exec cs t) = fold spec_cmd cs (rel t)"
  by (induction cs arbitrary: t) (auto simp: exec_ok exec_rel)

lemma run_dropped:
  assumes "ok t" "\<forall>c \<in> set cs. allowed c" "allowed (CDrop fd)"
    "\<forall>c \<in> set ds. allowed c" "\<forall>c \<in> set ds. \<forall>u. c \<noteq> CSub fd u"
  shows "(u, fd) \<notin> rel (fold exec (cs @ CDrop fd # ds) t)"
proof -
  have gone: "(u, fd) \<notin> fold spec_cmd ds R" if "(u, fd) \<notin> R" for R
    using that assms(5)
  proof (induction ds arbitrary: R)
    case (Cons d ds)
    have "(u, fd) \<notin> spec_cmd d R" using Cons.prems by (cases d) auto
    then show ?case using Cons by simp
  qed simp
  have "\<forall>c \<in> set (cs @ CDrop fd # ds). allowed c" using assms by auto
  from run_rel [OF assms(1) this] show ?thesis by (simp add: gone)
qed

end

fun exec_cmd :: "sub_cmd \<Rightarrow> sub_t list \<Rightarrow> sub_t list" where
  "exec_cmd (CSub fd t) ss = do_sub fd t ss"
| "exec_cmd (CUnsub fd t) ss = do_unsub fd t ss"
| "exec_cmd (CDrop fd) ss = map (\<lambda>u. u\<lparr>s_ids := purge fd 0 (s_ids u)\<rparr>) ss"

definition subscribed :: "sub_t list \<Rightarrow> (string \<times> int) set" where
  "subscribed ss = {(t, fd). \<exists>u \<in> set ss. s_topic u = t \<and> fd \<in> set (s_ids u)}"

definition table_ok :: "string set \<Rightarrow> int set \<Rightarrow> sub_t list \<Rightarrow> bool" where
  "table_ok T F ss \<longleftrightarrow> finite T \<and> card T \<le> max_subs \<and> finite F \<and> card F \<le> max_clients
     \<and> distinct (map s_topic ss) \<and> s_topic ` set ss \<subseteq> T
     \<and> (\<forall>u \<in> set ss. distinct (s_ids u) \<and> set (s_ids u) \<subseteq> F)"

fun cmd_allowed :: "string set \<Rightarrow> int set \<Rightarrow> sub_cmd \<Rightarrow> bool" where
  "cmd_allowed T F (CSub fd t) = (t \<in> T \<and> length t \<le> 127 \<and> fd \<in> F)"
| "cmd_allowed T F _ = True"

text \<open>Replacing the descriptor list of one entry.\<close>

lemma subscribed_update:
  assumes "distinct (map s_topic ss)" "i < length ss" "s_topic v = s_topic (ss ! i)"
  shows "subscribed (ss[i := v]) = {(t, fd). if t = s_topic v then fd \<in> set (s_ids v) else (t, fd) \<in> subscribed ss}"
    and "distinct (map s_topic (ss[i := v]))" and "s_topic ` set (ss[i := v]) = s_topic ` set ss"
proof -
  have inj: "j = i" if "j < length ss" "s_topic (ss ! j) = s_topic (ss ! i)" for j
    using assms(1,2) that nth_eq_iff_index_eq [of "map s_topic ss" j i] by simp
  have map: "map s_topic (ss[i := v]) = map s_topic ss"
    using assms(2,3) by (metis list_update_id map_update nth_map length_map)
  show "distinct (map s_topic (ss[i := v]))" using assms(1) map by simp
  show "s_topic ` set (ss[i := v]) = s_topic ` set ss" using map by (metis list.set_map)
  show "subscribed (ss[i := v]) = {(t, fd). if t = s_topic v then fd \<in> set (s_ids v) else (t, fd) \<in> subscribed ss}"
  proof (intro set_eqI iffI; clarify)
    fix t fd assume "(t, fd) \<in> subscribed (ss[i := v])"
    then obtain u where u: "u \<in> set (ss[i := v])" "s_topic u = t" "fd \<in> set (s_ids u)"
      by (auto simp: subscribed_def)
    then obtain j where "j < length ss" "ss[i := v] ! j = u" by (auto simp: in_set_conv_nth)
    then have j: "j < length ss" "s_topic (ss[i := v] ! j) = t" "fd \<in> set (s_ids (ss[i := v] ! j))"
      using u by simp_all
    show "if t = s_topic v then fd \<in> set (s_ids v) else (t, fd) \<in> subscribed ss"
    proof (cases "j = i")
      case True
      then show ?thesis using j assms(2) by simp
    next
      case False
      then have "s_topic (ss ! j) = t" "fd \<in> set (s_ids (ss ! j))" using j by simp_all
      moreover from this have "t \<noteq> s_topic v" using inj [of j] j(1) False assms(3) by auto
      ultimately show ?thesis using j(1) by (auto simp: subscribed_def)
    qed
  next
    fix t fd assume a: "if t = s_topic v then fd \<in> set (s_ids v) else (t, fd) \<in> subscribed ss"
    show "(t, fd) \<in> subscribed (ss[i := v])"
    proof (cases "t = s_topic v")
      case True
      then show ?thesis using a assms(2) by (auto simp: subscribed_def intro!: bexI [of _ v] set_update_memI)
    next
      case False
      then obtain u where u: "u \<in> set ss" "s_topic u = t" "fd \<in> set (s_ids u)"
        using a by (auto simp: subscribed_def)
      then obtain j where j: "j < length ss" "ss ! j = u" by (auto simp: in_set_conv_nth)
      then have "j \<noteq> i" using False assms(3) u(2) by auto
      then have "ss[i := v] ! j = u" using j by simp
      then have "u \<in> set (ss[i := v])" using j(1) by (metis length_list_update nth_mem)
      then show ?thesis using u by (auto simp: subscribed_def)
    qed
  qed
qed

lemma subscribed_own:
  assumes "distinct (map s_topic ss)" "i < length ss"
  shows "(s_topic (ss ! i), x) \<in> subscribed ss \<longleftrightarrow> x \<in> set (s_ids (ss ! i))"
proof
  assume "(s_topic (ss ! i), x) \<in> subscribed ss"
  then obtain u where u: "u \<in> set ss" "s_topic u = s_topic (ss ! i)" "x \<in> set (s_ids u)"
    by (auto simp: subscribed_def)
  then obtain j where "j < length ss" "ss ! j = u" by (auto simp: in_set_conv_nth)
  moreover from this have "j = i"
    using assms u(2) nth_eq_iff_index_eq [of "map s_topic ss" j i] by simp
  ultimately show "x \<in> set (s_ids (ss ! i))" using u(3) by simp
next
  assume "x \<in> set (s_ids (ss ! i))"
  then show "(s_topic (ss ! i), x) \<in> subscribed ss"
    using nth_mem [OF assms(2)] by (auto simp: subscribed_def)
qed

lemma find_sub_Some:
  "find_sub t ss = Some i \<Longrightarrow> i < length ss \<and> s_topic (ss ! i) = t"
  unfolding find_sub_def by (blast dest: find_index_SomeD)

lemma find_sub_None: "find_sub t ss = None \<longleftrightarrow> t \<notin> s_topic ` set ss"
  by (auto simp: find_sub_def)

lemma subscribed_topic: "(t, fd) \<in> subscribed ss \<Longrightarrow> t \<in> s_topic ` set ss"
  by (auto simp: subscribed_def)

lemma table_ok_update:
  assumes "table_ok T F ss" "i < length ss" "s_topic v = s_topic (ss ! i)"
    "distinct (s_ids v)" "set (s_ids v) \<subseteq> F"
  shows "table_ok T F (ss[i := v])"
proof -
  have "distinct (map s_topic ss)" using assms(1) by (simp add: table_ok_def)
  note upd = subscribed_update(2,3) [OF this assms(2,3)]
  have "\<forall>u \<in> set (ss[i := v]). distinct (s_ids u) \<and> set (s_ids u) \<subseteq> F"
    using assms(1,4,5) set_update_subset_insert [of ss i v] unfolding table_ok_def by blast
  then show ?thesis using assms(1) upd by (simp add: table_ok_def)
qed

text \<open>The entry SUB works on: one for the topic is there, or there is room for a fresh one.\<close>

lemma sub_slot_ok:
  assumes "table_ok T F ss" "t \<in> T" "length t \<le> 127"
  shows "\<exists>i ss'. sub_slot t ss = (Some i, ss') \<and> table_ok T F ss' \<and> i < length ss'
    \<and> s_topic (ss' ! i) = t \<and> subscribed ss' = subscribed ss"
proof (cases "find_sub t ss")
  case (Some i)
  then show ?thesis using assms(1) find_sub_Some [OF Some] by (simp add: sub_slot_def)
next
  case None
  then have new: "t \<notin> s_topic ` set ss" by (simp add: find_sub_None)
  let ?ss = "ss @ [\<lparr>s_topic = t, s_ids = []\<rparr>]"
  have ok: "finite T" "card T \<le> max_subs" "distinct (map s_topic ss)" "s_topic ` set ss \<subseteq> T"
    using assms(1) by (auto simp: table_ok_def)
  have "length ss = card (s_topic ` set ss)" using distinct_card [OF ok(3)] by simp
  also have "\<dots> < card T" using new assms(2) ok by (intro psubset_card_mono) auto
  finally have "length ss < max_subs" using ok(2) by simp
  then have "sub_slot t ss = (Some (length ss), ?ss)" using None assms(3) by (simp add: sub_slot_def)
  moreover have "table_ok T F ?ss" using assms(1,2) new by (auto simp: table_ok_def)
  moreover have "subscribed ?ss = subscribed ss" by (auto simp: subscribed_def)
  ultimately show ?thesis by simp
qed

lemma join_ids_ok:
  assumes "distinct ids" "set ids \<subseteq> F" "finite F" "card F \<le> max_clients" "fd \<in> F"
  shows "set (join_ids fd ids) = insert fd (set ids)" "distinct (join_ids fd ids)"
    "set (join_ids fd ids) \<subseteq> F"
proof -
  have "length ids < max_clients" if "fd \<notin> set ids"
  proof -
    have "length ids = card (set ids)" using distinct_card [OF assms(1)] by simp
    also have "\<dots> < card F" using that assms by (intro psubset_card_mono) auto
    finally show ?thesis using assms(4) by simp
  qed
  then show "set (join_ids fd ids) = insert fd (set ids)" "distinct (join_ids fd ids)"
    "set (join_ids fd ids) \<subseteq> F"
    using assms by (auto simp: join_ids_def)
qed

lemma do_sub_ok:
  assumes ok: "table_ok T F ss" and "t \<in> T" "length t \<le> 127" "fd \<in> F"
  shows "table_ok T F (do_sub fd t ss) \<and> subscribed (do_sub fd t ss) = insert (t, fd) (subscribed ss)"
proof -
  obtain i ss' where s: "sub_slot t ss = (Some i, ss')" "table_ok T F ss'" "i < length ss'"
    "s_topic (ss' ! i) = t" "subscribed ss' = subscribed ss"
    using sub_slot_ok [OF assms(1-3)] by blast
  let ?v = "(ss' ! i)\<lparr>s_ids := join_ids fd (s_ids (ss' ! i))\<rparr>"
  have mem: "ss' ! i \<in> set ss'" using s(3) by simp
  have d: "distinct (map s_topic ss')" "distinct (s_ids (ss' ! i))" "set (s_ids (ss' ! i)) \<subseteq> F"
    "finite F" "card F \<le> max_clients"
    using s(2) mem unfolding table_ok_def by auto
  note j = join_ids_ok [OF d(2-5) assms(4)]
  have v: "s_topic ?v = s_topic (ss' ! i)" by simp
  have "do_sub fd t ss = ss'[i := ?v]" using s(1) by (simp add: do_sub_def)
  moreover have "table_ok T F (ss'[i := ?v])"
    by (rule table_ok_update [OF s(2,3) v]) (use j in simp_all)
  moreover have "subscribed (ss'[i := ?v]) = insert (t, fd) (subscribed ss')"
  proof -
    note own = subscribed_own [OF d(1) s(3), unfolded s(4)]
    show ?thesis using subscribed_update(1) [OF d(1) s(3) v] j(1) s(4) own by auto
  qed
  ultimately show ?thesis using s(5) by simp
qed

lemma do_unsub_ok:
  assumes ok: "table_ok T F ss"
  shows "table_ok T F (do_unsub fd t ss) \<and> subscribed (do_unsub fd t ss) = subscribed ss - {(t, fd)}"
proof (cases "find_sub t ss")
  case None
  then have "(t, fd) \<notin> subscribed ss" using subscribed_topic by (auto simp: find_sub_None)
  then show ?thesis using None ok by (simp add: do_unsub_def)
next
  case (Some i)
  note i = find_sub_Some [OF Some]
  let ?v = "(ss ! i)\<lparr>s_ids := leave_ids fd (s_ids (ss ! i))\<rparr>"
  have mem: "ss ! i \<in> set ss" using i by simp
  have d: "distinct (map s_topic ss)" "distinct (s_ids (ss ! i))" "set (s_ids (ss ! i)) \<subseteq> F"
    using ok mem unfolding table_ok_def by auto
  note l = leave_ids_facts [OF d(2), of fd]
  have v: "s_topic ?v = s_topic (ss ! i)" by simp
  have "do_unsub fd t ss = ss[i := ?v]" using Some by (simp add: do_unsub_def)
  moreover have "table_ok T F (ss[i := ?v])"
    by (rule table_ok_update [OF ok _ v]) (use i l d(3) in auto)
  moreover have "subscribed (ss[i := ?v]) = subscribed ss - {(t, fd)}"
  proof -
    have il: "i < length ss" using i by simp
    have own: "(t, x) \<in> subscribed ss \<longleftrightarrow> x \<in> set (s_ids (ss ! i))" for x
      using subscribed_own [OF d(1) il] i by simp
    show ?thesis using subscribed_update(1) [OF d(1) il v] l(1) i own by auto
  qed
  ultimately show ?thesis by simp
qed

lemma drop_ok:
  assumes "table_ok T F ss"
  shows "table_ok T F (exec_cmd (CDrop fd) ss)
    \<and> subscribed (exec_cmd (CDrop fd) ss) = spec_cmd (CDrop fd) (subscribed ss)"
proof
  have "map s_topic (exec_cmd (CDrop fd) ss) = map s_topic ss" by simp
  moreover have "s_topic ` set (exec_cmd (CDrop fd) ss) = s_topic ` set ss" by (auto simp: image_image)
  moreover have "\<forall>u \<in> set (exec_cmd (CDrop fd) ss). distinct (s_ids u) \<and> set (s_ids u) \<subseteq> F"
    using assms by (auto simp: table_ok_def distinct_purge set_purge)
  ultimately show "table_ok T F (exec_cmd (CDrop fd) ss)" using assms by (simp only: table_ok_def)
  show "subscribed (exec_cmd (CDrop fd) ss) = spec_cmd (CDrop fd) (subscribed ss)"
    by (auto simp: subscribed_def set_purge)
qed

lemma exec_cmd_ok:
  assumes "table_ok T F ss" "cmd_allowed T F c"
  shows "table_ok T F (exec_cmd c ss) \<and> subscribed (exec_cmd c ss) = spec_cmd c (subscribed ss)"
proof (cases c)
  case (CSub fd t)
  then show ?thesis using do_sub_ok [OF assms(1), of t fd] assms(2) by simp
next
  case (CUnsub fd t)
  then show ?thesis using do_unsub_ok [OF assms(1)] by simp
next
  case (CDrop fd)
  then show ?thesis using drop_ok [OF assms(1)] by blast
qed

interpretation bus_subs: sub_table exec_cmd subscribed "table_ok T F" "cmd_allowed T F" for T F
  by unfold_locales (use exec_cmd_ok in blast)+

lemma table_ok_empty:
  "finite T \<Longrightarrow> card T \<le> max_subs \<Longrightarrow> finite F \<Longrightarrow> card F \<le> max_clients \<Longrightarrow> table_ok T F []"
  by (simp add: table_ok_def)

section \<open>Properties of the daemon\<close>

text \<open>
  C9. The subscription table implements a set of (topic, client) pairs: any sequence of subscriptions,
  cancellations and client removals on the empty table leaves exactly the pairs the same sequence
  leaves on the set, for at most 256 topics of at most 127 bytes and 64 clients.
\<close>

theorem subs_refine_set:
  assumes "finite T" "card T \<le> 256" "finite F" "card F \<le> 64" and "\<forall>c \<in> set cs. cmd_allowed T F c"
  shows "subscribed (fold exec_cmd cs []) = fold spec_cmd cs {}"
proof -
  have "table_ok T F []"
    using assms(1-4) by (intro table_ok_empty) (simp_all add: max_subs_def max_clients_def)
  from conjunct2 [OF bus_subs.run_rel [OF this assms(5)]]
  have "subscribed (fold exec_cmd cs []) = fold spec_cmd cs (subscribed [])" .
  then show ?thesis unfolding subscribed_def [of "[]"] by simp
qed

theorem subs_refine_set_witness:
  "subscribed (fold exec_cmd [CSub 5 ''a'', CSub 6 ''a'', CSub 6 ''b'', CUnsub 5 ''a'', CSub 5 ''b'', CDrop 6] [])
    = {(''b'', 5)}"
proof -
  let ?cs = "[CSub 5 ''a'', CSub 6 ''a'', CSub 6 ''b'', CUnsub 5 ''a'', CSub 5 ''b'', CDrop 6]"
  have ok: "\<forall>c \<in> set ?cs. cmd_allowed {''a'', ''b''} {5, 6} c" by simp
  have spec: "fold spec_cmd ?cs {} = {(''b'', 5)}" by auto
  show ?thesis by (rule trans [OF subs_refine_set [OF _ _ _ _ ok] spec]) simp_all
qed

text \<open>The words a client may use as topic, and the lines the bus client sends.\<close>

definition word_ok :: "string \<Rightarrow> bool" where
  "word_ok t \<longleftrightarrow> t \<noteq> [] \<and> length t \<le> 255 \<and> (\<forall>c \<in> set t. \<not> isspace c)"

lemma space_isspace [simp]: "isspace (CHR '' '')" by (simp add: isspace_def)

lemma scan_topic: "word_ok t \<Longrightarrow> scan_word 255 t = Some (t, [])"
  using scan_word_exact [of t 255 "[]"] by (simp add: word_ok_def)

lemma pub_topic_line:
  assumes "word_ok t" "\<exists>c \<in> set p. \<not> isspace c"
  shows "pub_topic (pub_line t p) = Some t" "pub_payload (pub_line t p) = p"
proof -
  have t: "t \<noteq> []" "\<not> isspace (hd t)" "\<forall>c \<in> set t. \<not> isspace c" "length t \<le> 255"
    using assms(1) by (auto simp: word_ok_def)
  have "skip_space (drop 3 (pub_line t p)) = t @ CHR '' '' # p"
    using t by (cases t) (simp_all add: pub_line_def skip_space_def)
  moreover have "scan_word 255 (t @ CHR '' '' # p) = Some (t, CHR '' '' # p)"
    using t by (intro scan_word_exact) simp_all
  moreover have "skip_space (CHR '' '' # p) \<noteq> []"
    using assms(2) by (simp add: skip_space_def dropWhile_eq_Nil_conv)
  ultimately show "pub_topic (pub_line t p) = Some t" by (simp add: pub_topic_def)
  have "\<forall>c \<in> set t. c \<noteq> CHR '' ''" using t(3) by auto
  then have "dropWhile (\<lambda>c. c \<noteq> CHR '' '') (t @ CHR '' '' # p) = CHR '' '' # p"
    by (simp add: dropWhile_append)
  then show "pub_payload (pub_line t p) = p" by (simp add: pub_payload_def pub_line_def)
qed

lemma handle_pub:
  assumes "word_ok t" "\<exists>c \<in> set p. \<not> isspace c"
  shows "handle_line fd (pub_line t p) s = publish t p fd s"
  using pub_topic_line [OF assms] by (simp add: handle_line_def) (simp add: pub_line_def)

lemma handle_sub:
  "word_ok t \<Longrightarrow> handle_line fd (''SUB '' @ t) s = s\<lparr>subs := exec_cmd (CSub fd t) (subs s)\<rparr>"
  by (simp add: handle_line_def scan_topic)

lemma handle_unsub:
  "word_ok t \<Longrightarrow> handle_line fd (''UNSUB '' @ t) s = s\<lparr>subs := exec_cmd (CUnsub fd t) (subs s)\<rparr>"
  by (simp add: handle_line_def scan_topic)

text \<open>
  The line protocol: the subscription lines execute the table's commands for the sending client,
  PUB publishes the topic and the payload as sent, PING is answered to the sender, and a line that
  begins with none of the commands changes nothing.
\<close>

theorem line_protocol:
  assumes "word_ok t" and "\<exists>c \<in> set p. \<not> isspace c"
    and "\<not> prefix ''PUB '' l" "\<not> prefix ''SUB '' l" "\<not> prefix ''UNSUB '' l" "l \<noteq> ''PING''"
  shows "handle_line fd (''SUB '' @ t) s = s\<lparr>subs := exec_cmd (CSub fd t) (subs s)\<rparr>
    \<and> handle_line fd (''UNSUB '' @ t) s = s\<lparr>subs := exec_cmd (CUnsub fd t) (subs s)\<rparr>
    \<and> handle_line fd (pub_line t p) s = publish t p fd s
    \<and> handle_line fd ''PING'' s = s\<lparr>sends := sends s @ [(fd, ''PONG'' @ [NL])]\<rparr>
    \<and> handle_line fd l s = s"
  using handle_sub [OF assms(1)] handle_unsub [OF assms(1)] handle_pub [OF assms(1,2)] assms(3-6)
  by (simp add: handle_line_def)

theorem line_protocol_witness:
  "handle_line 5 (''SUB '' @ ''dev/led'') (busd_start 3) = (busd_start 3)\<lparr>subs := exec_cmd (CSub 5 ''dev/led'') []\<rparr>"
  using line_protocol [of "''dev/led''" "''x''" "''HELLO''" 5 "busd_start 3"]
  by (simp add: word_ok_def isspace_def) (simp add: busd_start_def)

text \<open>
  C14. A publication that fits the message buffer is sent, unchanged and with its newline, to every
  client with a matching subscription except its sender, and to nobody else; one that does not fit
  is dropped.
\<close>

theorem publish_reaches_subscribers:
  assumes "length (pub_line t p) + 1 < 8192"
  shows "\<exists>new. publish t p fd s = s\<lparr>sends := sends s @ new\<rparr>
    \<and> set new = {(c, pub_line t p @ [NL]) | c. c \<noteq> fd \<and> (\<exists>pat. (pat, c) \<in> subscribed (subs s) \<and> topic_match pat t)}"
proof -
  let ?msg = "pub_line t p @ [NL]"
  let ?new = "concat (map (\<lambda>u. if topic_match (s_topic u) t
       then map (\<lambda>c. (c, ?msg)) (filter (\<lambda>c. c \<noteq> fd) (s_ids u)) else []) (subs s))"
  have "publish t p fd s = s\<lparr>sends := sends s @ ?new\<rparr>"
    using assms by (simp add: publish_def Let_def buf_size_def)
  moreover have "set ?new = {(c, ?msg) | c. c \<noteq> fd \<and> (\<exists>pat. (pat, c) \<in> subscribed (subs s) \<and> topic_match pat t)}"
    unfolding subscribed_def by (auto split: if_splits)
  ultimately show ?thesis by blast
qed

theorem publish_reaches_subscribers_witness:
  "\<exists>new. publish ''led/1'' ''on'' 5 ((busd_start 3)\<lparr>subs := [\<lparr>s_topic = ''led/#'', s_ids = [5, 6]\<rparr>]\<rparr>)
      = (busd_start 3)\<lparr>subs := [\<lparr>s_topic = ''led/#'', s_ids = [5, 6]\<rparr>], sends := new\<rparr>
    \<and> (6, ''PUB led/1 on'' @ [NL]) \<in> set new"
proof -
  let ?s = "(busd_start 3)\<lparr>subs := [\<lparr>s_topic = ''led/#'', s_ids = [5, 6]\<rparr>]\<rparr>"
  obtain new where new: "publish ''led/1'' ''on'' 5 ?s = ?s\<lparr>sends := sends ?s @ new\<rparr>"
    "set new = {(c, pub_line ''led/1'' ''on'' @ [NL]) | c. c \<noteq> 5 \<and> (\<exists>pat. (pat, c) \<in> subscribed (subs ?s) \<and> topic_match pat ''led/1'')}"
    using publish_reaches_subscribers [of "''led/1''" "''on''" 5 ?s] by (auto simp: pub_line_def)
  have "(''led/#'', 6) \<in> subscribed (subs ?s)" "topic_match ''led/#'' ''led/1''"
    by (simp_all add: subscribed_def topic_match_def)
  then have "(6, ''PUB led/1 on'' @ [NL]) \<in> set new" unfolding new(2) by (auto simp: pub_line_def)
  then show ?thesis using new(1) by (intro exI [of _ new]) (simp add: busd_start_def)
qed

section \<open>Bounds under every event\<close>

definition sub_bounded :: "sub_t \<Rightarrow> bool" where
  "sub_bounded u \<longleftrightarrow> distinct (s_ids u) \<and> length (s_ids u) \<le> max_clients \<and> length (s_topic u) \<le> 127"

definition subs_bounded :: "sub_t list \<Rightarrow> bool" where
  "subs_bounded ss \<longleftrightarrow> length ss \<le> max_subs \<and> (\<forall>u \<in> set ss. sub_bounded u)"

definition busd_bounded :: "busd \<Rightarrow> bool" where
  "busd_bounded s \<longleftrightarrow> length (clients s) = max_clients \<and> num_clients s \<le> int max_clients
     \<and> (\<forall>c \<in> set (clients s). length (c_buf c) < buf_size) \<and> subs_bounded (subs s)"

lemma subs_bounded_update:
  "subs_bounded ss \<Longrightarrow> sub_bounded v \<Longrightarrow> subs_bounded (ss[i := v])"
  using set_update_subset_insert [of ss i v] by (auto simp: subs_bounded_def)

lemma do_sub_bounded:
  assumes "subs_bounded ss"
  shows "subs_bounded (do_sub fd t ss)"
proof -
  obtain r ss' where slot: "sub_slot t ss = (r, ss')" by fastforce
  have b: "subs_bounded ss'" and i: "\<And>i. r = Some i \<Longrightarrow> i < length ss'"
    using assms slot find_sub_Some [of t ss]
    by (auto simp: sub_slot_def subs_bounded_def sub_bounded_def split: option.splits if_splits)
  show ?thesis
  proof (cases r)
    case None
    then show ?thesis using b slot by (simp add: do_sub_def)
  next
    case (Some i)
    then have "sub_bounded (ss' ! i)" using b i [of i] by (auto simp: subs_bounded_def)
    then have "sub_bounded ((ss' ! i)\<lparr>s_ids := join_ids fd (s_ids (ss' ! i))\<rparr>)"
      by (auto simp: sub_bounded_def join_ids_def)
    then show ?thesis using Some slot b subs_bounded_update by (simp add: do_sub_def)
  qed
qed

lemma do_unsub_bounded:
  assumes "subs_bounded ss"
  shows "subs_bounded (do_unsub fd t ss)"
proof (cases "find_sub t ss")
  case (Some i)
  then have "sub_bounded (ss ! i)" using assms find_sub_Some [OF Some] by (auto simp: subs_bounded_def)
  then have "sub_bounded ((ss ! i)\<lparr>s_ids := leave_ids fd (s_ids (ss ! i))\<rparr>)"
    using leave_ids_facts [of "s_ids (ss ! i)" fd] by (auto simp: sub_bounded_def)
  then show ?thesis using Some assms subs_bounded_update by (simp add: do_unsub_def)
qed (use assms in \<open>simp add: do_unsub_def\<close>)

lemma handle_line_keeps:
  "clients (handle_line fd l s) = clients s \<and> num_clients (handle_line fd l s) = num_clients s
   \<and> regs (handle_line fd l s) = regs s
   \<and> (subs_bounded (subs s) \<longrightarrow> subs_bounded (subs (handle_line fd l s)))"
  by (simp add: handle_line_def publish_def Let_def do_sub_bounded do_unsub_bounded split: option.split)

lemma handle_lines_keeps:
  "clients (handle_lines fd ls s) = clients s \<and> num_clients (handle_lines fd ls s) = num_clients s
   \<and> regs (handle_lines fd ls s) = regs s
   \<and> (subs_bounded (subs s) \<longrightarrow> subs_bounded (subs (handle_lines fd ls s)))"
  by (induction ls arbitrary: s) (simp_all add: handle_line_keeps)

lemma set_shift_down: "set (shift_down i n cs) \<subseteq> set cs"
  by (auto simp: shift_down_def dest!: in_set_takeD in_set_dropD)

lemma length_shift_down: "Suc i < n \<Longrightarrow> n \<le> length cs \<Longrightarrow> length (shift_down i n cs) = length cs"
  by (simp add: shift_down_def)

lemma remove_client_bounded:
  assumes "busd_bounded s"
  shows "busd_bounded (remove_client i s)"
proof -
  have b: "length (clients s) = max_clients" "num_clients s \<le> int max_clients"
    "\<forall>c \<in> set (clients s). length (c_buf c) < buf_size" "subs_bounded (subs s)"
    using assms by (auto simp: busd_bounded_def)
  let ?cs = "if int i < num_clients s - 1 then shift_down i (nat (num_clients s)) (clients s) else clients s"
  have "length ?cs = max_clients"
    using b(1,2) length_shift_down [of i "nat (num_clients s)" "clients s"] by auto
  moreover have "\<forall>c \<in> set ?cs. length (c_buf c) < buf_size"
    using b(3) set_shift_down [of i "nat (num_clients s)" "clients s"] by auto
  moreover have "subs_bounded (map (\<lambda>u. u\<lparr>s_ids := purge fd 0 (s_ids u)\<rparr>) (subs s))" for fd
  proof -
    have "sub_bounded (u\<lparr>s_ids := purge fd 0 (s_ids u)\<rparr>)" if "sub_bounded u" for u
      using that length_purge [of fd "s_ids u"] by (simp add: sub_bounded_def distinct_purge)
    then show ?thesis using b(4) by (simp add: subs_bounded_def)
  qed
  ultimately show ?thesis using b(2) by (simp add: busd_bounded_def remove_client_def Let_def)
qed

definition recv_ok :: "(int \<Rightarrow> nat \<Rightarrow> string) \<Rightarrow> bool" where
  "recv_ok rcv \<longleftrightarrow> (\<forall>fd n. length (rcv fd n) \<le> n)"

lemma set_update_all: "\<forall>x \<in> set xs. P x \<Longrightarrow> P y \<Longrightarrow> \<forall>x \<in> set (xs[i := y]). P x"
  using set_update_subset_insert [of xs i y] by blast

lemma read_client_bounded:
  assumes "busd_bounded s" "recv_ok rcv" "i < length (clients s)" "read_client rcv i s = (g, t)"
  shows "busd_bounded t"
proof -
  let ?c = "clients s ! i"
  let ?bs = "rcv (c_fd ?c) (buf_size - length (c_buf ?c) - 1)"
  show ?thesis
  proof (cases "?bs = []")
    case True
    then show ?thesis using assms remove_client_bounded by (auto simp: read_client_def Let_def)
  next
    case False
    have "?c \<in> set (clients s)" using assms(3) by simp
    then have "length (c_buf ?c) < buf_size" using assms(1) by (auto simp: busd_bounded_def)
    moreover have "length ?bs \<le> buf_size - length (c_buf ?c) - 1" using assms(2) by (simp add: recv_ok_def)
    ultimately have "length (c_buf ?c @ ?bs) < buf_size" by simp
    then have r: "length (snd (split_lines (c_buf ?c @ ?bs))) < buf_size"
      using split_lines_length [of "c_buf ?c @ ?bs"] by simp
    have t: "t = handle_lines (c_fd ?c) (fst (split_lines (c_buf ?c @ ?bs)))
        (set_cbuf i (snd (split_lines (c_buf ?c @ ?bs))) s)"
      using assms(4) False by (simp add: read_client_def client_bytes_def Let_def case_prod_beta)
    have "\<forall>c \<in> set (clients s). length (c_buf c) < buf_size" using assms(1) by (simp add: busd_bounded_def)
    from set_update_all [OF this, of "?c\<lparr>c_buf := snd (split_lines (c_buf ?c @ ?bs))\<rparr>" i] r
    have "\<forall>c \<in> set (clients t). length (c_buf c) < buf_size"
      unfolding t by (simp add: handle_lines_keeps set_cbuf_def)
    moreover have "length (clients t) = max_clients" "num_clients t \<le> int max_clients" "subs_bounded (subs t)"
      using assms(1) unfolding t by (simp_all add: busd_bounded_def handle_lines_keeps set_cbuf_def)
    ultimately show ?thesis by (simp add: busd_bounded_def)
  qed
qed

lemma handle_event_bounded:
  assumes "busd_bounded s" "recv_ok rcv" "handle_event srv acc rcv ev s = Inr t"
  shows "busd_bounded t"
proof (cases "e_data ev = srv")
  case True
  then have t: "accept_client acc s = Inr t" using assms(3) by (simp add: handle_event_def)
  have b: "\<forall>c \<in> set (clients s). length (c_buf c) < buf_size" using assms(1) by (simp add: busd_bounded_def)
  have "length (c_buf \<lparr>c_fd = acc, c_buf = []\<rparr>) < buf_size" by (simp add: buf_size_def)
  note set_update_all [OF b this, of "nat (num_clients s)"]
  then show ?thesis using assms(1) t
    by (auto simp: accept_client_def busd_bounded_def split: if_splits)
next
  case False
  then have i: "nat (e_data ev) < length (clients s)"
    using assms(3) by (auto simp: handle_event_def split: if_splits)
  obtain g s1 where rd: "(if e_in ev then read_client rcv (nat (e_data ev)) s else (False, s)) = (g, s1)"
    by fastforce
  then have "busd_bounded s1"
    using read_client_bounded [OF assms(1,2) i] assms(1) by (auto split: if_splits)
  moreover have "t = (if g then s1 else if e_hup ev then remove_client (nat (e_data ev)) s1 else s1)"
    using assms(3) False rd by (auto simp: handle_event_def Let_def split: if_splits)
  ultimately show ?thesis using remove_client_bounded by simp
qed

text \<open>
  An event is live when it is the listener's or its data word is an index below the number of clients. A
  live event never leaves the tables, and the count does not fall below zero.
\<close>

definition event_live :: "int \<Rightarrow> epoll_event \<Rightarrow> busd \<Rightarrow> bool" where
  "event_live srv ev s \<longleftrightarrow> e_data ev = srv \<or> 0 \<le> e_data ev \<and> e_data ev < num_clients s"

lemma read_client_count:
  "read_client rcv i s = (g, t) \<Longrightarrow> num_clients t = (if g then num_clients s - 1 else num_clients s)"
  by (auto simp: read_client_def remove_client_def handle_lines_keeps set_cbuf_def Let_def split: if_splits prod.splits)

lemma handle_event_live:
  assumes "busd_bounded s" "0 \<le> num_clients s" "event_live srv ev s" "recv_ok rcv"
  shows "\<exists>t. handle_event srv acc rcv ev s = Inr t \<and> busd_bounded t \<and> 0 \<le> num_clients t"
proof -
  obtain g s1 where rd: "(if e_in ev then read_client rcv (nat (e_data ev)) s else (False, s)) = (g, s1)"
    by fastforce
  then have n: "num_clients s1 = (if g then num_clients s - 1 else num_clients s)"
    using read_client_count by (auto split: if_splits)
  have "length (clients s) = 64" "num_clients s \<le> 64" using assms(1) by (simp_all add: busd_bounded_def max_clients_def)
  then have "\<exists>t. handle_event srv acc rcv ev s = Inr t \<and> 0 \<le> num_clients t"
    using assms(2,3) rd n by (cases "e_data ev = srv")
      (simp_all add: handle_event_def event_live_def accept_client_def remove_client_def Let_def)
  then show ?thesis using handle_event_bounded [OF assms(1,4)] by blast
qed

lemma handle_event_fails:
  assumes "busd_bounded s"
  shows "handle_event srv acc rcv ev s = Inl e \<longleftrightarrow> e = OutOfBounds
    \<and> (if e_data ev = srv then 0 \<le> acc \<and> num_clients s < 0 else e_data ev < 0 \<or> 64 \<le> e_data ev)"
  using assms by (auto simp: handle_event_def accept_client_def busd_bounded_def max_clients_def Let_def split: prod.splits)

lemma busd_start_bounded: "busd_bounded (busd_start srv)"
  by (simp add: busd_bounded_def busd_start_def buf_size_def subs_bounded_def)

section \<open>The main loop\<close>

text \<open>
  The socket set up before the loop: the exit code and the descriptors closed on a failure, or the daemon
  listening on it.
\<close>

definition busd_setup :: "int \<Rightarrow> int \<Rightarrow> int \<Rightarrow> (int \<times> int list) + busd" where
  "busd_setup sock bnd lst =
    (if sock < 0 then Inl (1, []) else if bnd < 0 \<or> lst < 0 then Inl (1, [sock]) else Inr (busd_start sock))"

text \<open>
  One wakeup of epoll_wait delivers a list of events, each with what accept and recv answer to it. The
  flag running is never cleared, so the loop goes on as long as there are wakeups.
\<close>

type_synonym busd_input = "int \<times> (int \<Rightarrow> nat \<Rightarrow> string) \<times> epoll_event"

fun busd_batch :: "int \<Rightarrow> busd_input list \<Rightarrow> busd \<Rightarrow> busd cres" where
  "busd_batch srv [] s = Inr s"
| "busd_batch srv ((acc, rcv, ev) # es) s =
    (case handle_event srv acc rcv ev s of Inl e \<Rightarrow> Inl e | Inr t \<Rightarrow> busd_batch srv es t)"

fun busd_loop :: "int \<Rightarrow> busd_input list list \<Rightarrow> busd \<Rightarrow> busd cres" where
  "busd_loop srv [] s = Inr s"
| "busd_loop srv (b # bs) s = (case busd_batch srv b s of Inl e \<Rightarrow> Inl e | Inr t \<Rightarrow> busd_loop srv bs t)"

lemma busd_batch_append:
  "busd_batch srv (xs @ ys) s = (case busd_batch srv xs s of Inl e \<Rightarrow> Inl e | Inr t \<Rightarrow> busd_batch srv ys t)"
  by (induction srv xs s rule: busd_batch.induct) (auto split: sum.splits)

text \<open>How the events are grouped into wakeups makes no difference.\<close>

lemma busd_loop_concat: "busd_loop srv bs s = busd_batch srv (concat bs) s"
  by (induction bs arbitrary: s) (auto simp: busd_batch_append split: sum.splits)

text \<open>Every event of the run is live when it is handled.\<close>

fun live_run :: "int \<Rightarrow> busd_input list \<Rightarrow> busd \<Rightarrow> bool" where
  "live_run srv [] s = True"
| "live_run srv ((acc, rcv, ev) # es) s =
    (event_live srv ev s \<and> (case handle_event srv acc rcv ev s of Inl e \<Rightarrow> True | Inr t \<Rightarrow> live_run srv es t))"

lemma busd_batch_bounded:
  assumes "busd_bounded s" "\<forall>(acc, rcv, ev) \<in> set es. recv_ok rcv"
  shows "case busd_batch srv es s of Inl e \<Rightarrow> e = OutOfBounds | Inr t \<Rightarrow> busd_bounded t"
  using assms
proof (induction srv es s rule: busd_batch.induct)
  case (2 srv acc rcv ev es s)
  then show ?case
  proof (cases "handle_event srv acc rcv ev s")
    case (Inl e)
    then have "e = OutOfBounds" using handle_event_fails [OF 2(2), of srv acc rcv ev e] by simp
    then show ?thesis using Inl by simp
  next
    case (Inr t)
    then show ?thesis using 2 handle_event_bounded [OF 2(2) _ Inr] by simp
  qed
qed simp

lemma busd_batch_live:
  assumes "busd_bounded s" "0 \<le> num_clients s" "\<forall>(acc, rcv, ev) \<in> set es. recv_ok rcv" "live_run srv es s"
  shows "\<exists>t. busd_batch srv es s = Inr t \<and> 0 \<le> num_clients t"
  using assms
proof (induction srv es s rule: busd_batch.induct)
  case (2 srv acc rcv ev es s)
  then obtain t where "handle_event srv acc rcv ev s = Inr t" "busd_bounded t" "0 \<le> num_clients t"
    using handle_event_live [of s srv ev rcv acc] by auto
  then show ?case using 2 by simp
qed simp

text \<open>
  C24. Whatever connects, sends and hangs up, in whatever order and grouping epoll reports it. As long as each
  event is live when it is handled, the daemon never leaves its arrays and its count never falls below zero. On
  any events at all, also with the stale data words that a removal leaves behind, the tables keep their other
  bounds (64 slots, 256 topics of at most 127 bytes, at most 64 distinct subscribers each, lines that leave
  room for their terminator, so that recv is never asked for a negative length), and the next event leaves the
  arrays exactly if its data word is outside of them, or if it is a connection while the count is negative.
\<close>

theorem busd_stays_bounded:
  assumes "busd_setup sock bnd lst = Inr s0" "\<forall>b \<in> set bs. \<forall>(acc, rcv, ev) \<in> set b. recv_ok rcv"
  shows "(live_run sock (concat bs) s0 \<longrightarrow> (\<exists>s. busd_loop sock bs s0 = Inr s \<and> 0 \<le> num_clients s))
    \<and> (case busd_loop sock bs s0 of Inl e \<Rightarrow> e = OutOfBounds
       | Inr s \<Rightarrow> length (subs s) \<le> 256 \<and> length (clients s) = 64 \<and> num_clients s \<le> 64
          \<and> (\<forall>u \<in> set (subs s). distinct (s_ids u) \<and> length (s_ids u) \<le> 64 \<and> length (s_topic u) \<le> 127)
          \<and> (\<forall>c \<in> set (clients s). length (c_buf c) \<le> 8191)
          \<and> (\<forall>acc rcv ev e. handle_event sock acc rcv ev s = Inl e \<longleftrightarrow> e = OutOfBounds
               \<and> (if e_data ev = sock then 0 \<le> acc \<and> num_clients s < 0 else e_data ev < 0 \<or> 64 \<le> e_data ev)))"
proof
  have s0: "s0 = busd_start sock" using assms(1) by (auto simp: busd_setup_def split: if_splits)
  then have b: "busd_bounded s0" "0 \<le> num_clients s0" by (simp add: busd_start_bounded) (simp add: s0 busd_start_def)
  have r: "\<forall>(acc, rcv, ev) \<in> set (concat bs). recv_ok rcv" using assms(2) by auto
  show "live_run sock (concat bs) s0 \<longrightarrow> (\<exists>s. busd_loop sock bs s0 = Inr s \<and> 0 \<le> num_clients s)"
    using busd_batch_live [OF b r] by (simp add: busd_loop_concat)
  show "case busd_loop sock bs s0 of Inl e \<Rightarrow> e = OutOfBounds
       | Inr s \<Rightarrow> length (subs s) \<le> 256 \<and> length (clients s) = 64 \<and> num_clients s \<le> 64
          \<and> (\<forall>u \<in> set (subs s). distinct (s_ids u) \<and> length (s_ids u) \<le> 64 \<and> length (s_topic u) \<le> 127)
          \<and> (\<forall>c \<in> set (clients s). length (c_buf c) \<le> 8191)
          \<and> (\<forall>acc rcv ev e. handle_event sock acc rcv ev s = Inl e \<longleftrightarrow> e = OutOfBounds
               \<and> (if e_data ev = sock then 0 \<le> acc \<and> num_clients s < 0 else e_data ev < 0 \<or> 64 \<le> e_data ev))"
  proof (cases "busd_loop sock bs s0")
    case (Inr s)
    then have "busd_bounded s" using busd_batch_bounded [OF b(1) r, of sock] by (simp add: busd_loop_concat)
    note f = handle_event_fails [OF this] and this
    then show ?thesis
      by (simp add: Inr busd_bounded_def subs_bounded_def sub_bounded_def max_subs_def max_clients_def buf_size_def) fastforce
  qed (use busd_batch_bounded [OF b(1) r, of sock] in \<open>simp add: busd_loop_concat\<close>)
qed

theorem busd_stays_bounded_witness:
  "\<exists>s. busd_loop 3 [[(5, \<lambda>_ _. [], \<lparr>e_data = 3, e_in = True, e_hup = False\<rparr>)], [(0, \<lambda>_ _. [], \<lparr>e_data = 0, e_in = False, e_hup = True\<rparr>)]]
      (busd_start 3) = Inr s \<and> 0 \<le> num_clients s"
proof -
  let ?bs = "[[(5, \<lambda>_ _. [], \<lparr>e_data = 3, e_in = True, e_hup = False\<rparr>)], [(0, \<lambda>_ _. [], \<lparr>e_data = 0, e_in = False, e_hup = True\<rparr>)]]
    :: busd_input list list"
  have "busd_setup 3 0 0 = Inr (busd_start 3)" by (simp add: busd_setup_def)
  moreover have "\<forall>b \<in> set ?bs. \<forall>(acc, rcv, ev) \<in> set b. recv_ok rcv" by (simp add: recv_ok_def)
  moreover have "live_run 3 (concat ?bs) (busd_start 3)"
    by (simp add: event_live_def handle_event_def accept_client_def busd_start_def max_clients_def)
  ultimately show ?thesis using busd_stays_bounded [of 3 0 0 "busd_start 3" ?bs] by blast
qed

section \<open>Event data words\<close>

text \<open>
  A registration is good while the data word of every connected client is its index in the client
  array: then an event for the index is handled on the client that caused it.
\<close>

definition fd_at :: "busd \<Rightarrow> nat \<Rightarrow> int" where
  "fd_at s i = c_fd (clients s ! i)"

definition regs_ok :: "busd \<Rightarrow> bool" where
  "regs_ok s \<longleftrightarrow> 0 \<le> num_clients s \<and> num_clients s \<le> int (length (clients s))
     \<and> inj_on (fd_at s) {i. int i < num_clients s}
     \<and> (\<forall>i. int i < num_clients s \<longrightarrow> regs s (fd_at s i) = Some (int i))"

lemma shift_down_nth:
  assumes "idx \<le> j" "j < n - 1" "n \<le> length cs"
  shows "shift_down idx n cs ! j = cs ! Suc j"
proof -
  have "shift_down idx n cs ! j = (take (n - Suc idx) (drop (Suc idx) cs) @ drop (n - 1) cs) ! (j - idx)"
    using assms by (simp add: shift_down_def nth_append)
  also have "\<dots> = (take (n - Suc idx) (drop (Suc idx) cs)) ! (j - idx)"
    using assms by (simp add: nth_append less_diff_conv)
  also have "\<dots> = cs ! Suc j" using assms by simp
  finally show ?thesis .
qed

text \<open>
  C35. Registrations are made once, at accept, while remove_client moves later clients down: exactly the
  removal of the most recent client leaves the remaining data words right.
\<close>

theorem removal_breaks_registrations:
  assumes "regs_ok s" and "int idx < num_clients s"
  shows "regs_ok (remove_client idx s) \<longleftrightarrow> int idx = num_clients s - 1"
proof
  assume last: "int idx = num_clients s - 1"
  have ne: "fd_at s i \<noteq> fd_at s idx" if "int i < num_clients s - 1" for i
  proof -
    have "inj_on (fd_at s) {i. int i < num_clients s}" using assms(1) by (simp add: regs_ok_def)
    then have "fd_at s i = fd_at s idx \<longleftrightarrow> i = idx"
      by (rule inj_on_eq_iff) (use that last in auto)
    then show ?thesis using that last by auto
  qed
  have sub: "inj_on (fd_at s) {i. int i < num_clients s - 1}"
    using assms(1) by (auto simp: regs_ok_def intro: inj_on_subset)
  show "regs_ok (remove_client idx s)"
    using assms last ne sub
    by (auto simp: regs_ok_def remove_client_def Let_def fd_at_def [abs_def])
next
  assume ok: "regs_ok (remove_client idx s)"
  show "int idx = num_clients s - 1"
  proof (rule ccontr)
    assume "int idx \<noteq> num_clients s - 1"
    then have lt: "int idx < num_clients s - 1" using assms(2) by simp
    let ?t = "remove_client idx s"
    have len: "nat (num_clients s) \<le> length (clients s)" using assms(1) unfolding regs_ok_def by linarith
    have fd: "fd_at ?t idx = fd_at s (Suc idx)"
      using lt len shift_down_nth [of idx idx "nat (num_clients s)" "clients s"]
      by (simp add: fd_at_def remove_client_def Let_def)
    have "inj_on (fd_at s) {i. int i < num_clients s}" using assms(1) by (simp add: regs_ok_def)
    then have "fd_at s (Suc idx) = fd_at s idx \<longleftrightarrow> Suc idx = idx"
      by (rule inj_on_eq_iff) (use lt in auto)
    then have "fd_at s (Suc idx) \<noteq> fd_at s idx" by simp
    then have "regs ?t (fd_at s (Suc idx)) = regs s (fd_at s (Suc idx))"
      by (simp add: remove_client_def Let_def fd_at_def)
    also have "\<dots> = Some (int (Suc idx))"
      using assms(1) lt unfolding regs_ok_def by (metis add.commute less_diff_eq of_nat_Suc)
    finally have "regs ?t (fd_at ?t idx) = Some (int (Suc idx))" using fd by simp
    moreover have "num_clients ?t = num_clients s - 1" by (simp add: remove_client_def Let_def)
    then have "regs ?t (fd_at ?t idx) = Some (int idx)" using ok lt by (simp add: regs_ok_def)
    ultimately show False by simp
  qed
qed

definition demo_busd :: busd where
  "demo_busd = (busd_start 3)\<lparr>clients := [\<lparr>c_fd = 5, c_buf = []\<rparr>, \<lparr>c_fd = 6, c_buf = []\<rparr>], num_clients := 2,
     regs := (\<lambda>_. None)(5 \<mapsto> 0, 6 \<mapsto> 1)\<rparr>"

theorem removal_breaks_registrations_witness:
  "\<not> regs_ok (remove_client 0 demo_busd)"
proof -
  have two: "{i. int i < 2} = {0, 1}" by auto
  have "regs_ok demo_busd"
    unfolding regs_ok_def demo_busd_def fd_at_def
    by (simp add: busd_start_def two inj_on_def) (auto simp: less_Suc_eq nth_Cons')
  from removal_breaks_registrations [OF this, of 0] show ?thesis by (simp add: demo_busd_def)
qed

fun run_events :: "int \<Rightarrow> (int \<times> epoll_event) list \<Rightarrow> busd \<Rightarrow> busd cres" where
  "run_events srv [] s = Inr s"
| "run_events srv ((acc, ev) # es) s =
    (case handle_event srv acc (\<lambda>_ _. []) ev s of Inl e \<Rightarrow> Inl e | Inr t \<Rightarrow> run_events srv es t)"

definition connect_ev :: epoll_event where
  "connect_ev = \<lparr>e_data = 3, e_in = True, e_hup = False\<rparr>"

definition hup_ev :: "int \<Rightarrow> epoll_event" where
  "hup_ev d = \<lparr>e_data = d, e_in = False, e_hup = True\<rparr>"

definition stale_run :: "(int \<times> epoll_event) list" where
  "stale_run = [(5, connect_ev), (6, connect_ev), (7, connect_ev),
     (0, hup_ev 0), (0, hup_ev 2), (0, hup_ev 1), (0, hup_ev 1)]"

text \<open>
  The consequence in a run: three clients connect, the first and the third hang up, and the two
  hang-up reports of the second, whose data word is stale, are charged to the third. The count
  reaches -1 with the second client still registered, and the next connection is stored in front of
  the array.
\<close>

theorem stale_index_run:
  "map_sum id (\<lambda>s. (num_clients s, regs s 6, closed s)) (run_events 3 stale_run (busd_start 3))
      = Inr (-1, Some 1, [7, 7, 7, 5])
    \<and> run_events 3 (stale_run @ [(8, connect_ev)]) (busd_start 3) = Inl OutOfBounds"
  by (simp add: stale_run_def connect_ev_def hup_ev_def handle_event_def accept_client_def
      remove_client_def busd_start_def max_clients_def shift_down_def numeral_eq_Suc)

text \<open>
  The data word of an epoll registration is a union: the client whose index equals the descriptor
  of the listening socket is taken for the listener. Its bytes are never read; the daemon calls
  accept instead.
\<close>

theorem listener_index_confusion:
  assumes "num_clients s = srv" and "0 \<le> srv" "srv < 64" and "0 \<le> cfd"
    and "accept_client cfd s = Inr t"
  shows "regs t cfd = Some srv
    \<and> handle_event srv acc rcv \<lparr>e_data = the (regs t cfd), e_in = True, e_hup = h\<rparr> t = accept_client acc t"
proof -
  have "regs t cfd = Some srv"
    using assms by (auto simp: accept_client_def max_clients_def)
  then show ?thesis by (simp add: handle_event_def)
qed

theorem listener_index_confusion_witness:
  "\<exists>t. accept_client 8 ((busd_start 3)\<lparr>num_clients := 3\<rparr>) = Inr t
    \<and> handle_event 3 (-1) (\<lambda>_ _. ''PING'' @ [NL]) \<lparr>e_data = the (regs t 8), e_in = True, e_hup = False\<rparr> t
      = accept_client (-1) t"
proof -
  obtain t where t: "accept_client 8 ((busd_start 3)\<lparr>num_clients := 3\<rparr>) = Inr t"
    by (simp add: accept_client_def max_clients_def)
  have n: "num_clients ((busd_start 3)\<lparr>num_clients := 3\<rparr>) = 3" by simp
  have b: "(0::int) \<le> 3" "(3::int) < 64" "(0::int) \<le> 8" by simp_all
  show ?thesis
    using listener_index_confusion [OF n b t, of "-1" "\<lambda>_ _. ''PING'' @ [NL]" False] t by blast
qed

lemma do_sub_new:
  "find_sub t ss = None \<Longrightarrow> length ss < 256 \<Longrightarrow> do_sub fd t ss = ss @ [\<lparr>s_topic = take 127 t, s_ids = [fd]\<rparr>]"
  by (simp add: do_sub_def sub_slot_def max_subs_def join_ids_def max_clients_def list_update_append)

text \<open>
  Topic names of 128 to 255 bytes are cut to 127 when stored but compared whole: the second
  subscription of the same client makes a second entry, a cancellation finds none, and every
  publication on the stored prefix reaches the client twice.
\<close>

theorem long_topic_subscriptions:
  assumes "127 < length t" and "length ss + 2 \<le> 256" and "find_sub t ss = None"
  shows "do_sub fd t (do_sub fd t ss) = ss @ replicate 2 \<lparr>s_topic = take 127 t, s_ids = [fd]\<rparr>
    \<and> do_unsub fd t (do_sub fd t ss) = do_sub fd t ss"
proof -
  have "length (take 127 t) \<noteq> length t" using assms(1) by simp
  then have ne: "take 127 t \<noteq> t" by metis
  have one: "do_sub fd t ss = ss @ [\<lparr>s_topic = take 127 t, s_ids = [fd]\<rparr>]"
    using assms(2,3) by (intro do_sub_new) simp_all
  have none: "find_sub t (do_sub fd t ss) = None"
    using assms(3) ne by (simp add: find_sub_None one) (metis ne)
  have "do_sub fd t (do_sub fd t ss) = do_sub fd t ss @ [\<lparr>s_topic = take 127 t, s_ids = [fd]\<rparr>]"
    using none assms(2) one by (intro do_sub_new) simp_all
  then show ?thesis using none one by (simp add: do_unsub_def numeral_2_eq_2)
qed

theorem long_topic_subscriptions_witness:
  "length (do_sub 5 (replicate 128 (CHR ''a'')) (do_sub 5 (replicate 128 (CHR ''a'')) [])) = 2"
  using long_topic_subscriptions [of "replicate 128 (CHR ''a'')" "[]" 5] by (simp add: find_sub_def)

section \<open>The daemon as a receiver\<close>

interpretation busd_rx: line_receiver client_bytes 8191 "\<lambda>l. [l]"
proof unfold_locales
  show "client_bytes buf bs = (snd (split_lines (buf @ bs)), concat (map (\<lambda>l. [l]) (fst (split_lines (buf @ bs)))))"
    for buf bs by (simp add: client_bytes_def case_prod_beta)
qed

end
