(* ===== verification/BB_Json.thy ===== *)
theory BB_Json
  imports BB_CString
begin

text \<open>
  The JSON writer and reader of \<open>libbb/bb_json.c\<close>. The writer prints into a fixed buffer and adds
  the untruncated length that \<open>snprintf\<close> reports to its position; a print that starts past the end
  of the buffer has a wrapped size argument, which the model reports as OutOfBounds. The reader
  searches the text for the quoted key, without parsing.
\<close>

section \<open>Writer\<close>

record bb_json_writer_t =
  jbuf :: string
  jpos :: nat

abbreviation jsize :: "bb_json_writer_t \<Rightarrow> nat" where
  "jsize w \<equiv> length (jbuf w)"

definition write_at :: "nat \<Rightarrow> string \<Rightarrow> string \<Rightarrow> string" where
  "write_at p xs b = take p b @ xs @ drop (p + length xs) b"

definition bb_json_init :: "string \<Rightarrow> bb_json_writer_t cres" where
  "bb_json_init b = (if b = [] then Inl OutOfBounds else Inr \<lparr>jbuf = b[0 := NUL], jpos = 0\<rparr>)"

definition put_char :: "char \<Rightarrow> bb_json_writer_t \<Rightarrow> bb_json_writer_t" where
  "put_char c w = (if jpos w < jsize w then w\<lparr>jbuf := (jbuf w)[jpos w := c], jpos := jpos w + 1\<rparr> else w)"

definition bb_json_start_object :: "bb_json_writer_t \<Rightarrow> bb_json_writer_t" where
  "bb_json_start_object w = put_char (CHR ''{'') w"

text \<open>The trailing comma is read back from the buffer.\<close>

definition bb_json_end_object :: "bb_json_writer_t \<Rightarrow> bb_json_writer_t cres" where
  "bb_json_end_object w =
    (if jpos w > 1 \<and> jpos w - 1 \<ge> jsize w then Inl OutOfBounds
     else let w1 = (if jpos w > 1 \<and> jbuf w ! (jpos w - 1) = CHR '','' then w\<lparr>jpos := jpos w - 1\<rparr> else w);
              w2 = put_char (CHR ''}'') w1
          in Inr (if jpos w2 < jsize w2 then w2\<lparr>jbuf := (jbuf w2)[jpos w2 := NUL]\<rparr> else w2))"

text \<open>
  \<open>snprintf (buf + pos, size - pos, txt)\<close>: at most \<open>size - pos - 1\<close> bytes and a NUL, nothing when
  the size is 0; the position moves by the whole length.
\<close>

definition sn_print :: "string \<Rightarrow> bb_json_writer_t \<Rightarrow> bb_json_writer_t cres" where
  "sn_print txt w =
    (if jpos w > jsize w then Inl OutOfBounds
     else let room = jsize w - jpos w;
              out = (if room = 0 then [] else take (room - 1) txt @ [NUL])
          in Inr (w\<lparr>jbuf := write_at (jpos w) out (jbuf w), jpos := jpos w + length txt\<rparr>))"

definition add_key :: "string \<Rightarrow> bb_json_writer_t \<Rightarrow> bb_json_writer_t cres" where
  "add_key key w = sn_print (quoted key @ '':'') w"

definition add_value :: "string \<Rightarrow> string \<Rightarrow> bb_json_writer_t \<Rightarrow> bb_json_writer_t cres" where
  "add_value key txt w =
    (case add_key key w of Inl e \<Rightarrow> Inl e | Inr w1 \<Rightarrow> sn_print (txt @ '','') w1)"

definition bb_json_add_string :: "string \<Rightarrow> string option \<Rightarrow> bb_json_writer_t \<Rightarrow> bb_json_writer_t cres" where
  "bb_json_add_string key val w =
    add_value key (quoted (case val of None \<Rightarrow> [] | Some v \<Rightarrow> v)) w"

definition bb_json_add_int :: "string \<Rightarrow> int \<Rightarrow> bb_json_writer_t \<Rightarrow> bb_json_writer_t cres" where
  "bb_json_add_int key val w = add_value key (dec_int val) w"

definition bb_json_add_bool :: "string \<Rightarrow> int \<Rightarrow> bb_json_writer_t \<Rightarrow> bb_json_writer_t cres" where
  "bb_json_add_bool key val w = add_value key (if val \<noteq> 0 then ''true'' else ''false'') w"

text \<open>The text of a double is the C library's \<open>%.3f\<close>, a parameter.\<close>

definition bb_json_add_double :: "('d \<Rightarrow> string) \<Rightarrow> string \<Rightarrow> 'd \<Rightarrow> bb_json_writer_t \<Rightarrow> bb_json_writer_t cres" where
  "bb_json_add_double fmt3 key val w = add_value key (fmt3 val) w"

section \<open>Reader\<close>

text \<open>The result of find_key is the rest of the text from the value on.\<close>

definition find_key :: "string \<Rightarrow> string \<Rightarrow> string option" where
  "find_key json key =
    (let search = take 127 (quoted key) in
     case strstr json search of None \<Rightarrow> None
     | Some i \<Rightarrow> Some (dropWhile (\<lambda>c. c = CHR '' '' \<or> c = CHR '':'') (drop (i + length search) json)))"

text \<open>The copy loop into the static 256-byte buffer; n is the space left before the NUL.\<close>

fun unescape :: "nat \<Rightarrow> string \<Rightarrow> string" where
  "unescape n [] = []"
| "unescape 0 (c # p) = []"
| "unescape (Suc n) (c # p) =
    (if c = QUOTE then []
     else if c = BACKSLASH then
       (case p of [] \<Rightarrow> c # unescape n p
        | d # p' \<Rightarrow> (if d = CHR ''n'' then NL else if d = CHR ''t'' then TAB else d) # unescape n p')
     else c # unescape n p)"

definition bb_json_get_string :: "string \<Rightarrow> string \<Rightarrow> string option" where
  "bb_json_get_string json key =
    (case find_key json key of
       None \<Rightarrow> None
     | Some p \<Rightarrow> if p = [] \<or> hd p \<noteq> QUOTE then None else Some (unescape 255 (tl p)))"

definition bb_json_get_int :: "string \<Rightarrow> string \<Rightarrow> int \<Rightarrow> int cres" where
  "bb_json_get_int json key default_val =
    (case find_key json key of None \<Rightarrow> Inr default_val | Some p \<Rightarrow> atoi p)"

definition bb_json_get_bool :: "string \<Rightarrow> string \<Rightarrow> int \<Rightarrow> int" where
  "bb_json_get_bool json key default_val =
    (case find_key json key of None \<Rightarrow> default_val
     | Some p \<Rightarrow> if prefix ''true'' p then 1 else if prefix ''false'' p then 0 else default_val)"

definition bb_json_get_double :: "(string \<Rightarrow> 'd) \<Rightarrow> string \<Rightarrow> string \<Rightarrow> 'd \<Rightarrow> 'd" where
  "bb_json_get_double atof json key default_val =
    (case find_key json key of None \<Rightarrow> default_val | Some p \<Rightarrow> atof p)"

section \<open>Objects\<close>

text \<open>What a caller of the writer adds between start and end, and the text it means to get.\<close>

datatype field = FStr string string | FInt string int | FBool string bool

fun field_key :: "field \<Rightarrow> string" where
  "field_key (FStr k v) = k"
| "field_key (FInt k i) = k"
| "field_key (FBool k b) = k"

fun value_text :: "field \<Rightarrow> string" where
  "value_text (FStr k v) = quoted v"
| "value_text (FInt k i) = dec_int i"
| "value_text (FBool k b) = (if b then ''true'' else ''false'')"

definition field_text :: "field \<Rightarrow> string" where
  "field_text f = quoted (field_key f) @ '':'' @ value_text f"

fun fields_text :: "field list \<Rightarrow> string" where
  "fields_text [] = []"
| "fields_text [f] = field_text f"
| "fields_text (f # g # fs) = field_text f @ '','' @ fields_text (g # fs)"

definition object_text :: "field list \<Rightarrow> string" where
  "object_text fs = ''{'' @ fields_text fs @ ''}''"

fun add_field :: "field \<Rightarrow> bb_json_writer_t \<Rightarrow> bb_json_writer_t cres" where
  "add_field (FStr k v) w = bb_json_add_string k (Some v) w"
| "add_field (FInt k i) w = bb_json_add_int k i w"
| "add_field (FBool k b) w = bb_json_add_bool k (of_bool b) w"

fun add_fields :: "field list \<Rightarrow> bb_json_writer_t \<Rightarrow> bb_json_writer_t cres" where
  "add_fields [] w = Inr w"
| "add_fields (f # fs) w = (case add_field f w of Inl e \<Rightarrow> Inl e | Inr w' \<Rightarrow> add_fields fs w')"

definition write_object :: "field list \<Rightarrow> string \<Rightarrow> bb_json_writer_t cres" where
  "write_object fs b =
    (case bb_json_init b of Inl e \<Rightarrow> Inl e | Inr w \<Rightarrow>
      (case add_fields fs (bb_json_start_object w) of Inl e \<Rightarrow> Inl e | Inr w' \<Rightarrow> bb_json_end_object w'))"

lemma add_field_value: "add_field f w = add_value (field_key f) (value_text f) w"
  by (cases f) (simp_all add: bb_json_add_string_def bb_json_add_int_def bb_json_add_bool_def)

section \<open>Printing that fits\<close>

text \<open>The writer holds a text that fits: the text, a NUL unless only \<open>{\<close> was written, and the rest.\<close>

definition holds :: "string \<Rightarrow> nat \<Rightarrow> bb_json_writer_t \<Rightarrow> bool" where
  "holds t n w \<longleftrightarrow> jsize w = n \<and> jpos w = length t \<and> length t < n \<and> take (length t) (jbuf w) = t"

lemma length_write_at:
  "p + length xs \<le> length b \<Longrightarrow> length (write_at p xs b) = length b"
  by (simp add: write_at_def)

lemma sn_print_holds:
  assumes "holds t n w" and "length t + length txt < n"
  shows "\<exists>w'. sn_print txt w = Inr w' \<and> holds (t @ txt) n w'"
  using assms by (auto simp: sn_print_def holds_def write_at_def Let_def)

lemma put_char_holds:
  assumes "holds t n w" and "Suc (length t) < n"
  shows "holds (t @ [c]) n (put_char c w)"
proof -
  have "take (Suc (length t)) ((jbuf w)[length t := c]) = t @ [c]"
    using assms by (simp add: holds_def take_Suc_conv_app_nth)
  then show ?thesis using assms by (simp add: holds_def put_char_def)
qed

lemma add_field_holds:
  assumes "holds t n w" and "length t + length (field_text f) + 1 < n"
  shows "\<exists>w'. add_field f w = Inr w' \<and> holds (t @ field_text f @ '','') n w'"
proof -
  have "length t + length (quoted (field_key f) @ '':'') < n"
    using assms(2) by (simp add: field_text_def)
  from sn_print_holds [OF assms(1) this] obtain w1 where
    w1: "add_key (field_key f) w = Inr w1" "holds (t @ quoted (field_key f) @ '':'') n w1"
    by (auto simp: add_key_def)
  have "length (t @ quoted (field_key f) @ '':'') + length (value_text f @ '','') < n"
    using assms(2) by (simp add: field_text_def)
  from sn_print_holds [OF w1(2) this] show ?thesis
    by (auto simp: add_field_value add_value_def w1(1) field_text_def)
qed

definition field_chunks :: "field list \<Rightarrow> string" where
  "field_chunks fs = concat (map (\<lambda>f. field_text f @ '','') fs)"

lemma field_chunks_text: "fs \<noteq> [] \<Longrightarrow> field_chunks fs = fields_text fs @ '',''"
  by (induction fs rule: fields_text.induct) (simp_all add: field_chunks_def)

lemma add_fields_holds:
  assumes "holds t n w" and "length t + length (field_chunks fs) < n"
  shows "\<exists>w'. add_fields fs w = Inr w' \<and> holds (t @ field_chunks fs) n w'"
  using assms
proof (induction fs arbitrary: t w)
  case Nil
  then show ?case by (simp add: field_chunks_def)
next
  case (Cons f fs)
  have "length t + length (field_text f) + 1 < n" using Cons.prems(2) by (simp add: field_chunks_def)
  from add_field_holds [OF Cons.prems(1) this] obtain w1 where
    w1: "add_field f w = Inr w1" "holds (t @ field_text f @ '','') n w1" by blast
  have "length (t @ field_text f @ '','') + length (field_chunks fs) < n"
    using Cons.prems(2) by (simp add: field_chunks_def)
  from Cons.IH [OF w1(2) this] show ?case by (auto simp: w1(1) field_chunks_def)
qed

definition plain :: "string \<Rightarrow> bool" where
  "plain s \<longleftrightarrow> QUOTE \<notin> set s \<and> BACKSLASH \<notin> set s \<and> NUL \<notin> set s"

fun plain_field :: "field \<Rightarrow> bool" where
  "plain_field (FStr k v) = (plain k \<and> plain v)"
| "plain_field (FInt k i) = (plain k \<and> in_int32 i)"
| "plain_field (FBool k b) = plain k"

lemma plain_field_nul: "plain_field f \<Longrightarrow> NUL \<notin> set (field_text f)"
  by (cases f) (auto simp: field_text_def quoted_def plain_def)

lemma fields_text_nul: "list_all plain_field fs \<Longrightarrow> NUL \<notin> set (fields_text fs)"
  by (induction fs rule: fields_text.induct) (auto simp: plain_field_nul)

lemma object_text_nul: "list_all plain_field fs \<Longrightarrow> NUL \<notin> set (object_text fs)"
  by (simp add: object_text_def fields_text_nul)

lemma take_update_next: "n < length b \<Longrightarrow> take (Suc n) (b[n := c]) = take n b @ [c]"
  by (simp add: take_Suc_conv_app_nth)

lemma end_object_trim:
  assumes "holds (t @ '','') n w" and "t \<noteq> []"
  shows "\<exists>w'. bb_json_end_object w = Inr w' \<and> holds (t @ ''}'') n w' \<and> jbuf w' ! jpos w' = NUL"
proof -
  let ?k = "length t"
  have w: "jsize w = n" "jpos w = Suc ?k" "Suc ?k < n" "take (Suc ?k) (jbuf w) = t @ '',''"
    using assms by (auto simp: holds_def)
  have comma: "jbuf w ! ?k = CHR '',''"
    using w by (metis nth_append_length nth_take lessI)
  have tk: "take ?k (jbuf w) = t"
    using w(4) by (metis append_eq_conv_conj take_take min_def Suc_n_not_le_n nat_le_linear)
  let ?b = "((jbuf w)[?k := CHR ''}''])[Suc ?k := NUL]"
  have "bb_json_end_object w = Inr (w\<lparr>jbuf := ?b, jpos := Suc ?k\<rparr>)"
    using w comma assms(2) by (simp add: bb_json_end_object_def put_char_def Let_def not_le)
  moreover have "take (Suc ?k) ?b = t @ ''}''"
    using w(1,3) tk by (simp add: take_update_next)
  ultimately show ?thesis using w by (simp add: holds_def)
qed

lemma end_object_empty:
  assumes "holds ''{'' n w" and "2 < n"
  shows "\<exists>w'. bb_json_end_object w = Inr w' \<and> holds ''{}'' n w' \<and> jbuf w' ! jpos w' = NUL"
proof -
  have w: "jsize w = n" "jpos w = 1" "take 1 (jbuf w) = ''{''" using assms by (auto simp: holds_def)
  let ?b = "((jbuf w)[1 := CHR ''}''])[2 := NUL]"
  have "bb_json_end_object w = Inr (w\<lparr>jbuf := ?b, jpos := 2\<rparr>)"
    using w assms(2) by (simp add: bb_json_end_object_def put_char_def Let_def numeral_2_eq_2)
  moreover have "take 2 ?b = ''{}''"
    using w assms(2) take_update_next [of 1 "jbuf w" "CHR ''}''"] by (simp add: numeral_2_eq_2)
  ultimately show ?thesis using w assms(2) by (simp add: holds_def numeral_2_eq_2)
qed

lemma holds_cstr:
  assumes "holds t n w" and "jbuf w ! jpos w = NUL" and "NUL \<notin> set t"
  shows "cstr (jbuf w) = t"
proof -
  have "jbuf w = take (length t) (jbuf w) @ jbuf w ! length t # drop (Suc (length t)) (jbuf w)"
    using assms(1) by (intro id_take_nth_drop) (simp add: holds_def)
  then have "jbuf w = t @ NUL # drop (Suc (length t)) (jbuf w)"
    using assms by (simp add: holds_def)
  then show ?thesis using assms(3) cstr_append_nul by metis
qed

section \<open>The writer's contract\<close>

lemma json_writes:
  assumes "list_all plain_field fs" and "length (object_text fs) < length b"
  shows "\<exists>w. write_object fs b = Inr w \<and> cstr (jbuf w) = object_text fs
    \<and> jpos w = length (object_text fs) \<and> jsize w = length b"
proof -
  let ?n = "length b"
  have ne: "b \<noteq> []" "1 < ?n" "2 < ?n" using assms(2) by (auto simp: object_text_def)
  let ?w0 = "\<lparr>jbuf = b[0 := NUL], jpos = 0\<rparr>"
  have "holds [] ?n ?w0" using ne by (simp add: holds_def)
  then have "holds ([] @ ''{'') ?n (bb_json_start_object ?w0)"
    unfolding bb_json_start_object_def using ne by (intro put_char_holds) simp_all
  then have start: "holds ''{'' ?n (bb_json_start_object ?w0)" by simp
  have "\<exists>w1 w. add_fields fs (bb_json_start_object ?w0) = Inr w1 \<and> bb_json_end_object w1 = Inr w
    \<and> holds (object_text fs) ?n w \<and> jbuf w ! jpos w = NUL"
  proof (cases "fs = []")
    case True
    then show ?thesis using end_object_empty [OF start ne(3)] by (simp add: object_text_def)
  next
    case False
    have chunks: "field_chunks fs = fields_text fs @ '',''" by (rule field_chunks_text [OF False])
    have "length ''{'' + length (field_chunks fs) < ?n"
      using assms(2) by (simp add: chunks object_text_def)
    from add_fields_holds [OF start this] obtain w1 where
      w1: "add_fields fs (bb_json_start_object ?w0) = Inr w1" "holds (''{'' @ field_chunks fs) ?n w1"
      by blast
    have "holds ((''{'' @ fields_text fs) @ '','') ?n w1" using w1(2) by (simp add: chunks)
    from end_object_trim [OF this] w1(1) show ?thesis by (simp add: object_text_def)
  qed
  then obtain w1 w where w: "add_fields fs (bb_json_start_object ?w0) = Inr w1"
    "bb_json_end_object w1 = Inr w" "holds (object_text fs) ?n w" "jbuf w ! jpos w = NUL" by blast
  have "write_object fs b = Inr w" using w ne by (simp add: write_object_def bb_json_init_def)
  moreover have "cstr (jbuf w) = object_text fs"
    by (rule holds_cstr [OF w(3,4) object_text_nul [OF assms(1)]])
  ultimately show ?thesis using w(3) by (simp add: holds_def)
qed

text \<open>
  C31. An object whose text fits the buffer with its NUL is written exactly: opening brace, the members
  in order, separated by commas without a trailing one, and the closing brace.
\<close>

theorem json_write_exact:
  assumes "list_all plain_field fs" and "length (object_text fs) < length b"
  shows "\<exists>w. write_object fs b = Inr w \<and> cstr (jbuf w) = object_text fs
    \<and> jpos w = length (object_text fs) \<and> jsize w = length b"
  by (rule json_writes [OF assms])

theorem json_write_exact_witness:
  "\<exists>w. write_object [FStr ''state'' ''on'', FInt ''n'' (-7), FBool ''ok'' True] (replicate 36 NUL) = Inr w
    \<and> cstr (jbuf w) = [CHR ''{'', QUOTE] @ ''state'' @ [QUOTE, CHR '':'', QUOTE] @ ''on'' @ [QUOTE, CHR '','',
        QUOTE, CHR ''n'', QUOTE] @ '':-7,'' @ [QUOTE] @ ''ok'' @ [QUOTE] @ '':true}''"
proof -
  let ?fs = "[FStr ''state'' ''on'', FInt ''n'' (-7), FBool ''ok'' True]"
  have p: "list_all plain_field ?fs" by (simp add: plain_def in_int32_def)
  have t: "object_text ?fs = [CHR ''{'', QUOTE] @ ''state'' @ [QUOTE, CHR '':'', QUOTE] @ ''on'' @ [QUOTE, CHR '','',
        QUOTE, CHR ''n'', QUOTE] @ '':-7,'' @ [QUOTE] @ ''ok'' @ [QUOTE] @ '':true}''"
    by code_simp
  show ?thesis using json_write_exact [OF p, of "replicate 36 NUL"] unfolding t by auto
qed

text \<open>
  Without room the position runs past the buffer: a key whose text does not fit leaves the writer
  with a position beyond the size, and the very next print of the same call has a wrapped size
  argument, so it writes outside the buffer.
\<close>

theorem json_overflow_out_of_bounds:
  assumes "jpos w \<le> jsize w" and "jsize w < jpos w + length (field_key f) + 3"
  shows "add_field f w = Inl OutOfBounds"
proof -
  have len: "length (quoted k) = length k + 2" for k by (simp add: quoted_def)
  have "length (write_at (jpos w) (if jsize w - jpos w = 0 then []
      else take (jsize w - jpos w - 1) (quoted (field_key f) @ '':'') @ [NUL]) (jbuf w)) = jsize w"
    by (rule trans [OF length_write_at]) (use assms len in auto)
  then show ?thesis
    using assms by (simp add: add_field_value add_value_def add_key_def sn_print_def Let_def len)
qed

theorem json_overflow_out_of_bounds_witness:
  "bb_json_add_int ''count'' 3 \<lparr>jbuf = ''{      '', jpos = 1\<rparr> = Inl OutOfBounds"
  using json_overflow_out_of_bounds [of "\<lparr>jbuf = ''{      '', jpos = 1\<rparr>" "FInt ''count'' 3"] by simp

section \<open>Reading back\<close>

lemma quoted_Cons: "quoted k = QUOTE # k @ [QUOTE]"
  by (simp add: quoted_def)

text \<open>The search passes over a quoted text that is another one.\<close>

lemma strstr_pass_quoted:
  assumes "QUOTE \<notin> set s" "QUOTE \<notin> set k" "k \<noteq> []" "s \<noteq> k" "c \<noteq> hd k" "c \<noteq> QUOTE"
  shows "strstr (quoted s @ c # ys) (quoted k)
    = shift (length s + 3) (strstr ys (quoted k))"
proof -
  have one: "\<not> prefix (quoted k) (QUOTE # s @ QUOTE # c # ys)"
    using prefix_quoted [of QUOTE k s] assms by (auto simp: quoted_Cons)
  have two: "\<not> prefix (quoted k) (QUOTE # c # ys)"
    using assms by (cases k) (auto simp: quoted_Cons)
  have "strstr (quoted s @ c # ys) (quoted k)
    = shift 1 (strstr (s @ QUOTE # c # ys) (quoted k))"
    using strstr_Cons_no [OF one] by (simp add: quoted_Cons)
  also have "strstr (s @ QUOTE # c # ys) (quoted k)
    = shift (length s) (strstr (QUOTE # c # ys) (quoted k))"
    using assms(1) by (simp add: quoted_Cons strstr_skip)
  also have "strstr (QUOTE # c # ys) (quoted k) = shift 1 (strstr (c # ys) (quoted k))"
    by (rule strstr_Cons_no [OF two])
  also have "strstr (c # ys) (quoted k) = shift (1) (strstr ys (quoted k))"
    using strstr_skip [of QUOTE "[c]" ys] assms(6) by (simp add: quoted_Cons)
  finally show ?thesis by (simp add: numeral_3_eq_3)
qed

text \<open>Keys the reader can look up, and members that do not hide them.\<close>

definition key_ok :: "string \<Rightarrow> bool" where
  "key_ok k \<longleftrightarrow> plain k \<and> k \<noteq> [] \<and> hd k \<notin> {CHR '','', CHR '':'', CHR ''}''} \<and> length k \<le> 125"

fun hides :: "string \<Rightarrow> field \<Rightarrow> bool" where
  "hides k (FStr k' v) = (k' = k \<or> v = k)"
| "hides k (FInt k' i) = (k' = k)"
| "hides k (FBool k' b) = (k' = k)"

lemma strstr_pass_field:
  assumes "key_ok k" "plain_field g" "\<not> hides k g"
  shows "strstr (field_text g @ '','' @ ys) (quoted k)
    = shift (length (field_text g) + 1) (strstr ys (quoted k))"
proof -
  have k: "QUOTE \<notin> set k" "k \<noteq> []" "CHR '','' \<noteq> hd k" "CHR '':'' \<noteq> hd k"
    using assms(1) by (auto simp: key_ok_def plain_def)
  have gk: "QUOTE \<notin> set (field_key g)" "field_key g \<noteq> k"
    using assms(2,3) by (cases g; simp add: plain_def)+
  have key: "strstr (field_text g @ '','' @ ys) (quoted k)
    = shift (length (field_key g) + 3) (strstr (value_text g @ '','' @ ys) (quoted k))"
    using strstr_pass_quoted [OF gk(1) k(1,2) gk(2) k(4)] by (simp add: field_text_def)
  have val: "strstr (value_text g @ '','' @ ys) (quoted k)
    = shift (length (value_text g) + 1) (strstr ys (quoted k))"
  proof (cases "\<exists>k' v. g = FStr k' v")
    case True
    then obtain k' v where g: "g = FStr k' v" by blast
    then have "QUOTE \<notin> set v" "v \<noteq> k" using assms(2,3) by (auto simp: plain_def)
    from strstr_pass_quoted [OF this(1) k(1,2) this(2) k(3)] g show ?thesis
      by (simp add: quoted_def numeral_3_eq_3)
  next
    case False
    then have "QUOTE \<notin> set (value_text g @ '','')" by (cases g) auto
    from strstr_skip [OF this, of ys "k @ [QUOTE]"] show ?thesis by (simp add: quoted_Cons)
  qed
  show ?thesis
    unfolding key val by (simp add: field_text_def quoted_def numeral_3_eq_3)
qed

lemma strstr_pass_fields:
  assumes "key_ok k" "list_all plain_field gs" "list_all (\<lambda>g. \<not> hides k g) gs"
  shows "strstr (field_chunks gs @ ys) (quoted k)
    = shift (length (field_chunks gs)) (strstr ys (quoted k))"
  using assms(2,3)
proof (induction gs)
  case Nil
  show ?case by (simp add: field_chunks_def)
next
  case (Cons g gs)
  have "strstr (field_chunks (g # gs) @ ys) (quoted k)
    = shift (length (field_text g) + 1) (strstr (field_chunks gs @ ys) (quoted k))"
    using strstr_pass_field [OF assms(1), of g "field_chunks gs @ ys"] Cons.prems
    by (simp add: field_chunks_def)
  also have "strstr (field_chunks gs @ ys) (quoted k)
    = shift (length (field_chunks gs)) (strstr ys (quoted k))"
    using Cons by simp
  finally show ?case
    by (simp add: field_chunks_def)
qed

lemma fields_text_split:
  "fields_text (gs @ f # hs) = field_chunks gs @ fields_text (f # hs)"
proof (induction gs)
  case (Cons g gs)
  then show ?case by (cases gs) (simp_all add: field_chunks_def)
qed (simp add: field_chunks_def)

lemma fields_text_hd: "\<exists>r. fields_text (f # hs) @ ''}'' = field_text f @ r \<and> r \<noteq> [] \<and> hd r \<in> {CHR '','', CHR ''}''}"
  by (cases hs) auto

lemma value_text_hd: "hd (value_text f) \<noteq> CHR '' '' \<and> hd (value_text f) \<noteq> CHR '':'' \<and> value_text f \<noteq> []"
proof (cases f)
  case (FInt k i)
  have "dec_int i \<noteq> []" by (simp add: dec_int_def)
  then have "hd (dec_int i) \<in> set (dec_int i)" by simp
  then have "hd (dec_int i) = CHR ''-'' \<or> isdigit (hd (dec_int i))" by (rule dec_int_chars)
  then show ?thesis using FInt \<open>dec_int i \<noteq> []\<close> isdigit_plain(2) by fastforce
qed (simp_all add: quoted_def)

text \<open>find_key stops at the value of the member, whatever the members before it are.\<close>

lemma find_key_member:
  assumes "key_ok (field_key f)" "list_all plain_field gs" "list_all (\<lambda>g. \<not> hides (field_key f) g) gs"
  shows "\<exists>r. find_key (object_text (gs @ f # hs)) (field_key f) = Some (value_text f @ r)
    \<and> r \<noteq> [] \<and> hd r \<in> {CHR '','', CHR ''}''}"
proof -
  let ?k = "field_key f"
  obtain r where r: "fields_text (f # hs) @ ''}'' = field_text f @ r" "r \<noteq> []" "hd r \<in> {CHR '','', CHR ''}''}"
    using fields_text_hd by blast
  have json: "object_text (gs @ f # hs) = ''{'' @ field_chunks gs @ quoted ?k @ '':'' @ value_text f @ r"
    using r(1) by (simp add: object_text_def fields_text_split field_text_def)
  have search: "take 127 (quoted ?k) = quoted ?k"
    using assms(1) by (intro take_all) (simp add: key_ok_def quoted_def)
  have "prefix (quoted ?k) (quoted ?k @ '':'' @ value_text f @ r)" by simp
  then have here: "strstr (quoted ?k @ '':'' @ value_text f @ r) (quoted ?k) = Some 0"
    by (simp add: quoted_Cons)
  have "strstr (object_text (gs @ f # hs)) (quoted ?k) = Some (1 + length (field_chunks gs))"
    using strstr_skip [of QUOTE "''{''" "field_chunks gs @ quoted ?k @ '':'' @ value_text f @ r" "?k @ [QUOTE]"]
      strstr_pass_fields [OF assms, of "quoted ?k @ '':'' @ value_text f @ r"] here
    unfolding json by (simp add: quoted_Cons)
  moreover have "drop (1 + length (field_chunks gs) + length (quoted ?k)) (object_text (gs @ f # hs))
    = '':'' @ value_text f @ r" unfolding json by simp
  moreover have "dropWhile (\<lambda>c. c = CHR '' '' \<or> c = CHR '':'') ('':'' @ value_text f @ r) = value_text f @ r"
    using value_text_hd [of f] by (cases "value_text f") auto
  ultimately show ?thesis using r(2,3) search by (simp add: find_key_def Let_def)
qed

lemma unescape_plain:
  "plain v \<Longrightarrow> length v \<le> n \<Longrightarrow> unescape n (v @ QUOTE # r) = v"
proof (induction v arbitrary: n)
  case Nil
  then show ?case by (cases n) simp_all
next
  case (Cons c v)
  then obtain m where "n = Suc m" by (cases n) auto
  then show ?case using Cons by (auto simp: plain_def)
qed

fun reads_back :: "string \<Rightarrow> field \<Rightarrow> bool" where
  "reads_back json (FStr k v) = (bb_json_get_string json k = Some v)"
| "reads_back json (FInt k i) = (\<forall>d. bb_json_get_int json k d = Inr i)"
| "reads_back json (FBool k b) = (\<forall>d. bb_json_get_bool json k d = of_bool b)"

lemma object_reads_back:
  assumes "list_all plain_field (gs @ f # hs)" and "key_ok (field_key f)"
    and "list_all (\<lambda>g. \<not> hides (field_key f) g) gs"
    and "\<forall>k v. f = FStr k v \<longrightarrow> length v \<le> 255"
  shows "reads_back (object_text (gs @ f # hs)) f"
proof -
  have plain: "list_all plain_field gs" "plain_field f" using assms(1) by simp_all
  obtain r where r: "find_key (object_text (gs @ f # hs)) (field_key f) = Some (value_text f @ r)"
    "r \<noteq> []" "hd r \<in> {CHR '','', CHR ''}''}"
    using find_key_member [OF assms(2) plain(1) assms(3)] by blast
  show ?thesis
  proof (cases f)
    case (FStr k v)
    then show ?thesis using r plain(2) assms(4) unescape_plain [of v 255 r]
      by (simp add: bb_json_get_string_def quoted_def)
  next
    case (FInt k i)
    have "\<not> isdigit (hd r)" using r(3) by (auto simp: isdigit_def)
    then show ?thesis using FInt r plain(2) atoi_dec_int [of i r] by (simp add: bb_json_get_int_def)
  next
    case (FBool k c)
    then show ?thesis using r by (simp add: bb_json_get_bool_def)
  qed
qed

text \<open>
  C6. Round trip: what was written under a key is read back, for strings of at most 255 bytes, ints and
  booleans, provided that no member before it has the same key or is a string equal to the key.
\<close>

theorem json_round_trip:
  assumes "list_all plain_field (gs @ f # hs)" and "key_ok (field_key f)"
    and "list_all (\<lambda>g. \<not> hides (field_key f) g) gs"
    and "\<forall>k v. f = FStr k v \<longrightarrow> length v \<le> 255"
    and "length (object_text (gs @ f # hs)) < length b"
  shows "\<exists>w. write_object (gs @ f # hs) b = Inr w \<and> reads_back (cstr (jbuf w)) f"
  using json_writes [OF assms(1,5)] object_reads_back [OF assms(1-4)] by auto

theorem json_round_trip_witness:
  "\<exists>w. write_object [FStr ''cmd'' ''blink'', FInt ''on_ms'' 200, FBool ''x'' False] (replicate 64 NUL) = Inr w
    \<and> bb_json_get_int (cstr (jbuf w)) ''on_ms'' 0 = Inr 200"
proof -
  have "\<exists>w. write_object ([FStr ''cmd'' ''blink''] @ FInt ''on_ms'' 200 # [FBool ''x'' False]) (replicate 64 NUL) = Inr w
    \<and> reads_back (cstr (jbuf w)) (FInt ''on_ms'' 200)"
    by (rule json_round_trip) (simp_all add: plain_def in_int32_def key_ok_def object_text_def
        field_text_def quoted_def dec_int_def dec_nat.simps)
  then show ?thesis by auto
qed

text \<open>
  Strings are not escaped and keys are searched in the whole text: a value with a quote adds
  members of its own, and a value equal to a later key hides that key's member.
\<close>

theorem json_no_escape:
  "map_sum id (\<lambda>w. (bb_json_get_string (cstr (jbuf w)) ''id'', bb_json_get_bool (cstr (jbuf w)) ''ok'' 0))
      (write_object [FStr ''id'' (''x'' @ [QUOTE] @ '','' @ [QUOTE] @ ''ok'' @ [QUOTE] @ '':true,'' @ [QUOTE] @ ''y'')]
        (replicate 64 NUL)) = Inr (Some ''x'', 1)
    \<and> bb_json_get_string (object_text [FStr ''a'' ''state'', FStr ''state'' ''on'']) ''state'' = None"
  by code_simp

end
