(* ===== verification/BB_Cli.thy ===== *)
theory BB_Cli
  imports BB_Bus BB_Busd BB_Json
begin

text \<open>
  The command line tool \<open>tools/bb-cli.c\<close>, and the path of a publication through all three parts of
  the bus: a client library or tool that sends it, the daemon that routes it, a client that polls.
\<close>

section \<open>Sending\<close>

text \<open>
  \<open>fd\<close> is the connected descriptor, negative when the connection failed. The results carry the exit
  code and the messages passed to send.
\<close>

definition bus_connect :: "int \<Rightarrow> int \<Rightarrow> int \<times> int list" where
  "bus_connect sock conn = (if sock < 0 then (-1, []) else if conn < 0 then (-1, [sock]) else (sock, []))"

text \<open>The tool's own connection routine does what the library's does, and leaves no descriptor open on a failure.\<close>

lemma bus_connect_same:
  "bus_connect sock conn = (case bb_bus_connect path sock conn of (r, bus, cl) \<Rightarrow> (if r < 0 then -1 else b_fd bus, cl))"
  by (simp add: bus_connect_def bb_bus_connect_def Let_def)

definition cli_send_line :: "string \<Rightarrow> string" where
  "cli_send_line line = fit 8192 (line @ [NL])"

definition cmd_ping :: "int \<Rightarrow> (nat \<Rightarrow> string) \<Rightarrow> int \<times> string list" where
  "cmd_ping fd rcv =
    (if fd < 0 then (1, []) else (if rcv 63 \<noteq> [] then 0 else 1, [cli_send_line ''PING'']))"

definition cmd_pub :: "int \<Rightarrow> string \<Rightarrow> string \<Rightarrow> int \<times> string list" where
  "cmd_pub fd topic payload =
    (if fd < 0 then (1, []) else (0, [cli_send_line (fit 8192 (pub_line topic payload))]))"

section \<open>Listening\<close>

definition cli_print :: "string \<Rightarrow> string" where
  "cli_print line =
    (if prefix ''PUB '' line then
       (case strchr (drop 4 line) (CHR '' '') of
          Some i \<Rightarrow> ''['' @ take i (drop 4 line) @ ''] '' @ drop (Suc i) (drop 4 line) @ [NL]
        | None \<Rightarrow> line @ [NL])
     else line @ [NL])"

definition cli_bytes :: "string \<Rightarrow> string \<Rightarrow> string \<times> string list" where
  "cli_bytes buf bs = (let (ls, r) = split_lines (buf @ bs) in (r, map cli_print ls))"

text \<open>The subscription sent, and what the loop prints for the segments received until it ends.\<close>

fun cmd_sub_loop :: "string \<Rightarrow> string list \<Rightarrow> string list" where
  "cmd_sub_loop buf [] = []"
| "cmd_sub_loop buf (c # cs) =
    (if c = [] then [] else let (buf', out) = cli_bytes buf c in out @ cmd_sub_loop buf' cs)"

definition cmd_sub :: "int \<Rightarrow> string \<Rightarrow> string list \<Rightarrow> int \<times> string list \<times> string list" where
  "cmd_sub fd topic segs =
    (if fd < 0 then (1, [], [])
     else (0, [cli_send_line (fit 8192 (''SUB '' @ topic))], cmd_sub_loop [] segs))"

interpretation cli_rx: line_receiver cli_bytes 8191 "\<lambda>l. [cli_print l]"
proof unfold_locales
  show "cli_bytes buf bs = (snd (split_lines (buf @ bs)), concat (map (\<lambda>l. [cli_print l]) (fst (split_lines (buf @ bs)))))"
    for buf bs by (simp add: cli_bytes_def case_prod_beta)
qed

section \<open>LED commands\<close>

text \<open>
  \<open>strtol (s, &end, 10)\<close>: the value, saturated to 64 bits, and the rest of the text; without digits
  the rest is the whole text.
\<close>

definition sat_long :: "int \<Rightarrow> int" where
  "sat_long v = (if v < - (2 ^ 63) then - (2 ^ 63) else if v > 2 ^ 63 - 1 then 2 ^ 63 - 1 else v)"

definition strtol :: "string \<Rightarrow> int \<times> string" where
  "strtol s =
    (let t = skip_space s;
         (neg, u) = (if t \<noteq> [] \<and> hd t = CHR ''-'' then (True, tl t)
                     else if t \<noteq> [] \<and> hd t = CHR ''+'' then (False, tl t) else (False, t))
     in if takeWhile isdigit u = [] then (0, s)
        else (sat_long ((if neg then -1 else 1) * int (digits_val 0 u)), dropWhile isdigit u))"

text \<open>Pairs of arguments; a last one without a value is ignored.\<close>

fun led_args :: "string list \<Rightarrow> bb_json_writer_t \<Rightarrow> bb_json_writer_t cres" where
  "led_args (k # v # args) w =
    (let (n, end) = strtol v in
     case (if end = [] then bb_json_add_int k (wrap32 n) w else bb_json_add_string k (Some v) w) of
       Inl e \<Rightarrow> Inl e | Inr w' \<Rightarrow> led_args args w')"
| "led_args _ w = Inr w"

definition led_payload :: "string list \<Rightarrow> bb_json_writer_t cres" where
  "led_payload argv =
    (case bb_json_init (replicate 4096 NUL) of Inl e \<Rightarrow> Inl e | Inr w \<Rightarrow>
     case bb_json_add_string ''cmd'' (Some (hd argv)) (bb_json_start_object w) of Inl e \<Rightarrow> Inl e | Inr w1 \<Rightarrow>
     case led_args (tl argv) w1 of Inl e \<Rightarrow> Inl e | Inr w2 \<Rightarrow> bb_json_end_object w2)"

definition cmd_led :: "int \<Rightarrow> string list \<Rightarrow> (int \<times> string list) cres" where
  "cmd_led fd argv =
    (if argv = [] then Inr (1, [])
     else map_sum id (\<lambda>w. cmd_pub fd ''/dev/bb-led/cmd'' (cstr (jbuf w))) (led_payload argv))"

section \<open>Dispatch\<close>

datatype cli_action = Usage | Ping | Pub string string | Sub string | Led "string list"

definition cli_main :: "string list \<Rightarrow> cli_action" where
  "cli_main argv =
    (if length argv < 2 then Usage
     else if argv ! 1 = ''ping'' then Ping
     else if argv ! 1 = ''pub'' \<and> length argv \<ge> 4 then Pub (argv ! 2) (argv ! 3)
     else if argv ! 1 = ''sub'' \<and> length argv \<ge> 3 then Sub (argv ! 2)
     else if argv ! 1 = ''led'' \<and> length argv \<ge> 3 then Led (drop 2 argv)
     else Usage)"

section \<open>The arguments as JSON\<close>

text \<open>What \<open>bb-cli led\<close> means to send: the command, and each pair as an int or a string member.\<close>

fun arg_field :: "string \<Rightarrow> string \<Rightarrow> field" where
  "arg_field k v = (if snd (strtol v) = [] then FInt k (wrap32 (fst (strtol v))) else FStr k v)"

fun arg_fields :: "string list \<Rightarrow> field list" where
  "arg_fields (k # v # args) = arg_field k v # arg_fields args"
| "arg_fields _ = []"

lemma led_args_fields: "led_args args w = add_fields (arg_fields args) w"
proof (induction args arbitrary: w rule: arg_fields.induct)
  case (1 k v args)
  obtain n e where "strtol v = (n, e)" by fastforce
  then show ?case using 1 by (auto split: sum.split)
qed simp_all

lemma led_payload_object:
  "argv \<noteq> [] \<Longrightarrow> led_payload argv = write_object (FStr ''cmd'' (hd argv) # arg_fields (tl argv)) (replicate 4096 NUL)"
  by (simp add: led_payload_def write_object_def led_args_fields split: sum.split)

text \<open>
  \<open>bb-cli led\<close> publishes the object with the command first and each argument pair as a member, an
  int when the value reads as one, as long as the text fits 4095 bytes and needs no escaping.
\<close>

theorem led_command_published:
  assumes "0 \<le> fd" and "list_all plain_field (FStr ''cmd'' c # arg_fields args)"
    and "length (object_text (FStr ''cmd'' c # arg_fields args)) \<le> 4095"
  shows "cmd_led fd (c # args) = Inr (0, [pub_line ''/dev/bb-led/cmd'' (object_text (FStr ''cmd'' c # arg_fields args)) @ [NL]])"
proof -
  let ?t = "object_text (FStr ''cmd'' c # arg_fields args)"
  have fits: "length ?t < length (replicate 4096 NUL)" using assms(3) by simp
  obtain w where "write_object (FStr ''cmd'' c # arg_fields args) (replicate 4096 NUL) = Inr w"
    "cstr (jbuf w) = ?t"
    using json_writes [OF assms(2) fits] by blast
  then have "led_payload (c # args) = Inr w" "cstr (jbuf w) = ?t"
    using led_payload_object [of "c # args"] by simp_all
  then show ?thesis
    using assms(1,3) by (simp add: cmd_led_def cmd_pub_def cli_send_line_def fit_def pub_line_def)
qed

theorem led_command_published_witness:
  "\<exists>t. cmd_led 3 [''blink'', ''on_ms'', ''200''] = Inr (0, [pub_line ''/dev/bb-led/cmd'' t @ [NL]])"
proof -
  have a: "arg_fields [''on_ms'', ''200''] = [FInt ''on_ms'' 200]" by code_simp
  have "length (object_text (FStr ''cmd'' ''blink'' # [FInt ''on_ms'' 200])) \<le> 4095" by code_simp
  then show ?thesis
    using led_command_published [of 3 "''blink''" "[''on_ms'', ''200'']"]
    unfolding a by (auto simp: plain_def in_int32_def)
qed

text \<open>
  A line that leaves no room for its newline is sent without one: the daemon never sees the line end
  and, once its buffer is full, drops the client.
\<close>

theorem cli_long_line_unterminated:
  assumes "0 \<le> fd" and "8191 \<le> length (pub_line topic payload)" and "NL \<notin> set (pub_line topic payload)"
  shows "\<exists>msg. cmd_pub fd topic payload = (0, [msg]) \<and> NL \<notin> set msg \<and> length msg = 8191"
proof -
  have "cmd_pub fd topic payload = (0, [take 8191 (take 8191 (pub_line topic payload) @ [NL])])"
    using assms(1) by (simp add: cmd_pub_def cli_send_line_def fit_def)
  moreover have "take 8191 (take 8191 (pub_line topic payload) @ [NL]) = take 8191 (pub_line topic payload)"
    using assms(2) by simp
  ultimately show ?thesis using assms(2,3) by (auto dest: in_set_takeD)
qed

theorem cli_long_line_unterminated_witness:
  "\<exists>msg. cmd_pub 3 ''t'' (replicate 8186 (CHR ''x'')) = (0, [msg]) \<and> NL \<notin> set msg"
  using cli_long_line_unterminated [of 3 "''t''" "replicate 8186 (CHR ''x'')"]
  by (auto simp: pub_line_def)

section \<open>From publisher to handler\<close>

lemma one_line_received:
  assumes "NL \<notin> set l" "NUL \<notin> set l"
  shows "split_lines (l @ [NL]) = ([l], [])"
proof -
  have "split_lines (l @ [NL]) = feed_all ([], []) (lines_text [l] @ [])"
    using assms by (simp add: split_lines_feed lines_text_def)
  also have "\<dots> = ([l], [])" using assms by (intro feed_lines_text) simp_all
  finally show ?thesis .
qed

lemma line_msgs_pub:
  assumes "CHR '' '' \<notin> set t" "NUL \<notin> set t"
  shows "line_msgs True (pub_line t p) = [(t, p)]"
proof -
  have "cstr (t @ CHR '' '' # p) = t @ CHR '' '' # cstr p"
    using assms(2) by (auto simp: cstr_def takeWhile_append)
  then have "strchr (t @ CHR '' '' # p) (CHR '' '') = Some (length t)"
    unfolding strchr_def using assms(1) by (intro find_index_SomeI) (auto simp: nth_append in_set_conv_nth)
  then show ?thesis by (simp add: line_msgs_def pub_line_def)
qed

text \<open>From the daemon's socket to the handler calls of a subscriber.\<close>

lemma published_delivered:
  assumes "word_ok t" "NUL \<notin> set t" and "NL \<notin> set p" "NUL \<notin> set p" "\<exists>c \<in> set p. \<not> isspace c"
    and "length (pub_line t p) \<le> 4286"
    and "(pat, c) \<in> subscribed (subs s)" "topic_match pat t" "c \<noteq> fd"
    and "0 \<le> b_fd sb" "b_handler sb"
  shows "client_bytes [] (pub_line t p @ [NL]) = ([], [pub_line t p])"
    and "(c, pub_line t p @ [NL]) \<in> set (sends (handle_lines fd [pub_line t p] s))"
    and "concat cs = pub_line t p @ [NL] \<Longrightarrow> rx_fits (BB_MAX_LINE - 1) [] cs \<Longrightarrow> poll_all sb [] cs = ([], [(t, p)])"
proof -
  let ?l = "pub_line t p"
  have nosp: "CHR '' '' \<notin> set t" "NL \<notin> set t" using assms(1) by (auto simp: word_ok_def isspace_def)
  have clean: "NL \<notin> set ?l" "NUL \<notin> set ?l" using nosp assms(2-4) by (auto simp: pub_line_def)
  show "client_bytes [] (?l @ [NL]) = ([], [?l])" using one_line_received [OF clean] by (simp add: client_bytes_def)
  have "handle_lines fd [?l] s = publish t p fd s" using handle_pub [OF assms(1,5)] by simp
  then show "(c, ?l @ [NL]) \<in> set (sends (handle_lines fd [?l] s))"
    using assms(6-9) by (force simp: publish_def Let_def buf_size_def subscribed_def)
  assume cs: "concat cs = ?l @ [NL]" "rx_fits (BB_MAX_LINE - 1) [] cs"
  have "poll_all sb [] cs = bus_rx.receive (b_handler sb) [] cs"
    by (rule poll_all_receive [OF assms(10) fits_nonempty [OF cs(2)]])
  also have "\<dots> = (snd (feed_all ([], []) (concat cs)),
      concat (map (line_msgs (b_handler sb)) (fst (feed_all ([], []) (concat cs)))))"
    by (rule bus_rx.receive_stream [OF cs(2)]) simp_all
  also have "feed_all ([], []) (concat cs) = ([?l], [])"
    using feed_lines_text [of "[?l]" "[]"] clean cs(1) by (simp add: lines_text_def)
  finally show "poll_all sb [] cs = ([], [(t, p)])" using line_msgs_pub [OF nosp(1) assms(2)] assms(11) by simp
qed

text \<open>
  C2. A publication through the client library reaches every matching subscriber's handler with topic
  and payload intact, however the stream to the subscriber is segmented, when the topic is a word,
  the payload a line that is not blank and the whole line at most 4286 bytes. The publisher itself
  is not sent its own publication.
\<close>

theorem publish_end_to_end:
  assumes "word_ok t" "NUL \<notin> set t" and "NL \<notin> set p" "NUL \<notin> set p" "\<exists>c \<in> set p. \<not> isspace c"
    and "length (pub_line t p) \<le> 4286" and "0 \<le> b_fd pb"
    and "(pat, c) \<in> subscribed (subs s)" "topic_match pat t" "c \<noteq> fd"
    and "0 \<le> b_fd sb" "b_handler sb"
  shows "\<exists>line msg. bb_bus_publish (\<lambda>_. 1) pb t p = (0, [line])
    \<and> client_bytes [] line = ([], [pub_line t p])
    \<and> (c, msg) \<in> set (sends (handle_lines fd [pub_line t p] s))
    \<and> (\<forall>cs. concat cs = msg \<and> rx_fits (BB_MAX_LINE - 1) [] cs \<longrightarrow> poll_all sb [] cs = ([], [(t, p)]))"
proof -
  have "bb_bus_publish (\<lambda>_. 1) pb t p = (0, [pub_line t p @ [NL]])"
    using assms(6,7) by (simp add: bb_bus_publish_def send_line_def fit_def BB_MAX_LINE_def pub_line_def)
  then show ?thesis using published_delivered [OF assms(1-6,8-12)] by blast
qed

theorem publish_end_to_end_witness:
  "\<exists>line msg. bb_bus_publish (\<lambda>_. 1) demo_bus ''led/1'' ''on'' = (0, [line])
    \<and> (6, msg) \<in> set (sends (handle_lines 5 [''PUB led/1 on''] ((busd_start 3)\<lparr>subs := [\<lparr>s_topic = ''led/#'', s_ids = [5, 6]\<rparr>]\<rparr>)))"
proof -
  let ?s = "(busd_start 3)\<lparr>subs := [\<lparr>s_topic = ''led/#'', s_ids = [5, 6]\<rparr>]\<rparr>"
  have l: "pub_line ''led/1'' ''on'' = ''PUB led/1 on''" by (simp add: pub_line_def)
  have "\<exists>line msg. bb_bus_publish (\<lambda>_. 1) demo_bus ''led/1'' ''on'' = (0, [line])
    \<and> client_bytes [] line = ([], [pub_line ''led/1'' ''on''])
    \<and> (6, msg) \<in> set (sends (handle_lines 5 [pub_line ''led/1'' ''on''] ?s))
    \<and> (\<forall>cs. concat cs = msg \<and> rx_fits (BB_MAX_LINE - 1) [] cs \<longrightarrow> poll_all demo_bus [] cs = ([], [(''led/1'', ''on'')]))"
    by (rule publish_end_to_end [where pat = "''led/#''"])
      (simp_all add: word_ok_def isspace_def pub_line_def demo_bus_def subscribed_def topic_match_def)
  then show ?thesis unfolding l by blast
qed

end
