(* ===== verification/BB_Block.thy ===== *)
theory BB_Block
  imports BB_Bus BB_Json
begin

text \<open>
  The life cycle of a block, \<open>libbb/bb_block.c\<close>: start, main loop, state and event publications.
  The callbacks of a block are arguments; the messages handed to the bus are collected in a list.
  The main loop takes one record of inputs per iteration, so a loop that has not ended when the
  inputs run out is the value None.
\<close>

section \<open>State\<close>

datatype bb_state_t = BB_STATE_INIT | BB_STATE_READY | BB_STATE_RUNNING | BB_STATE_STOPPING
  | BB_STATE_STOPPED | BB_STATE_ERROR

record 'u bb_block_t =
  k_id :: string
  k_bus :: bb_bus_t
  k_running :: bool
  k_state :: bb_state_t
  k_out :: "string list"
  k_user :: 'u

record 'u block_ops =
  o_init :: "('u bb_block_t \<Rightarrow> int \<times> 'u bb_block_t) option"
  o_run :: "('u bb_block_t \<Rightarrow> int \<times> 'u bb_block_t) option"
  o_stop :: "('u bb_block_t \<Rightarrow> 'u bb_block_t) option"
  o_cmd :: "(string \<Rightarrow> string \<Rightarrow> 'u bb_block_t \<Rightarrow> 'u bb_block_t cres) option"

definition BB_MAX_TOPIC :: nat where "BB_MAX_TOPIC = 128"
definition BB_MAX_PAYLOAD :: nat where "BB_MAX_PAYLOAD = 4096"

definition block_send :: "int \<times> string list \<Rightarrow> 'u bb_block_t \<Rightarrow> 'u bb_block_t" where
  "block_send r b = b\<lparr>k_out := k_out b @ snd r\<rparr>"

fun state_str :: "bb_state_t \<Rightarrow> string" where
  "state_str BB_STATE_INIT = ''init''"
| "state_str BB_STATE_READY = ''ready''"
| "state_str BB_STATE_RUNNING = ''running''"
| "state_str BB_STATE_STOPPING = ''stopping''"
| "state_str BB_STATE_STOPPED = ''stopped''"
| "state_str BB_STATE_ERROR = ''error''"

section \<open>Publications\<close>

text \<open>The argument extra_json of the code is not used by it. \<open>time\<close> is the clock, cast to int.\<close>

definition bb_block_publish_state :: "int \<Rightarrow> bb_state_t \<Rightarrow> 'u bb_block_t \<Rightarrow> 'u bb_block_t cres" where
  "bb_block_publish_state time st b =
    (case write_object [FStr ''block'' (k_id b), FInt ''ts'' (wrap32 time), FStr ''status'' (state_str st)]
        (replicate BB_MAX_PAYLOAD NUL) of
       Inl e \<Rightarrow> Inl e
     | Inr w \<Rightarrow> Inr (block_send (bb_bus_publish (\<lambda>_. 1) (k_bus b)
           (fit BB_MAX_TOPIC (''/dev/'' @ k_id b @ ''/state'')) (cstr (jbuf w))) (b\<lparr>k_state := st\<rparr>)))"

definition bb_block_publish_event :: "string \<Rightarrow> 'u bb_block_t \<Rightarrow> 'u bb_block_t" where
  "bb_block_publish_event event_json b =
    block_send (bb_bus_publish (\<lambda>_. 1) (k_bus b) (fit BB_MAX_TOPIC (''/dev/'' @ k_id b @ ''/event'')) event_json) b"

definition bb_block_stop :: "'u bb_block_t \<Rightarrow> 'u bb_block_t" where
  "bb_block_stop b = b\<lparr>k_running := False\<rparr>"

section \<open>Start\<close>

text \<open>The result of init is ignored.\<close>

definition bb_block_start :: "'u block_ops \<Rightarrow> int \<Rightarrow> string \<Rightarrow> int \<Rightarrow> int \<Rightarrow> 'u bb_block_t \<Rightarrow> (int \<times> 'u bb_block_t) cres" where
  "bb_block_start ops time path sock conn b =
    (let b0 = b\<lparr>k_running := True, k_state := BB_STATE_INIT\<rparr>;
         (r, bus, cl) = bb_bus_connect path sock conn
     in if r < 0 then Inr (-1, b0\<lparr>k_bus := bus\<rparr>)
     else let b1 = b0\<lparr>k_bus := bb_bus_set_handler True bus\<rparr>;
              topic = fit BB_MAX_TOPIC (''/dev/'' @ k_id b @ ''/cmd'');
              b2 = block_send (bb_bus_subscribe (\<lambda>_. 1) (k_bus b1) topic) b1;
              b3 = block_send (bb_bus_subscribe (\<lambda>_. 1) (k_bus b2) ''/system/broadcast'') b2;
              b4 = (case o_init ops of None \<Rightarrow> b3 | Some f \<Rightarrow> snd (f b3))
          in map_sum id (\<lambda>b5. (0, b5)) (bb_block_publish_state time BB_STATE_READY b4))"

section \<open>Main loop\<close>

text \<open>
  One iteration sees a clock, the result of select, what recv delivers, and whether a termination
  signal arrived before the loop condition is tested again.
\<close>

record loop_input =
  it_time :: int
  it_sel :: int
  it_recv :: "nat \<Rightarrow> string"
  it_sig :: bool

fun dispatch :: "'u block_ops \<Rightarrow> (string \<times> string) list \<Rightarrow> 'u bb_block_t \<Rightarrow> 'u bb_block_t cres" where
  "dispatch ops [] b = Inr b"
| "dispatch ops ((t, p) # ms) b =
    (case (case o_cmd ops of None \<Rightarrow> Inr b | Some f \<Rightarrow> f t p b) of
       Inl e \<Rightarrow> Inl e | Inr b' \<Rightarrow> dispatch ops ms b')"

text \<open>
  One pass of the loop body: the poll, whose result is ignored, and run; the flag says that run
  ended the loop.
\<close>

definition loop_body :: "'u block_ops \<Rightarrow> loop_input \<Rightarrow> string \<Rightarrow> 'u bb_block_t \<Rightarrow> (bool \<times> string \<times> 'u bb_block_t) cres" where
  "loop_body ops i buf b =
    (let (r, buf', ms) = bb_bus_poll (it_sel i) (it_recv i) (k_bus b) buf in
     case dispatch ops ms b of Inl e \<Rightarrow> Inl e
     | Inr b1 \<Rightarrow>
        let (rr, b2) = (case o_run ops of None \<Rightarrow> (0, b1) | Some f \<Rightarrow> f b1);
            b3 = (if it_sig i then b2\<lparr>k_running := False\<rparr> else b2)
        in Inr (rr \<noteq> 0, buf', b3))"

definition loop_exit :: "'u block_ops \<Rightarrow> int \<Rightarrow> 'u bb_block_t \<Rightarrow> 'u bb_block_t cres" where
  "loop_exit ops time b =
    (let b1 = b\<lparr>k_state := BB_STATE_STOPPING\<rparr>;
         b2 = (case o_stop ops of None \<Rightarrow> b1 | Some f \<Rightarrow> f b1)
     in case bb_block_publish_state time BB_STATE_STOPPED b2 of Inl e \<Rightarrow> Inl e
        | Inr b3 \<Rightarrow> Inr (b3\<lparr>k_bus := fst (bb_bus_close (k_bus b3))\<rparr>))"

fun run_loop :: "'u block_ops \<Rightarrow> int \<Rightarrow> loop_input list \<Rightarrow> string \<Rightarrow> 'u bb_block_t \<Rightarrow> 'u bb_block_t option cres" where
  "run_loop ops tend is buf b =
    (if \<not> k_running b then map_sum id Some (loop_exit ops tend b)
     else case is of [] \<Rightarrow> Inr None
     | i # is' \<Rightarrow>
        (case loop_body ops i buf b of Inl e \<Rightarrow> Inl e
         | Inr (brk, buf', b') \<Rightarrow>
            if brk then map_sum id Some (loop_exit ops tend b') else run_loop ops tend is' buf' b'))"

declare run_loop.simps [simp del]

definition bb_block_main_loop :: "'u block_ops \<Rightarrow> int \<Rightarrow> int \<Rightarrow> loop_input list \<Rightarrow> string \<Rightarrow> 'u bb_block_t
    \<Rightarrow> 'u bb_block_t option cres" where
  "bb_block_main_loop ops t0 tend is buf b =
    (case bb_block_publish_state t0 BB_STATE_RUNNING (b\<lparr>k_state := BB_STATE_RUNNING\<rparr>) of
       Inl e \<Rightarrow> Inl e | Inr b1 \<Rightarrow> run_loop ops tend is buf b1)"

section \<open>State messages\<close>

definition state_fields :: "string \<Rightarrow> int \<Rightarrow> bb_state_t \<Rightarrow> field list" where
  "state_fields bid time st = [FStr ''block'' bid, FInt ''ts'' (wrap32 time), FStr ''status'' (state_str st)]"

definition state_line :: "string \<Rightarrow> int \<Rightarrow> bb_state_t \<Rightarrow> string" where
  "state_line bid time st = ''PUB /dev/'' @ bid @ ''/state '' @ object_text (state_fields bid time st)"

text \<open>Block identifiers: plain, of at most 100 bytes, and not the text of a JSON key in use.\<close>

definition id_ok :: "string \<Rightarrow> bool" where
  "id_ok bid \<longleftrightarrow> plain bid \<and> length bid \<le> 100 \<and> bid \<noteq> ''status''"

lemma wrap32_in [simp]: "in_int32 (wrap32 x)" by (simp add: wrap32_def)

lemma state_str_facts: "plain (state_str st) \<and> length (state_str st) \<le> 8"
  by (cases st) (simp_all add: plain_def)

lemma state_fields_ok:
  assumes "id_ok bid"
  shows "list_all plain_field (state_fields bid time st)"
    and "length (object_text (state_fields bid time st)) \<le> 200"
proof -
  show "list_all plain_field (state_fields bid time st)"
    using assms state_str_facts [of st] by (simp add: state_fields_def id_ok_def) (simp add: plain_def)
  show "length (object_text (state_fields bid time st)) \<le> 200"
    using assms state_str_facts [of st] dec_int_length [of "wrap32 time"]
    by (simp add: state_fields_def object_text_def field_text_def quoted_def id_ok_def)
qed

lemma publish_state_ok:
  assumes "id_ok (k_id b)" "0 \<le> b_fd (k_bus b)"
  shows "bb_block_publish_state time st b
    = Inr (b\<lparr>k_state := st, k_out := k_out b @ [state_line (k_id b) time st @ [NL]]\<rparr>)"
proof -
  note f = state_fields_ok [OF assms(1), of time st]
  have "length (object_text (state_fields (k_id b) time st)) < length (replicate BB_MAX_PAYLOAD NUL)"
    using f(2) by (simp add: BB_MAX_PAYLOAD_def)
  from json_writes [OF f(1) this] obtain w where
    w: "write_object (state_fields (k_id b) time st) (replicate BB_MAX_PAYLOAD NUL) = Inr w"
    "cstr (jbuf w) = object_text (state_fields (k_id b) time st)" by blast
  have topic: "fit BB_MAX_TOPIC (''/dev/'' @ k_id b @ ''/state'') = ''/dev/'' @ k_id b @ ''/state''"
    using assms(1) by (intro fit_short) (simp add: BB_MAX_TOPIC_def id_ok_def)
  have "length (state_line (k_id b) time st) \<le> BB_MAX_LINE - 1"
    using f(2) assms(1) by (simp add: state_line_def BB_MAX_LINE_def id_ok_def)
  then have "fit BB_MAX_LINE (state_line (k_id b) time st) = state_line (k_id b) time st"
    by (simp add: fit_def)
  then show ?thesis
    using w assms(2) topic
    by (simp add: bb_block_publish_state_def state_fields_def bb_bus_publish_def send_line_def
        block_send_def state_line_def)
qed

text \<open>
  A state publication says what it means: reading \<open>status\<close> and \<open>block\<close> back from the payload gives
  the name of the state and the block's identifier.
\<close>

theorem state_message_readable:
  assumes "id_ok (k_id b)" "0 \<le> b_fd (k_bus b)"
  shows "\<exists>b' payload. bb_block_publish_state time st b = Inr b' \<and> k_state b' = st
    \<and> k_out b' = k_out b @ [''PUB /dev/'' @ k_id b @ ''/state '' @ payload @ [NL]]
    \<and> bb_json_get_string payload ''status'' = Some (state_str st)
    \<and> bb_json_get_string payload ''block'' = Some (k_id b)"
proof -
  let ?p = "object_text (state_fields (k_id b) time st)"
  have st: "plain (state_str st)" "length (state_str st) \<le> 255" using state_str_facts [of st] by simp_all
  have id: "plain (k_id b)" "length (k_id b) \<le> 255" "k_id b \<noteq> ''status''"
    using assms(1) by (simp_all add: id_ok_def)
  have keys: "key_ok ''status''" "key_ok ''block''" by (simp_all add: key_ok_def plain_def)
  obtain r where r: "find_key ?p ''status'' = Some (quoted (state_str st) @ r)"
    using find_key_member [of "FStr ''status'' (state_str st)"
        "[FStr ''block'' (k_id b), FInt ''ts'' (wrap32 time)]" "[]"] keys id
    by (auto simp: state_fields_def plain_def)
  obtain q where q: "find_key ?p ''block'' = Some (quoted (k_id b) @ q)"
    using find_key_member [of "FStr ''block'' (k_id b)" "[]"
        "[FInt ''ts'' (wrap32 time), FStr ''status'' (state_str st)]"] keys
    by (auto simp: state_fields_def)
  have "bb_json_get_string ?p ''status'' = Some (state_str st)"
    using r unescape_plain [OF st, of r] by (simp add: bb_json_get_string_def quoted_def)
  moreover have "bb_json_get_string ?p ''block'' = Some (k_id b)"
    using q unescape_plain [OF id(1,2), of q] by (simp add: bb_json_get_string_def quoted_def)
  ultimately show ?thesis
    using publish_state_ok [OF assms, of time st] by (auto simp: state_line_def)
qed

definition demo_block :: "unit bb_block_t" where
  "demo_block = \<lparr>k_id = ''bb-led'', k_bus = demo_bus, k_running = True, k_state = BB_STATE_INIT,
     k_out = [], k_user = ()\<rparr>"

theorem state_message_readable_witness:
  "\<exists>b payload. bb_block_publish_state 1700000000 BB_STATE_READY demo_block = Inr b
    \<and> k_out b = [''PUB /dev/'' @ ''bb-led'' @ ''/state '' @ payload @ [NL]]
    \<and> bb_json_get_string payload ''status'' = Some ''ready''"
  using state_message_readable [of demo_block 1700000000 BB_STATE_READY]
  by (auto simp: demo_block_def demo_bus_def id_ok_def plain_def)

section \<open>Life cycle\<close>

text \<open>
  A start on a working bus subscribes to the command topic and the broadcast topic and announces
  the state ready, in this order. It does so, and reports success, whatever init returned.
\<close>

theorem block_start_announces:
  assumes "id_ok (k_id b)" "0 \<le> sock" "0 \<le> conn"
    and "o_init ops = Some (\<lambda>b. (rc, g b))" "\<And>b. k_bus (g b) = k_bus b \<and> k_id (g b) = k_id b \<and> k_out (g b) = k_out b"
  shows "\<exists>b'. bb_block_start ops time path sock conn b = Inr (0, b') \<and> k_state b' = BB_STATE_READY
    \<and> k_out b' = k_out b @ [''SUB /dev/'' @ k_id b @ ''/cmd'' @ [NL], ''SUB /system/broadcast'' @ [NL],
        state_line (k_id b) time BB_STATE_READY @ [NL]]"
proof -
  have "fit BB_MAX_TOPIC (''/dev/'' @ k_id b @ ''/cmd'') = ''/dev/'' @ k_id b @ ''/cmd''"
    using assms(1) by (intro fit_short) (simp add: BB_MAX_TOPIC_def id_ok_def)
  moreover have "fit BB_MAX_LINE (''SUB /dev/'' @ k_id b @ ''/cmd'') = ''SUB /dev/'' @ k_id b @ ''/cmd''"
    using assms(1) by (intro fit_short) (simp add: BB_MAX_LINE_def id_ok_def)
  ultimately have sub: "fit BB_MAX_LINE (''SUB '' @ fit BB_MAX_TOPIC (''/dev/'' @ k_id b @ ''/cmd''))
    = ''SUB /dev/'' @ k_id b @ ''/cmd''" by simp
  have brd: "fit BB_MAX_LINE (''SUB '' @ ''/system/broadcast'') = ''SUB /system/broadcast''"
    by (simp add: fit_def BB_MAX_LINE_def)
  let ?b4 = "g (b\<lparr>k_running := True, k_state := BB_STATE_INIT,
     k_bus := \<lparr>b_fd = sock, b_path = fit 128 path, b_handler = True\<rparr>,
     k_out := k_out b @ [''SUB /dev/'' @ k_id b @ ''/cmd'' @ [NL], ''SUB /system/broadcast'' @ [NL]]\<rparr>)"
  have "bb_block_publish_state time BB_STATE_READY ?b4
    = Inr (?b4\<lparr>k_state := BB_STATE_READY, k_out := k_out ?b4 @ [state_line (k_id ?b4) time BB_STATE_READY @ [NL]]\<rparr>)"
    using assms(1,2,5) by (intro publish_state_ok) simp_all
  then show ?thesis
    using assms(2-5) sub brd
    by (simp add: bb_block_start_def bb_bus_connect_def bb_bus_set_handler_def bb_bus_subscribe_def
        send_line_def block_send_def Let_def)
qed

theorem block_start_announces_witness:
  "\<exists>b. bb_block_start \<lparr>o_init = Some (\<lambda>b. (-1, b)), o_run = None, o_stop = None, o_cmd = None\<rparr>
      0 ''/run/bb-bus.sock'' 4 0 demo_block = Inr (0, b) \<and> k_state b = BB_STATE_READY"
  using block_start_announces [of demo_block 4 0
      "\<lparr>o_init = Some (\<lambda>b. (-1, b)), o_run = None, o_stop = None, o_cmd = None\<rparr>" "-1" "\<lambda>b. b"
      0 "''/run/bb-bus.sock''"]
  by (auto simp: demo_block_def id_ok_def plain_def)

text \<open>Callbacks that leave the identifier and the connection alone and do not fault.\<close>

definition keeps_block :: "'u bb_block_t \<Rightarrow> 'u bb_block_t \<Rightarrow> bool" where
  "keeps_block b b' \<longleftrightarrow> k_id b' = k_id b \<and> k_bus b' = k_bus b"

definition ops_ok :: "'u block_ops \<Rightarrow> bool" where
  "ops_ok ops \<longleftrightarrow> (\<forall>f b. o_run ops = Some f \<longrightarrow> keeps_block b (snd (f b)))
     \<and> (\<forall>f b. o_stop ops = Some f \<longrightarrow> keeps_block b (f b))
     \<and> (\<forall>f t p b. o_cmd ops = Some f \<longrightarrow> (\<exists>b'. f t p b = Inr b' \<and> keeps_block b b'))"

lemma dispatch_keeps:
  assumes "ops_ok ops"
  shows "\<exists>b'. dispatch ops ms b = Inr b' \<and> keeps_block b b'"
proof (induction ms arbitrary: b)
  case Nil
  show ?case by (simp add: keeps_block_def)
next
  case (Cons m ms)
  obtain t p where m: "m = (t, p)" by (cases m)
  have "\<exists>b1. (case o_cmd ops of None \<Rightarrow> Inr b | Some f \<Rightarrow> f t p b) = Inr b1 \<and> keeps_block b b1"
    using assms by (cases "o_cmd ops") (auto simp: ops_ok_def keeps_block_def)
  then obtain b1 where b1: "(case o_cmd ops of None \<Rightarrow> Inr b | Some f \<Rightarrow> f t p b) = Inr b1" "keeps_block b b1"
    by blast
  obtain b2 where "dispatch ops ms b1 = Inr b2" "keeps_block b1 b2" using Cons by blast
  then show ?case using b1 m by (auto simp: keeps_block_def)
qed

lemma loop_body_keeps:
  assumes "ops_ok ops"
  shows "\<exists>brk buf' b'. loop_body ops i buf b = Inr (brk, buf', b') \<and> keeps_block b b'
    \<and> (it_sig i \<longrightarrow> \<not> k_running b')"
proof -
  obtain r buf' ms where poll: "bb_bus_poll (it_sel i) (it_recv i) (k_bus b) buf = (r, buf', ms)"
    by (metis prod_cases3)
  obtain b1 where b1: "dispatch ops ms b = Inr b1" "keeps_block b b1"
    using dispatch_keeps [OF assms] by blast
  obtain rr b2 where b2: "(case o_run ops of None \<Rightarrow> (0, b1) | Some f \<Rightarrow> f b1) = (rr, b2)" by fastforce
  have "keeps_block b1 b2"
    using assms b2 by (cases "o_run ops") (auto simp: ops_ok_def keeps_block_def dest: spec [of _ b1])
  then show ?thesis using poll b1 b2 by (simp add: loop_body_def Let_def keeps_block_def)
qed

lemma loop_exit_final:
  assumes "ops_ok ops" "id_ok (k_id b)" "0 \<le> b_fd (k_bus b)"
  shows "\<exists>b' out. loop_exit ops tend b = Inr b' \<and> k_state b' = BB_STATE_STOPPED \<and> b_fd (k_bus b') = -1
    \<and> k_out b' = out @ [state_line (k_id b) tend BB_STATE_STOPPED @ [NL]]"
proof -
  let ?b1 = "b\<lparr>k_state := BB_STATE_STOPPING\<rparr>"
  define b2 where "b2 = (case o_stop ops of None \<Rightarrow> ?b1 | Some f \<Rightarrow> f ?b1)"
  have "keeps_block ?b1 b2"
    using assms(1) by (cases "o_stop ops") (auto simp: b2_def ops_ok_def keeps_block_def)
  then have b2: "id_ok (k_id b2)" "0 \<le> b_fd (k_bus b2)" "k_id b2 = k_id b"
    using assms(2,3) by (simp_all add: keeps_block_def)
  then show ?thesis
    using publish_state_ok [OF b2(1,2), of tend BB_STATE_STOPPED]
    by (simp add: loop_exit_def bb_bus_close_def Let_def b2_def [symmetric])
qed

lemma run_loop_ends:
  assumes "ops_ok ops" "id_ok (k_id b)" "0 \<le> b_fd (k_bus b)" "\<exists>i \<in> set is. it_sig i"
  shows "\<exists>b' out. run_loop ops tend is buf b = Inr (Some b') \<and> k_state b' = BB_STATE_STOPPED
    \<and> b_fd (k_bus b') = -1 \<and> k_out b' = out @ [state_line (k_id b) tend BB_STATE_STOPPED @ [NL]]"
  using assms(2-4)
proof (induction "is" arbitrary: b buf)
  case (Cons i js)
  have exit: "\<exists>b' out. map_sum id Some (loop_exit ops tend c) = Inr (Some b') \<and> k_state b' = BB_STATE_STOPPED
    \<and> b_fd (k_bus b') = -1 \<and> k_out b' = out @ [state_line (k_id b) tend BB_STATE_STOPPED @ [NL]]"
    if "keeps_block b c" for c
    using loop_exit_final [OF assms(1), of c tend] that Cons.prems(1,2) by (auto simp: keeps_block_def)
  obtain brk buf' b' where body: "loop_body ops i buf b = Inr (brk, buf', b')" "keeps_block b b'"
    "it_sig i \<longrightarrow> \<not> k_running b'" using loop_body_keeps [OF assms(1)] by blast
  have kb: "keeps_block b b" by (simp add: keeps_block_def)
  show ?case
  proof (cases "k_running b \<and> \<not> brk")
    case False
    then show ?thesis using exit [OF body(2)] exit [OF kb] body(1)
      by (subst run_loop.simps) auto
  next
    case True
    then have eq: "run_loop ops tend (i # js) buf b = run_loop ops tend js buf' b'"
      using body(1) by (subst run_loop.simps) simp
    show ?thesis
    proof (cases "it_sig i")
      case True
      then have "run_loop ops tend js buf' b' = map_sum id Some (loop_exit ops tend b')"
        using body(3) by (subst run_loop.simps) simp
      then show ?thesis using exit [OF body(2)] eq by simp
    next
      case False
      then have "\<exists>i \<in> set js. it_sig i" using Cons.prems(3) by simp
      then show ?thesis using Cons.IH [of b' buf'] Cons.prems body(2) eq by (simp add: keeps_block_def)
    qed
  qed
qed simp

text \<open>
  C33. A termination signal ends the main loop in the state stopped, whatever the bus delivers: stop has
  run, the last message sent announces stopped, and the connection is closed.
\<close>

theorem block_loop_stops:
  assumes "ops_ok ops" "id_ok (k_id b)" "0 \<le> b_fd (k_bus b)" "\<exists>i \<in> set is. it_sig i"
  shows "\<exists>b' out. bb_block_main_loop ops t0 tend is buf b = Inr (Some b') \<and> k_state b' = BB_STATE_STOPPED
    \<and> b_fd (k_bus b') = -1 \<and> k_out b' = out @ [state_line (k_id b) tend BB_STATE_STOPPED @ [NL]]"
proof -
  let ?b = "b\<lparr>k_state := BB_STATE_RUNNING\<rparr>"
  have b: "id_ok (k_id ?b)" "0 \<le> b_fd (k_bus ?b)" using assms(2,3) by simp_all
  note pub = publish_state_ok [OF b, of t0 BB_STATE_RUNNING]
  let ?c = "?b\<lparr>k_state := BB_STATE_RUNNING, k_out := k_out ?b @ [state_line (k_id ?b) t0 BB_STATE_RUNNING @ [NL]]\<rparr>"
  have "id_ok (k_id ?c)" "0 \<le> b_fd (k_bus ?c)" using assms(2,3) by simp_all
  from run_loop_ends [OF assms(1) this assms(4)] show ?thesis
    using pub by (simp add: bb_block_main_loop_def)
qed

theorem block_loop_stops_witness:
  "\<exists>b. bb_block_main_loop \<lparr>o_init = None, o_run = Some (\<lambda>b. (0, b)), o_stop = None, o_cmd = Some (\<lambda>_ _. Inr)\<rparr> 0 9
      [\<lparr>it_time = 0, it_sel = 1, it_recv = (\<lambda>_. ''PUB a b'' @ [NL]), it_sig = False\<rparr>,
       \<lparr>it_time = 1, it_sel = 0, it_recv = (\<lambda>_. []), it_sig = True\<rparr>] [] demo_block = Inr (Some b)
    \<and> k_state b = BB_STATE_STOPPED"
proof -
  let ?ops = "\<lparr>o_init = None, o_run = Some (\<lambda>b. (0, b)), o_stop = None, o_cmd = Some (\<lambda>_ _. Inr)\<rparr> :: unit block_ops"
  let ?is = "[\<lparr>it_time = 0, it_sel = 1, it_recv = (\<lambda>_. ''PUB a b'' @ [NL]), it_sig = False\<rparr>,
       \<lparr>it_time = 1, it_sel = 0, it_recv = (\<lambda>_. []), it_sig = True\<rparr>]"
  have "ops_ok ?ops" by (simp add: ops_ok_def keeps_block_def)
  moreover have "id_ok (k_id demo_block)" "0 \<le> b_fd (k_bus demo_block)" "\<exists>i \<in> set ?is. it_sig i"
    by (simp_all add: demo_block_def demo_bus_def id_ok_def plain_def)
  ultimately show ?thesis using block_loop_stops [of ?ops demo_block ?is 0 9 "[]"] by blast
qed

text \<open>
  The result of the poll is not looked at: once the daemon is gone every poll fails at once and the
  loop goes round without waiting and without end, as long as run continues it.
\<close>

theorem block_loop_spins:
  assumes "0 \<le> b_fd (k_bus b)" "k_running b" "o_run ops = None"
    and "\<forall>i \<in> set is. it_sel i = 1 \<and> it_recv i = (\<lambda>_. []) \<and> \<not> it_sig i"
  shows "run_loop ops tend is buf b = Inr None"
  using assms(4)
proof (induction "is")
  case Nil
  then show ?case using assms by (subst run_loop.simps) simp
next
  case (Cons i js)
  have "loop_body ops i buf b = Inr (False, buf, b)"
    using Cons.prems assms by (simp add: loop_body_def bb_bus_poll_def)
  then show ?case using Cons assms(2) by (subst run_loop.simps) simp
qed

theorem block_loop_spins_witness:
  "run_loop \<lparr>o_init = None, o_run = None, o_stop = None, o_cmd = None\<rparr> 0
    (replicate 1000 \<lparr>it_time = 0, it_sel = 1, it_recv = (\<lambda>_. []), it_sig = False\<rparr>) [] demo_block = Inr None"
  by (rule block_loop_spins) (simp_all add: demo_block_def demo_bus_def)

section \<open>A stream of segments\<close>

text \<open>A block without run whose handler leaves the connection and the loop flag alone.\<close>

definition steady :: "'u block_ops \<Rightarrow> bool" where
  "steady ops \<longleftrightarrow> o_run ops = None \<and> (\<forall>f t p b b'. o_cmd ops = Some f \<and> f t p b = Inr b'
     \<longrightarrow> k_bus b' = k_bus b \<and> k_running b' = k_running b)"

lemma dispatch_steady:
  "steady ops \<Longrightarrow> dispatch ops ms b = Inr b' \<Longrightarrow> k_bus b' = k_bus b \<and> k_running b' = k_running b"
proof (induction ms arbitrary: b)
  case (Cons m ms)
  obtain t p where m: "m = (t, p)" by force
  from Cons.prems(2) obtain b1 where b1: "(case o_cmd ops of None \<Rightarrow> Inr b | Some f \<Rightarrow> f t p b) = Inr b1" "dispatch ops ms b1 = Inr b'"
    by (auto simp: m split: sum.splits)
  have "k_bus b1 = k_bus b \<and> k_running b1 = k_running b"
    using b1(1) Cons.prems(1) by (cases "o_cmd ops") (auto simp: steady_def)
  then show ?case using Cons.IH [OF Cons.prems(1) b1(2)] by simp
qed simp

lemma dispatch_append:
  "dispatch ops (ms @ ns) b = (case dispatch ops ms b of Inl e \<Rightarrow> Inl e | Inr b' \<Rightarrow> dispatch ops ns b')"
proof (induction ms arbitrary: b)
  case (Cons m ms)
  then show ?case by (cases m) (simp split: sum.split)
qed simp

definition segment :: "int \<Rightarrow> string \<Rightarrow> loop_input" where
  "segment time c = \<lparr>it_time = time, it_sel = 1, it_recv = (\<lambda>_. c), it_sig = False\<rparr>"

lemma run_loop_segments:
  assumes "steady ops" "\<forall>c \<in> set cs. c \<noteq> []" "k_running b" "0 \<le> b_fd (k_bus b)"
  shows "run_loop ops tend (map (segment time) cs @ is) buf b =
    (case dispatch ops (snd (poll_all (k_bus b) buf cs)) b of Inl e \<Rightarrow> Inl e
     | Inr b' \<Rightarrow> run_loop ops tend is (fst (poll_all (k_bus b) buf cs)) b')"
  using assms(2-4)
proof (induction cs arbitrary: buf b)
  case (Cons c cs)
  obtain buf1 ms where poll: "bb_bus_poll 1 (\<lambda>_. c) (k_bus b) buf = (0, buf1, ms)"
    using Cons.prems by (cases "bus_bytes (b_handler (k_bus b)) buf c") (simp add: bb_bus_poll_def)
  then have pa: "poll_all (k_bus b) buf (c # cs) = (fst (poll_all (k_bus b) buf1 cs), ms @ snd (poll_all (k_bus b) buf1 cs))"
    by (simp add: case_prod_beta)
  show ?case
  proof (cases "dispatch ops ms b")
    case (Inl e)
    then have "loop_body ops (segment time c) buf b = Inl e" using poll by (simp add: loop_body_def segment_def)
    then show ?thesis using Cons.prems(2) poll Inl
      unfolding pa by (subst run_loop.simps) (simp add: dispatch_append)
  next
    case (Inr b1)
    then have b1: "k_bus b1 = k_bus b" "k_running b1" using dispatch_steady [OF assms(1) Inr] Cons.prems(2) by simp_all
    have "loop_body ops (segment time c) buf b = Inr (False, buf1, b1)"
      using poll Inr assms(1) by (simp add: loop_body_def segment_def steady_def)
    then have "run_loop ops tend (map (segment time) (c # cs) @ is) buf b = run_loop ops tend (map (segment time) cs @ is) buf1 b1"
      using Cons.prems(2) by (subst run_loop.simps) simp
    then show ?thesis using Cons.IH [of b1 buf1] Cons.prems b1 Inr
      unfolding pa fst_conv snd_conv by (simp add: dispatch_append cong: sum.case_cong)
  qed
qed simp

end
