(* ===== verification/BB_Led.thy ===== *)
theory BB_Led
  imports BB_Block
begin

text \<open>
  The LED block: the sysfs LED of \<open>hal/bb_hal_led.c\<close> and the block \<open>blocks/bb-led/main.c\<close>, its
  command handler and its blink thread. A write to sysfs is an entry of a log; which files can be
  opened is an argument. The blink thread reads the flag g_blink_active, which other threads set,
  from a list of the values it sees.
\<close>

section \<open>The sysfs LED\<close>

record bb_led_t =
  led_name :: string
  brightness_path :: string
  trigger_path :: string
  max_brightness :: int

type_synonym sysfs_log = "(string \<times> string) list"

definition led_file :: "string \<Rightarrow> string \<Rightarrow> string" where
  "led_file name attr = fit 128 (''/sys/class/leds/'' @ name @ ''/'' @ attr)"

text \<open>
  \<open>maxb\<close>: None when max_brightness cannot be opened, \<open>Some None\<close> when it holds no number.
\<close>

definition bb_led_open :: "int option option \<Rightarrow> bool \<Rightarrow> string \<Rightarrow> int \<times> bb_led_t" where
  "bb_led_open maxb writable name =
    (if writable then 0 else -1,
     \<lparr>led_name = fit 64 name, brightness_path = led_file name ''brightness'',
      trigger_path = led_file name ''trigger'',
      max_brightness = (case maxb of Some (Some n) \<Rightarrow> n | _ \<Rightarrow> 1)\<rparr>)"

definition sysfs_write :: "(string \<Rightarrow> bool) \<Rightarrow> string \<Rightarrow> string \<Rightarrow> sysfs_log \<Rightarrow> int \<times> sysfs_log" where
  "sysfs_write can path txt log = (if can path then (0, log @ [(path, txt)]) else (-1, log))"

definition bb_led_set_brightness :: "(string \<Rightarrow> bool) \<Rightarrow> bb_led_t \<Rightarrow> int \<Rightarrow> sysfs_log \<Rightarrow> int \<times> sysfs_log" where
  "bb_led_set_brightness can led v log = sysfs_write can (brightness_path led) (dec_int v) log"

definition bb_led_set_trigger :: "(string \<Rightarrow> bool) \<Rightarrow> bb_led_t \<Rightarrow> string \<Rightarrow> sysfs_log \<Rightarrow> int \<times> sysfs_log" where
  "bb_led_set_trigger can led t log = sysfs_write can (trigger_path led) t log"

definition bb_led_on :: "(string \<Rightarrow> bool) \<Rightarrow> bb_led_t \<Rightarrow> sysfs_log \<Rightarrow> int \<times> sysfs_log" where
  "bb_led_on can led log = bb_led_set_brightness can led (max_brightness led) log"

definition bb_led_off :: "(string \<Rightarrow> bool) \<Rightarrow> bb_led_t \<Rightarrow> sysfs_log \<Rightarrow> int \<times> sysfs_log" where
  "bb_led_off can led log = bb_led_set_brightness can led 0 log"

section \<open>The blink thread\<close>

text \<open>\<open>usleep(ms * 1000)\<close>: the product is an int.\<close>

definition sleep_ms :: "int \<Rightarrow> unit cres" where
  "sleep_ms ms = (if in_int32 (ms * 1000) then Inr () else Inl SignedOverflow)"

text \<open>
  One cycle reads the flag three times. The outcome is None while the values seen run out, else the
  completed cycles and the log.
\<close>

function blink_loop :: "(string \<Rightarrow> bool) \<Rightarrow> bb_led_t \<Rightarrow> int \<Rightarrow> int \<Rightarrow> int \<Rightarrow> int \<Rightarrow> bool list \<Rightarrow> sysfs_log
    \<Rightarrow> (int \<times> sysfs_log) option cres" where
  "blink_loop can led on off count cycles [] log = Inr None"
| "blink_loop can led on off count cycles (a # rs) log =
    (if \<not> (a \<and> (count = 0 \<or> cycles < count)) then Inr (Some (cycles, log))
     else let log1 = snd (bb_led_on can led log) in
       case sleep_ms on of Inl e \<Rightarrow> Inl e | Inr _ \<Rightarrow>
       case rs of [] \<Rightarrow> Inr None | b # rs1 \<Rightarrow>
         if \<not> b then Inr (Some (cycles, log1))
         else let log2 = snd (bb_led_off can led log1) in
           case sleep_ms off of Inl e \<Rightarrow> Inl e | Inr _ \<Rightarrow>
           case rs1 of [] \<Rightarrow> Inr None | c # rs2 \<Rightarrow>
             if \<not> c then Inr (Some (cycles, log2))
             else blink_loop can led on off count (cycles + 1) rs2 log2)"
  by pat_completeness auto
termination by (relation "measure (\<lambda>(can, led, on, off, count, cycles, rs, log). length rs)") auto

section \<open>The block\<close>

record led_app =
  a_led :: bb_led_t
  a_active :: bool
  a_on_ms :: int
  a_off_ms :: int
  a_count :: int
  a_threads :: nat
  a_log :: sysfs_log

definition on_app :: "(led_app \<Rightarrow> led_app) \<Rightarrow> led_app bb_block_t \<Rightarrow> led_app bb_block_t" where
  "on_app f b = b\<lparr>k_user := f (k_user b)\<rparr>"

definition publish_fields :: "nat \<Rightarrow> field list \<Rightarrow> 'u bb_block_t \<Rightarrow> 'u bb_block_t cres" where
  "publish_fields n fs b =
    (case write_object fs (replicate n NUL) of Inl e \<Rightarrow> Inl e
     | Inr w \<Rightarrow> Inr (bb_block_publish_event (cstr (jbuf w)) b))"

definition cmd_blink :: "string \<Rightarrow> led_app bb_block_t \<Rightarrow> led_app bb_block_t cres" where
  "cmd_blink payload b =
    (let b0 = on_app (a_active_update (\<lambda>_. False)) b in
     case bb_json_get_int payload ''on_ms'' 500 of Inl e \<Rightarrow> Inl e | Inr on \<Rightarrow>
     case bb_json_get_int payload ''off_ms'' 500 of Inl e \<Rightarrow> Inl e | Inr off \<Rightarrow>
     case bb_json_get_int payload ''count'' 0 of Inl e \<Rightarrow> Inl e | Inr count \<Rightarrow>
     let b1 = on_app (\<lambda>a. a\<lparr>a_on_ms := on, a_off_ms := off, a_count := count\<rparr>) b0 in
     case publish_fields 256 [FStr ''type'' ''blink_start'', FInt ''on_ms'' on, FInt ''off_ms'' off, FInt ''count'' count] b1 of
       Inl e \<Rightarrow> Inl e
     | Inr b2 \<Rightarrow> Inr (on_app (\<lambda>a. a\<lparr>a_active := True, a_threads := a_threads a + 1\<rparr>) b2))"

definition set_led :: "(bb_led_t \<Rightarrow> sysfs_log \<Rightarrow> int \<times> sysfs_log) \<Rightarrow> led_app \<Rightarrow> led_app" where
  "set_led f a = a\<lparr>a_log := snd (f (a_led a) (a_log a))\<rparr>"

definition cmd_solid :: "(string \<Rightarrow> bool) \<Rightarrow> string \<Rightarrow> led_app bb_block_t \<Rightarrow> led_app bb_block_t cres" where
  "cmd_solid can payload b =
    (let b0 = on_app (a_active_update (\<lambda>_. False)) b;
         state = bb_json_get_string payload ''state'';
         b1 = on_app (set_led (if state = Some ''off'' then bb_led_off can else bb_led_on can)) b0
     in publish_fields 256 [FStr ''type'' ''solid'', FStr ''state'' (case state of None \<Rightarrow> ''on'' | Some s \<Rightarrow> s)] b1)"

definition led_on_cmd :: "(string \<Rightarrow> bool) \<Rightarrow> int \<Rightarrow> string \<Rightarrow> string \<Rightarrow> led_app bb_block_t \<Rightarrow> led_app bb_block_t cres" where
  "led_on_cmd can time topic payload b =
    (case bb_json_get_string payload ''cmd'' of
       None \<Rightarrow> Inr b
     | Some cmd \<Rightarrow>
        if cmd = ''blink'' then cmd_blink payload b
        else if cmd = ''solid'' then cmd_solid can payload b
        else if cmd = ''heartbeat'' then
          publish_fields 256 [FStr ''type'' ''mode'', FStr ''mode'' ''heartbeat'']
            (on_app (\<lambda>a. set_led (\<lambda>l. bb_led_set_trigger can l ''heartbeat'') (a\<lparr>a_active := False\<rparr>)) b)
        else if cmd = ''status'' then bb_block_publish_state time BB_STATE_RUNNING b
        else if cmd = ''stop'' then
          publish_fields 128 [FStr ''type'' ''stopped'']
            (on_app (\<lambda>a. set_led (bb_led_off can) (a\<lparr>a_active := False\<rparr>)) b)
        else Inr b)"

definition led_init :: "(string \<Rightarrow> bool) \<Rightarrow> int option option \<Rightarrow> bool \<Rightarrow> string \<Rightarrow> led_app bb_block_t \<Rightarrow> int \<times> led_app bb_block_t" where
  "led_init can maxb writable name b =
    (let (r, led) = bb_led_open maxb writable name;
         b1 = on_app (\<lambda>a. a\<lparr>a_led := led\<rparr>) b
     in if r < 0 then (-1, b1)
        else (0, on_app (set_led (\<lambda>l. bb_led_set_trigger can l ''none'')) b1))"

definition led_stop :: "(string \<Rightarrow> bool) \<Rightarrow> led_app bb_block_t \<Rightarrow> led_app bb_block_t" where
  "led_stop can b = on_app (\<lambda>a. set_led (bb_led_off can) (a\<lparr>a_active := False\<rparr>)) b"

text \<open>The done event of the blink thread.\<close>

definition blink_thread :: "(string \<Rightarrow> bool) \<Rightarrow> bool list \<Rightarrow> led_app bb_block_t \<Rightarrow> led_app bb_block_t option cres" where
  "blink_thread can rs b =
    (let a = k_user b in
     case blink_loop can (a_led a) (a_on_ms a) (a_off_ms a) (a_count a) 0 rs (a_log a) of
       Inl e \<Rightarrow> Inl e
     | Inr None \<Rightarrow> Inr None
     | Inr (Some (cycles, log)) \<Rightarrow>
         map_sum id Some (publish_fields 256 [FStr ''type'' ''blink_done'', FInt ''cycles'' cycles]
           (on_app (a_log_update (\<lambda>_. log)) b)))"

definition led_main :: "(string \<Rightarrow> bool) \<Rightarrow> int option option \<Rightarrow> bool \<Rightarrow> string \<Rightarrow> int \<Rightarrow> led_app block_ops" where
  "led_main can maxb writable name time =
    \<lparr>o_init = Some (led_init can maxb writable name), o_run = None, o_stop = Some (led_stop can),
     o_cmd = Some (led_on_cmd can time)\<rparr>"

text \<open>The process: its exit code and the block in the end, None while the main loop has not ended.\<close>

definition led_process :: "led_app block_ops \<Rightarrow> int \<Rightarrow> int \<Rightarrow> int \<Rightarrow> int \<Rightarrow> int \<Rightarrow> loop_input list \<Rightarrow> led_app bb_block_t
    \<Rightarrow> (int \<times> led_app bb_block_t) option cres" where
  "led_process ops t0 t1 tend sock conn is b =
    (case bb_block_start ops t0 ''/run/bb-bus.sock'' sock conn (b\<lparr>k_id := ''bb-led''\<rparr>) of Inl e \<Rightarrow> Inl e
     | Inr (r, b1) \<Rightarrow> if r < 0 then Inr (Some (1, b1))
       else map_sum id (map_option (\<lambda>b2. (0, b2))) (bb_block_main_loop ops t1 tend is [] b1))"

lemma led_process_offline:
  "sock < 0 \<or> conn < 0 \<Longrightarrow> \<exists>b1. led_process ops t0 t1 tend sock conn is b = Inr (Some (1, b1)) \<and> k_out b1 = k_out b \<and> k_user b1 = k_user b"
  by (auto simp: led_process_def bb_block_start_def bb_bus_connect_def Let_def)

section \<open>Blinking\<close>

definition on_off :: "bb_led_t \<Rightarrow> sysfs_log" where
  "on_off led = [(brightness_path led, dec_int (max_brightness led)), (brightness_path led, dec_int 0)]"

lemma blink_loop_count:
  assumes "can (brightness_path led)" "in_int32 (on * 1000)" "in_int32 (off * 1000)"
    and "cycles + int k = count" "0 < count" "3 * k < length rs" "\<forall>a \<in> set rs. a"
  shows "blink_loop can led on off count cycles rs log
    = Inr (Some (count, log @ concat (replicate k (on_off led))))"
  using assms(4,6,7)
proof (induction k arbitrary: cycles rs log)
  case 0
  then obtain a rs' where "rs = a # rs'" by (cases rs) auto
  then show ?case using 0 assms(5) by simp
next
  case (Suc k)
  obtain a b c rs' where rs: "rs = a # b # c # rs'"
    using Suc.prems(2) by (cases rs; cases "tl rs"; cases "tl (tl rs)") auto
  have abc: "a" "b" "c" using Suc.prems(3) rs by simp_all
  have "cycles + 1 + int k = count" using Suc.prems(1) by simp
  moreover have "3 * k < length rs'" using Suc.prems(2) rs by simp
  ultimately have IH: "blink_loop can led on off count (cycles + 1) rs' (log @ on_off led)
    = Inr (Some (count, (log @ on_off led) @ concat (replicate k (on_off led))))"
    using Suc.IH [of "cycles + 1" rs' "log @ on_off led"] Suc.prems(3) rs by auto
  have "blink_loop can led on off count cycles rs log
    = blink_loop can led on off count (cycles + 1) rs' (log @ on_off led)"
    using abc assms(1-3) Suc.prems(1) rs
    by (simp add: sleep_ms_def bb_led_on_def bb_led_off_def bb_led_set_brightness_def sysfs_write_def on_off_def)
  then show ?case using IH by simp
qed

text \<open>
  A blink with a positive count that nobody interrupts switches the LED on and off exactly count
  times, in alternation, ends off, and reports count cycles.
\<close>

theorem blink_count_exact:
  assumes "can (brightness_path led)" "in_int32 (on * 1000)" "in_int32 (off * 1000)"
    and "0 < n" "3 * n < length rs" "\<forall>a \<in> set rs. a"
  shows "blink_loop can led on off (int n) 0 rs log
    = Inr (Some (int n, log @ concat (replicate n (on_off led))))"
  using blink_loop_count [of can led on off 0 n "int n" rs log] assms by simp

definition demo_led :: bb_led_t where
  "demo_led = snd (bb_led_open (Some (Some 255)) True ''heartbeat'')"

theorem blink_count_exact_witness:
  "blink_loop (\<lambda>_. True) demo_led 200 300 2 0 (replicate 7 True) []
    = Inr (Some (2, on_off demo_led @ on_off demo_led))"
  using blink_count_exact [of "\<lambda>_. True" demo_led 200 300 2 "replicate 7 True" "[]"]
  by (simp add: in_int32_def numeral_2_eq_2)

text \<open>
  An on time above 2147483 ms, taken unchecked from the command, overflows the argument of usleep.
\<close>

theorem blink_sleep_overflow:
  assumes "2147483 < on" and "count = 0 \<or> 0 < count"
  shows "blink_loop can led on off count 0 (True # rs) log = Inl SignedOverflow"
  using assms by (auto simp: sleep_ms_def in_int32_def)

theorem blink_sleep_overflow_witness:
  "blink_loop (\<lambda>_. True) demo_led 2147484 500 0 0 [True] [] = Inl SignedOverflow"
  by (rule blink_sleep_overflow) simp_all

section \<open>Commands\<close>

definition demo_led_block :: "led_app bb_block_t" where
  "demo_led_block = \<lparr>k_id = ''bb-led'', k_bus = demo_bus, k_running = True, k_state = BB_STATE_RUNNING, k_out = [],
     k_user = \<lparr>a_led = demo_led, a_active = False, a_on_ms = 500, a_off_ms = 500, a_count = 0, a_threads = 0, a_log = []\<rparr>\<rparr>"

lemma two_strings_overflow:
  assumes "length k1 + length v1 + 6 < n" "length k1 + length v1 + length k2 + 10 \<le> n"
    and "n < length k1 + length v1 + length k2 + length v2 + 13"
  shows "write_object [FStr k1 v1, FStr k2 v2] (replicate n NUL) = Inl OutOfBounds"
proof -
  let ?b = "replicate n NUL"
  let ?w0 = "bb_json_start_object \<lparr>jbuf = ?b[0 := NUL], jpos = 0\<rparr>"
  have n: "0 < n" "1 < n" using assms(1) by simp_all
  have "holds [] n \<lparr>jbuf = ?b[0 := NUL], jpos = 0\<rparr>" using n by (simp add: holds_def)
  from put_char_holds [OF this, of "CHR ''{''"] have w0: "holds ''{'' n ?w0"
    using n by (simp add: bb_json_start_object_def)
  have "length ''{'' + length (field_text (FStr k1 v1)) + 1 < n"
    using assms(1) assms(2) by (simp add: field_text_def quoted_def)
  from add_field_holds [OF w0 this] obtain w1 where
    w1: "add_field (FStr k1 v1) ?w0 = Inr w1" "holds (''{'' @ field_text (FStr k1 v1) @ '','') n w1" by blast
  have p1: "jpos w1 = length k1 + length v1 + 7" "jsize w1 = n"
    using w1(2) by (simp_all add: holds_def field_text_def quoted_def)
  obtain w2 where w2: "add_key k2 w1 = Inr w2" "jpos w2 = length k1 + length v1 + length k2 + 10" "jsize w2 = n"
    using p1 assms(2) by (simp add: add_key_def sn_print_def Let_def quoted_def length_write_at write_at_def)
  obtain w3 where w3: "sn_print (quoted v2 @ '','') w2 = Inr w3"
    "jpos w3 = length k1 + length v1 + length k2 + length v2 + 13" "jsize w3 = n"
    using w2(2,3) assms(2) by (simp add: sn_print_def Let_def quoted_def write_at_def)
  have "add_field (FStr k2 v2) w1 = Inr w3"
    using w2(1) w3(1) by (simp add: add_field_value add_value_def)
  moreover have "bb_json_end_object w3 = Inl OutOfBounds"
    using w3(2,3) assms(3) by (simp add: bb_json_end_object_def)
  ultimately show ?thesis using w1(1) n by (simp add: write_object_def bb_json_init_def)
qed

text \<open>
  The event of a solid command is written into 256 bytes: a state text of 232 bytes or more, which
  the reader accepts up to 255, pushes the writer's position past the buffer, and closing the object
  reads outside it.
\<close>

theorem led_solid_overflow:
  assumes "bb_json_get_string payload ''cmd'' = Some ''solid''"
    and "bb_json_get_string payload ''state'' = Some v" and "231 < length v"
  shows "led_on_cmd can time topic payload b = Inl OutOfBounds"
proof -
  have "write_object [FStr ''type'' ''solid'', FStr ''state'' v] (replicate 256 NUL) = Inl OutOfBounds"
    by (rule two_strings_overflow) (use assms(3) in simp_all)
  then show ?thesis using assms(1,2) by (simp add: led_on_cmd_def cmd_solid_def publish_fields_def)
qed

theorem led_solid_overflow_witness:
  "led_on_cmd (\<lambda>_. True) 0 ''/dev/bb-led/cmd''
    (object_text [FStr ''cmd'' ''solid'', FStr ''state'' (replicate 232 (CHR ''x''))]) demo_led_block = Inl OutOfBounds"
proof (rule led_solid_overflow)
  let ?p = "object_text [FStr ''cmd'' ''solid'', FStr ''state'' (replicate 232 (CHR ''x''))]"
  show "bb_json_get_string ?p ''cmd'' = Some ''solid''" by code_simp
  show "bb_json_get_string ?p ''state'' = Some (replicate 232 (CHR ''x''))" by code_simp
qed simp

text \<open>What the payload of a command says, as the handler reads it.\<close>

definition reads_int :: "string \<Rightarrow> string \<Rightarrow> int \<Rightarrow> int \<Rightarrow> bool" where
  "reads_int payload key d i \<longleftrightarrow> bb_json_get_int payload key d = Inr i \<and> in_int32 i"

lemma publish_fields_ok:
  assumes "list_all plain_field fs" "length (object_text fs) < n" "0 \<le> b_fd (k_bus b)" "length (k_id b) \<le> 100"
    "length (object_text fs) \<le> 1000"
  shows "publish_fields n fs b
    = Inr (b\<lparr>k_out := k_out b @ [''PUB /dev/'' @ k_id b @ ''/event '' @ object_text fs @ [NL]]\<rparr>)"
proof -
  obtain w where w: "write_object fs (replicate n NUL) = Inr w" "cstr (jbuf w) = object_text fs"
    using json_writes [OF assms(1), of "replicate n NUL"] assms(2) by auto
  have "fit BB_MAX_TOPIC (''/dev/'' @ k_id b @ ''/event'') = ''/dev/'' @ k_id b @ ''/event''"
    using assms(4) by (intro fit_short) (simp add: BB_MAX_TOPIC_def)
  moreover have "fit BB_MAX_LINE (''PUB /dev/'' @ k_id b @ ''/event '' @ object_text fs)
    = ''PUB /dev/'' @ k_id b @ ''/event '' @ object_text fs"
    using assms(4,5) by (intro fit_short) (simp add: BB_MAX_LINE_def)
  ultimately show ?thesis
    using w assms(3)
    by (simp add: publish_fields_def bb_block_publish_event_def bb_bus_publish_def send_line_def block_send_def)
qed

text \<open>
  A blink command sets the three parameters from its members (500, 500 and 0 when absent), announces
  them in one event and starts a blink thread. It stops the one that may be running only by the
  flag, which it sets again before returning.
\<close>

theorem led_blink_command:
  assumes "bb_json_get_string payload ''cmd'' = Some ''blink''"
    and "reads_int payload ''on_ms'' 500 on" "reads_int payload ''off_ms'' 500 off" "reads_int payload ''count'' 0 n"
    and "0 \<le> b_fd (k_bus b)" "length (k_id b) \<le> 100"
  shows "led_on_cmd can time topic payload b = Inr (b\<lparr>k_out := k_out b @ [''PUB /dev/'' @ k_id b @ ''/event '' @
        object_text [FStr ''type'' ''blink_start'', FInt ''on_ms'' on, FInt ''off_ms'' off, FInt ''count'' n] @ [NL]],
      k_user := (k_user b)\<lparr>a_active := True, a_on_ms := on, a_off_ms := off, a_count := n,
        a_threads := a_threads (k_user b) + 1\<rparr>\<rparr>)"
proof -
  let ?fs = "[FStr ''type'' ''blink_start'', FInt ''on_ms'' on, FInt ''off_ms'' off, FInt ''count'' n]"
  let ?b1 = "on_app (\<lambda>a. a\<lparr>a_on_ms := on, a_off_ms := off, a_count := n\<rparr>) (on_app (a_active_update (\<lambda>_. False)) b)"
  have len: "length (dec_int on) \<le> 11" "length (dec_int off) \<le> 11" "length (dec_int n) \<le> 11"
    using assms(2-4) dec_int_length by (simp_all add: reads_int_def)
  have "list_all plain_field ?fs" using assms(2-4) by (simp add: plain_def reads_int_def)
  moreover have "length (object_text ?fs) < 256" "length (object_text ?fs) \<le> 1000"
    using len by (simp_all add: object_text_def field_text_def quoted_def)
  ultimately have "publish_fields 256 ?fs ?b1
    = Inr (?b1\<lparr>k_out := k_out ?b1 @ [''PUB /dev/'' @ k_id ?b1 @ ''/event '' @ object_text ?fs @ [NL]]\<rparr>)"
    using assms(5,6) by (intro publish_fields_ok) (simp_all add: on_app_def)
  then show ?thesis
    using assms(1-4) by (simp add: led_on_cmd_def cmd_blink_def reads_int_def Let_def on_app_def)
qed

theorem led_blink_command_witness:
  "\<exists>b. led_on_cmd (\<lambda>_. True) 0 ''/dev/bb-led/cmd''
      (object_text [FStr ''cmd'' ''blink'', FInt ''on_ms'' 200]) demo_led_block = Inr b
    \<and> a_on_ms (k_user b) = 200 \<and> a_off_ms (k_user b) = 500 \<and> a_active (k_user b)"
proof -
  let ?p = "object_text [FStr ''cmd'' ''blink'', FInt ''on_ms'' 200]"
  have "bb_json_get_string ?p ''cmd'' = Some ''blink''" by code_simp
  moreover have "bb_json_get_int ?p ''on_ms'' 500 = Inr 200" "bb_json_get_int ?p ''off_ms'' 500 = Inr 500"
    "bb_json_get_int ?p ''count'' 0 = Inr 0" by code_simp+
  ultimately show ?thesis
    using led_blink_command [of ?p 200 500 0 demo_led_block "\<lambda>_. True" 0 "''/dev/bb-led/cmd''"]
    by (simp add: reads_int_def in_int32_def demo_led_block_def demo_bus_def)
qed

end
