(* ===== verification/BB_Led_Threads.thy ===== *)
theory BB_Led_Threads
  imports BB_Led
begin

text \<open>
  The threads of \<open>blocks/bb-led/main.c\<close> running at once: the main thread in a command handler or in the stop
  callback, and the blink threads it has created. They share the LED, the flag g_blink_active and the
  parameters of the blink; a thread stands between any two accesses to what is shared. The variables
  are plain ints; an access to one is taken to be atomic. The sleeps take any time.
\<close>

section \<open>The shared state\<close>

text \<open>Where a blink thread is: before reading the flag, the count for the first and the second time, and so on.\<close>

datatype blink_pc = BActive | BCount | BLess | BOn | BSleepOn | BCheck1 | BOff | BSleepOff | BCheck2 | BPublish | BEnd

text \<open>The writes a thread has made to the LED are kept with it; no step reads them.\<close>

record blinker =
  b_pc :: blink_pc
  b_cycles :: int
  b_log :: sysfs_log

text \<open>What the main thread still has to do of the handler it is in.\<close>

datatype main_op = SetActive bool | SetOn int | SetOff int | SetCount int | LedOn | LedOff | Trigger string
  | Event "field list" | Spawn

record led_sys =
  v_led :: bb_led_t
  v_active :: bool
  v_on :: int
  v_off :: int
  v_count :: int
  v_log :: sysfs_log
  v_events :: "field list list"
  v_todo :: "main_op list"
  v_threads :: "blinker list"

definition new_blinker :: blinker where
  "new_blinker = \<lparr>b_pc = BActive, b_cycles = 0, b_log = []\<rparr>"

fun do_op :: "(string \<Rightarrow> bool) \<Rightarrow> main_op \<Rightarrow> led_sys \<Rightarrow> led_sys" where
  "do_op can (SetActive a) s = s\<lparr>v_active := a\<rparr>"
| "do_op can (SetOn n) s = s\<lparr>v_on := n\<rparr>"
| "do_op can (SetOff n) s = s\<lparr>v_off := n\<rparr>"
| "do_op can (SetCount n) s = s\<lparr>v_count := n\<rparr>"
| "do_op can LedOn s = s\<lparr>v_log := snd (bb_led_on can (v_led s) (v_log s))\<rparr>"
| "do_op can LedOff s = s\<lparr>v_log := snd (bb_led_off can (v_led s) (v_log s))\<rparr>"
| "do_op can (Trigger t) s = s\<lparr>v_log := snd (bb_led_set_trigger can (v_led s) t (v_log s))\<rparr>"
| "do_op can (Event fs) s = s\<lparr>v_events := v_events s @ [fs]\<rparr>"
| "do_op can Spawn s = s\<lparr>v_threads := v_threads s @ [new_blinker]\<rparr>"

text \<open>The accesses of the handler of a command, in the order it makes them; status only publishes a state.\<close>

definition blink_ops :: "int \<Rightarrow> int \<Rightarrow> int \<Rightarrow> main_op list" where
  "blink_ops on off n = [SetActive False, SetOn on, SetOff off, SetCount n,
     Event [FStr ''type'' ''blink_start'', FInt ''on_ms'' on, FInt ''off_ms'' off, FInt ''count'' n], SetActive True, Spawn]"

definition cmd_ops :: "string \<Rightarrow> main_op list cres" where
  "cmd_ops payload =
    (case bb_json_get_string payload ''cmd'' of None \<Rightarrow> Inr []
     | Some cmd \<Rightarrow>
        if cmd = ''blink'' then
          (case bb_json_get_int payload ''on_ms'' 500 of Inl e \<Rightarrow> Inl e | Inr on \<Rightarrow>
           case bb_json_get_int payload ''off_ms'' 500 of Inl e \<Rightarrow> Inl e | Inr off \<Rightarrow>
           case bb_json_get_int payload ''count'' 0 of Inl e \<Rightarrow> Inl e | Inr n \<Rightarrow> Inr (blink_ops on off n))
        else if cmd = ''solid'' then
          (let state = bb_json_get_string payload ''state'' in
           Inr [SetActive False, if state = Some ''off'' then LedOff else LedOn,
             Event [FStr ''type'' ''solid'', FStr ''state'' (case state of None \<Rightarrow> ''on'' | Some v \<Rightarrow> v)]])
        else if cmd = ''heartbeat'' then
          Inr [SetActive False, Trigger ''heartbeat'', Event [FStr ''type'' ''mode'', FStr ''mode'' ''heartbeat'']]
        else if cmd = ''stop'' then Inr [SetActive False, LedOff, Event [FStr ''type'' ''stopped'']]
        else Inr [])"

definition quit_ops :: "main_op list" where
  "quit_ops = [SetActive False, LedOff]"

section \<open>Steps\<close>

text \<open>One access of a blink thread.\<close>

definition led_write :: "sysfs_log \<Rightarrow> blink_pc \<Rightarrow> led_sys \<Rightarrow> blinker \<Rightarrow> led_sys \<times> blinker" where
  "led_write log pc s b = (s\<lparr>v_log := log\<rparr>, b\<lparr>b_pc := pc, b_log := b_log b @ drop (length (v_log s)) log\<rparr>)"

definition blink_step :: "(string \<Rightarrow> bool) \<Rightarrow> led_sys \<Rightarrow> blinker \<Rightarrow> (led_sys \<times> blinker) cres" where
  "blink_step can s b = (case b_pc b of
      BActive \<Rightarrow> Inr (s, b\<lparr>b_pc := if v_active s then BCount else BPublish\<rparr>)
    | BCount \<Rightarrow> Inr (s, b\<lparr>b_pc := if v_count s = 0 then BOn else BLess\<rparr>)
    | BLess \<Rightarrow> Inr (s, b\<lparr>b_pc := if b_cycles b < v_count s then BOn else BPublish\<rparr>)
    | BOn \<Rightarrow> Inr (led_write (snd (bb_led_on can (v_led s) (v_log s))) BSleepOn s b)
    | BSleepOn \<Rightarrow> map_sum id (\<lambda>_. (s, b\<lparr>b_pc := BCheck1\<rparr>)) (sleep_ms (v_on s))
    | BCheck1 \<Rightarrow> Inr (s, b\<lparr>b_pc := if v_active s then BOff else BPublish\<rparr>)
    | BOff \<Rightarrow> Inr (led_write (snd (bb_led_off can (v_led s) (v_log s))) BSleepOff s b)
    | BSleepOff \<Rightarrow> map_sum id (\<lambda>_. (s, b\<lparr>b_pc := BCheck2\<rparr>)) (sleep_ms (v_off s))
    | BCheck2 \<Rightarrow> if \<not> v_active s then Inr (s, b\<lparr>b_pc := BPublish\<rparr>)
        else if \<not> in_int32 (b_cycles b + 1) then Inl SignedOverflow
        else Inr (s, b\<lparr>b_pc := BActive, b_cycles := b_cycles b + 1\<rparr>)
    | BPublish \<Rightarrow> Inr (s\<lparr>v_events := v_events s @ [[FStr ''type'' ''blink_done'', FInt ''cycles'' (b_cycles b)]]\<rparr>, b\<lparr>b_pc := BEnd\<rparr>)
    | BEnd \<Rightarrow> Inr (s, b))"

definition thread_step :: "(string \<Rightarrow> bool) \<Rightarrow> led_sys \<Rightarrow> led_sys \<Rightarrow> bool" where
  "thread_step can s t \<longleftrightarrow> (\<exists>i s' b. i < length (v_threads s) \<and> b_pc (v_threads s ! i) \<noteq> BEnd
     \<and> blink_step can s (v_threads s ! i) = Inr (s', b) \<and> t = s'\<lparr>v_threads := (v_threads s)[i := b]\<rparr>)"

text \<open>
  The main thread takes the next command when it has done with the last one; the stop callback is the end
  of the main loop, after which no command comes, but nothing below depends on that.
\<close>

inductive led_step :: "(string \<Rightarrow> bool) \<Rightarrow> led_sys \<Rightarrow> led_sys \<Rightarrow> bool" for can where
  l_command: "v_todo s = [] \<Longrightarrow> cmd_ops payload = Inr ops \<Longrightarrow> led_step can s (s\<lparr>v_todo := ops\<rparr>)"
| l_quit: "v_todo s = [] \<Longrightarrow> led_step can s (s\<lparr>v_todo := quit_ops\<rparr>)"
| l_main: "v_todo s = op # ops \<Longrightarrow> led_step can s (do_op can op (s\<lparr>v_todo := ops\<rparr>))"
| l_thread: "thread_step can s t \<Longrightarrow> led_step can s t"

definition led_sys_init :: "bb_led_t \<Rightarrow> led_sys \<Rightarrow> bool" where
  "led_sys_init led s \<longleftrightarrow> v_led s = led \<and> \<not> v_active s \<and> v_on s = 500 \<and> v_off s = 500 \<and> v_count s = 0
     \<and> v_todo s = [] \<and> v_threads s = []"

definition idle_led_sys :: "bb_led_t \<Rightarrow> led_sys" where
  "idle_led_sys led = \<lparr>v_led = led, v_active = False, v_on = 500, v_off = 500, v_count = 0, v_log = [], v_events = [],
     v_todo = [], v_threads = []\<rparr>"

section \<open>The handlers without interference\<close>

definition run_ops :: "(string \<Rightarrow> bool) \<Rightarrow> main_op list \<Rightarrow> led_sys \<Rightarrow> led_sys" where
  "run_ops can ops s = fold (do_op can) ops s"

text \<open>The part of the state the sequential model of the handlers speaks of.\<close>

definition app_of :: "led_sys \<Rightarrow> led_app" where
  "app_of s = \<lparr>a_led = v_led s, a_active = v_active s, a_on_ms = v_on s, a_off_ms = v_off s, a_count = v_count s,
     a_threads = length (v_threads s), a_log = v_log s\<rparr>"

lemma publish_fields_user: "publish_fields n fs b = Inr b' \<Longrightarrow> k_user b' = k_user b"
  by (auto simp: publish_fields_def bb_block_publish_event_def block_send_def split: sum.splits)

lemma publish_state_user: "bb_block_publish_state time st b = Inr b' \<Longrightarrow> k_user b' = k_user b"
  by (auto simp: bb_block_publish_state_def block_send_def split: sum.splits)

lemma ops_run: "v_todo s = ops @ rest \<Longrightarrow> (led_step can)\<^sup>*\<^sup>* s (run_ops can ops (s\<lparr>v_todo := rest\<rparr>))"
proof (induction ops arbitrary: s)
  case Nil
  then have "s\<lparr>v_todo := rest\<rparr> = s" by auto
  then show ?case by (simp add: run_ops_def)
next
  case (Cons op ops)
  have push: "do_op can op (s\<lparr>v_todo := ops @ rest\<rparr>)\<lparr>v_todo := rest\<rparr> = do_op can op (s\<lparr>v_todo := rest\<rparr>)"
    and todo: "v_todo (do_op can op (s\<lparr>v_todo := ops @ rest\<rparr>)) = ops @ rest" by (cases op; simp)+
  have "led_step can s (do_op can op (s\<lparr>v_todo := ops @ rest\<rparr>))" using l_main [of s op "ops @ rest" can] Cons.prems by simp
  with Cons.IH [OF todo] show ?case unfolding push by (simp add: run_ops_def)
qed

lemma map_sum_Inr: "map_sum id f r = Inr y \<longleftrightarrow> (\<exists>x. r = Inr x \<and> y = f x)"
  by (cases r) auto

text \<open>The events a handler has published, one after the other.\<close>

fun publish_all :: "field list list \<Rightarrow> 'u bb_block_t \<Rightarrow> 'u bb_block_t cres" where
  "publish_all [] b = Inr b"
| "publish_all (fs # evs) b = (case publish_fields 256 fs b of Inl e \<Rightarrow> Inl e | Inr b' \<Rightarrow> publish_all evs b')"

lemma publish_on_app: "publish_fields n fs (on_app f b) = map_sum id (on_app f) (publish_fields n fs b)"
  by (simp add: publish_fields_def bb_block_publish_event_def block_send_def on_app_def split: sum.splits)

lemma on_app_keeps [simp]: "k_out (on_app f b) = k_out b" "k_user (on_app f b) = f (k_user b)"
  by (simp_all add: on_app_def)

text \<open>The short event fits its buffer of 128 bytes as well as one of 256.\<close>

lemma publish_stopped: "publish_fields 128 [FStr ''type'' ''stopped''] b = publish_fields 256 [FStr ''type'' ''stopped''] b"
proof -
  let ?fs = "[FStr ''type'' ''stopped'']"
  have fs: "list_all plain_field ?fs" "length (object_text ?fs) < 128"
    by (simp_all add: plain_def object_text_def field_text_def quoted_def)
  then have "\<exists>w. write_object ?fs (replicate n NUL) = Inr w \<and> cstr (jbuf w) = object_text ?fs" if "128 \<le> n" for n
    using json_writes [of ?fs "replicate n NUL"] that by fastforce
  from this [of 128] this [of 256] show ?thesis by (auto simp: publish_fields_def)
qed

text \<open>
  The two models of the handlers agree. A handler whose accesses are made one after the other, with no blink
  thread in between, does to the LED and its parameters what the sequential handler does, and publishes the
  same events; the machine has such a run. (The status command publishes a state, not an event.)
\<close>

definition same_effect :: "(string \<Rightarrow> bool) \<Rightarrow> string \<Rightarrow> led_sys \<Rightarrow> led_app bb_block_t \<Rightarrow> led_app bb_block_t \<Rightarrow> main_op list \<Rightarrow> bool" where
  "same_effect can payload s b b' ops \<longleftrightarrow> k_user b' = app_of (run_ops can ops s)
     \<and> (bb_json_get_string payload ''cmd'' \<noteq> Some ''status'' \<longrightarrow>
         (\<exists>evs c. v_events (run_ops can ops s) = v_events s @ evs \<and> publish_all evs b = Inr c \<and> k_out c = k_out b'))"

lemma cmd_ops_effect:
  assumes "led_on_cmd can time topic payload b = Inr b'" "k_user b = app_of s"
  shows "\<exists>ops. cmd_ops payload = Inr ops \<and> same_effect can payload s b b' ops"
proof (cases "bb_json_get_string payload ''cmd''")
  case None
  then show ?thesis using assms by (simp add: led_on_cmd_def cmd_ops_def run_ops_def same_effect_def)
next
  case (Some cmd)
  note d = led_on_cmd_def cmd_ops_def run_ops_def same_effect_def app_of_def publish_on_app
  consider "cmd = ''blink''" | "cmd = ''solid''" | "cmd = ''heartbeat''" | "cmd = ''status''" | "cmd = ''stop''"
    | "cmd \<notin> {''blink'', ''solid'', ''heartbeat'', ''status'', ''stop''}" by blast
  then show ?thesis
  proof cases
    case 1
    then show ?thesis using assms Some
      by (auto simp: d cmd_blink_def Let_def blink_ops_def split: sum.splits) (frule publish_fields_user, simp)
  next
    case 2
    then show ?thesis using assms Some
      by (auto simp: d cmd_solid_def Let_def set_led_def map_sum_Inr dest: publish_fields_user split: sum.splits)
  next
    case 3
    then show ?thesis using assms Some by (auto simp: d set_led_def map_sum_Inr dest: publish_fields_user)
  next
    case 4
    then show ?thesis using assms Some by (auto simp: d dest!: publish_state_user)
  next
    case 5
    then show ?thesis using assms Some by (auto simp: d set_led_def map_sum_Inr publish_stopped dest: publish_fields_user)
  next
    case 6
    then show ?thesis using assms Some by (simp add: d)
  qed
qed

theorem handler_ops_sequential:
  assumes "led_on_cmd can time topic payload b = Inr b'" "k_user b = app_of s" "v_todo s = []"
  shows "\<exists>ops. cmd_ops payload = Inr ops \<and> (led_step can)\<^sup>*\<^sup>* s (run_ops can ops s) \<and> same_effect can payload s b b' ops"
proof -
  obtain ops where ops: "cmd_ops payload = Inr ops" "same_effect can payload s b b' ops" using cmd_ops_effect [OF assms(1,2)] by blast
  have "led_step can s (s\<lparr>v_todo := ops\<rparr>)" using l_command [OF assms(3) ops(1)] .
  moreover have "s\<lparr>v_todo := ops, v_todo := []\<rparr> = s" using assms(3) by simp
  ultimately have "(led_step can)\<^sup>*\<^sup>* s (run_ops can ops s)"
    using ops_run [of "s\<lparr>v_todo := ops\<rparr>" ops "[]" can] by (simp add: converse_rtranclp_into_rtranclp)
  then show ?thesis using ops by blast
qed

theorem handler_ops_sequential_witness:
  "\<exists>ops. cmd_ops (object_text [FStr ''cmd'' ''heartbeat'']) = Inr ops
    \<and> (led_step (\<lambda>_. True))\<^sup>*\<^sup>* (idle_led_sys demo_led) (run_ops (\<lambda>_. True) ops (idle_led_sys demo_led))
    \<and> v_log (run_ops (\<lambda>_. True) ops (idle_led_sys demo_led)) = [(trigger_path demo_led, ''heartbeat'')]"
proof -
  let ?p = "object_text [FStr ''cmd'' ''heartbeat'']" and ?s = "idle_led_sys demo_led"
  have cmd: "bb_json_get_string ?p ''cmd'' = Some ''heartbeat''" by code_simp
  have "\<exists>b. led_on_cmd (\<lambda>_. True) 0 ''/dev/bb-led/cmd'' ?p demo_led_block = Inr b" using cmd
    by (simp add: led_on_cmd_def publish_fields_ok on_app_def demo_led_block_def demo_bus_def plain_def object_text_def
        field_text_def quoted_def)
  then obtain b where b: "led_on_cmd (\<lambda>_. True) 0 ''/dev/bb-led/cmd'' ?p demo_led_block = Inr b" ..
  have "k_user demo_led_block = app_of ?s" "v_todo ?s = []"
    by (simp_all add: demo_led_block_def app_of_def idle_led_sys_def)
  from handler_ops_sequential [OF b this] show ?thesis using cmd
    by (auto simp: cmd_ops_def run_ops_def idle_led_sys_def bb_led_set_trigger_def sysfs_write_def)
qed

section \<open>What a blink thread writes\<close>

text \<open>How much of a cycle a thread has written: none, the on, both; a thread that has left the loop any of them.\<close>

fun written :: "blink_pc \<Rightarrow> nat set" where
  "written BSleepOn = {1}" | "written BCheck1 = {1}" | "written BOff = {1}"
| "written BSleepOff = {2}" | "written BCheck2 = {2}"
| "written BPublish = {0, 1, 2}" | "written BEnd = {0, 1, 2}"
| "written _ = {0}"

definition blink_done :: "int \<Rightarrow> field list" where
  "blink_done n = [FStr ''type'' ''blink_done'', FInt ''cycles'' n]"

definition cycle_log :: "bb_led_t \<Rightarrow> int \<Rightarrow> nat \<Rightarrow> sysfs_log" where
  "cycle_log led n k = concat (replicate (nat n) (on_off led)) @ take k (on_off led)"

definition blinker_ok :: "bb_led_t \<Rightarrow> field list list \<Rightarrow> blinker \<Rightarrow> bool" where
  "blinker_ok led evs b \<longleftrightarrow> 0 \<le> b_cycles b \<and> (\<exists>k \<in> written (b_pc b). b_log b = cycle_log led (b_cycles b) k)
     \<and> (b_pc b = BEnd \<longrightarrow> blink_done (b_cycles b) \<in> set evs)"

definition blinkers_ok :: "bb_led_t \<Rightarrow> led_sys \<Rightarrow> bool" where
  "blinkers_ok led s \<longleftrightarrow> v_led s = led \<and> list_all (blinker_ok led (v_events s)) (v_threads s)"

lemma cycle_log_on: "cycle_log led n 0 @ [(brightness_path led, dec_int (max_brightness led))] = cycle_log led n 1"
  and cycle_log_off: "cycle_log led n 1 @ [(brightness_path led, dec_int 0)] = cycle_log led n 2"
  by (simp_all add: cycle_log_def on_off_def)

lemma cycle_log_next: "0 \<le> n \<Longrightarrow> cycle_log led n 2 = cycle_log led (n + 1) 0"
  by (simp add: cycle_log_def nat_add_distrib replicate_append_same [symmetric] on_off_def)

lemma blinker_ok_mono: "blinker_ok led evs b \<Longrightarrow> set evs \<subseteq> set evs' \<Longrightarrow> blinker_ok led evs' b"
  by (auto simp: blinker_ok_def)

lemma do_op_blinkers: "blinkers_ok led s \<Longrightarrow> blinkers_ok led (do_op can op s)"
  by (cases op) (auto simp: blinkers_ok_def new_blinker_def blinker_ok_def cycle_log_def list_all_iff)

lemma blink_step_keeps: "blink_step can s b = Inr (s', b') \<Longrightarrow> v_led s' = v_led s \<and> set (v_events s) \<subseteq> set (v_events s')"
  by (auto simp: blink_step_def led_write_def map_sum_Inr split: blink_pc.splits if_splits)

lemma blink_step_ok:
  assumes "blink_step can s b = Inr (s', b')" "blinker_ok (v_led s) (v_events s) b" "can (brightness_path (v_led s))"
  shows "blinker_ok (v_led s) (v_events s') b'"
  using assms cycle_log_on [of "v_led s" "b_cycles b"] cycle_log_off [of "v_led s" "b_cycles b"]
    cycle_log_next [of "b_cycles b" "v_led s"]
  by (cases "b_pc b") (auto simp: blink_step_def blinker_ok_def led_write_def bb_led_on_def bb_led_off_def blink_done_def
      bb_led_set_brightness_def sysfs_write_def map_sum_Inr split: if_splits)

lemma led_step_blinkers:
  assumes "blinkers_ok led s" "can (brightness_path led)" "led_step can s t" shows "blinkers_ok led t"
  using assms(3)
proof cases
  case (l_main op ops)
  then show ?thesis using do_op_blinkers [of led "s\<lparr>v_todo := ops\<rparr>"] assms(1) by (simp add: blinkers_ok_def)
next
  case l_thread
  then obtain i s' b where i: "i < length (v_threads s)" "blink_step can s (v_threads s ! i) = Inr (s', b)"
    "t = s'\<lparr>v_threads := (v_threads s)[i := b]\<rparr>" by (auto simp: thread_step_def)
  have "blinker_ok led (v_events s') b" using blink_step_ok [OF i(2)] i(1) assms(1,2) by (auto simp: blinkers_ok_def list_all_length)
  then show ?thesis using blink_step_keeps [OF i(2)] i(1,3) assms(1)
    by (auto simp: blinkers_ok_def list_all_length nth_list_update intro: blinker_ok_mono)
qed (use assms(1) in \<open>simp_all add: blinkers_ok_def\<close>)

interpretation blinkers: inv_machine "led_sys_init led" "led_step can"
  "\<lambda>s. can (brightness_path led) \<longrightarrow> blinkers_ok led s" for led can
  by unfold_locales (simp add: led_sys_init_def blinkers_ok_def, blast intro: led_step_blinkers)

text \<open>
  C28. Whatever the handlers and the other threads do in between, the writes of a blink thread are whole cycles of
  on and off, as many as it counts, and at most one cycle begun; a thread that has ended has announced its
  count.
\<close>

theorem blink_trace:
  assumes "reach (led_sys_init led) (led_step can) s" "can (brightness_path led)" "b \<in> set (v_threads s)"
  shows "\<exists>k \<le> 2. b_log b = concat (replicate (nat (b_cycles b)) (on_off led)) @ take k (on_off led)
    \<and> (b_pc b = BOn \<longrightarrow> k = 0) \<and> (b_pc b = BOff \<longrightarrow> k = 1)
    \<and> (b_pc b = BEnd \<longrightarrow> [FStr ''type'' ''blink_done'', FInt ''cycles'' (b_cycles b)] \<in> set (v_events s))"
proof -
  have "blinker_ok led (v_events s) b"
    using blinkers.reach_inv [OF assms(1)] assms(2,3) by (auto simp: blinkers_ok_def list_all_iff)
  then obtain k where k: "k \<in> written (b_pc b)" "b_log b = cycle_log led (b_cycles b) k"
    "b_pc b = BEnd \<longrightarrow> blink_done (b_cycles b) \<in> set (v_events s)" by (auto simp: blinker_ok_def)
  have "k \<le> 2" "b_pc b = BOn \<longrightarrow> k = 0" "b_pc b = BOff \<longrightarrow> k = 1" using k(1) by (cases "b_pc b"; auto)+
  then show ?thesis using k(2,3) by (auto simp: cycle_log_def blink_done_def)
qed

section \<open>Runs\<close>

text \<open>A schedule: the next command, the next access of the main thread, the next access of a blink thread.\<close>

datatype sched = Cmd string | Main | Blinker nat

fun run_sched :: "(string \<Rightarrow> bool) \<Rightarrow> sched list \<Rightarrow> led_sys \<Rightarrow> led_sys option" where
  "run_sched can [] s = Some s"
| "run_sched can (Cmd payload # xs) s =
    (case (v_todo s, cmd_ops payload) of ([], Inr ops) \<Rightarrow> run_sched can xs (s\<lparr>v_todo := ops\<rparr>) | _ \<Rightarrow> None)"
| "run_sched can (Main # xs) s =
    (case v_todo s of op # ops \<Rightarrow> run_sched can xs (do_op can op (s\<lparr>v_todo := ops\<rparr>)) | [] \<Rightarrow> None)"
| "run_sched can (Blinker i # xs) s =
    (if i < length (v_threads s) \<and> b_pc (v_threads s ! i) \<noteq> BEnd then
       case blink_step can s (v_threads s ! i) of Inl e \<Rightarrow> None
       | Inr (s', b) \<Rightarrow> run_sched can xs (s'\<lparr>v_threads := (v_threads s)[i := b]\<rparr>)
     else None)"

lemma run_sched_steps: "run_sched can xs s = Some t \<Longrightarrow> (led_step can)\<^sup>*\<^sup>* s t"
proof (induction can xs s rule: run_sched.induct)
  case (2 can payload xs s)
  then show ?case by (auto split: list.splits sum.splits intro: converse_rtranclp_into_rtranclp l_command)
next
  case (3 can xs s)
  then show ?case by (auto split: list.splits intro: converse_rtranclp_into_rtranclp l_main)
next
  case (4 can i xs s)
  from "4.prems" obtain s' b where i: "i < length (v_threads s)" "b_pc (v_threads s ! i) \<noteq> BEnd"
    "blink_step can s (v_threads s ! i) = Inr (s', b)" by (auto split: if_splits sum.splits prod.splits)
  let ?u = "s'\<lparr>v_threads := (v_threads s)[i := b]\<rparr>"
  have "thread_step can s ?u" using i by (auto simp: thread_step_def)
  moreover have "(led_step can)\<^sup>*\<^sup>* ?u t" using "4.IH" [OF _ i(3) refl] "4.prems" i by simp
  ultimately show ?case by (blast intro: converse_rtranclp_into_rtranclp l_thread)
qed simp

lemma run_sched_reach:
  assumes "run_sched can xs (idle_led_sys led) = Some t" shows "reach (led_sys_init led) (led_step can) t"
  by (rule blinkers.reach_steps [OF _ run_sched_steps [OF assms]])
    (simp add: reach_init led_sys_init_def idle_led_sys_def)

definition blink_cmd :: string where
  "blink_cmd = object_text [FStr ''cmd'' ''blink'', FInt ''on_ms'' 200]"

definition stop_cmd :: string where
  "stop_cmd = object_text [FStr ''cmd'' ''stop'']"

lemma demo_cmds: "cmd_ops blink_cmd = Inr (blink_ops 200 500 0)"
  "cmd_ops stop_cmd = Inr [SetActive False, LedOff, Event [FStr ''type'' ''stopped'']]"
proof -
  have "bb_json_get_string blink_cmd ''cmd'' = Some ''blink''" "bb_json_get_string stop_cmd ''cmd'' = Some ''stop''" by code_simp+
  moreover have "bb_json_get_int blink_cmd ''on_ms'' 500 = Inr 200" "bb_json_get_int blink_cmd ''off_ms'' 500 = Inr 500"
    "bb_json_get_int blink_cmd ''count'' 0 = Inr 0" by code_simp+
  ultimately show "cmd_ops blink_cmd = Inr (blink_ops 200 500 0)"
    "cmd_ops stop_cmd = Inr [SetActive False, LedOff, Event [FStr ''type'' ''stopped'']]" by (simp_all add: cmd_ops_def)
qed

text \<open>A blink command and its thread up to the first write.\<close>

definition demo_blinking :: "sched list" where
  "demo_blinking = Cmd blink_cmd # replicate 7 Main @ [Blinker 0, Blinker 0]"

definition blinking :: "bb_led_t \<Rightarrow> sysfs_log \<Rightarrow> blinker list \<Rightarrow> led_sys" where
  "blinking led log bs = \<lparr>v_led = led, v_active = True, v_on = 200, v_off = 500, v_count = 0, v_log = log,
     v_events = [[FStr ''type'' ''blink_start'', FInt ''on_ms'' 200, FInt ''off_ms'' 500, FInt ''count'' 0]],
     v_todo = [], v_threads = bs\<rparr>"

lemma demo_blinking_run:
  "run_sched can (demo_blinking @ xs) (idle_led_sys led) = run_sched can xs (blinking led [] [new_blinker\<lparr>b_pc := BOn\<rparr>])"
  by (simp add: demo_blinking_def demo_cmds idle_led_sys_def blink_ops_def blink_step_def new_blinker_def blinking_def
      eval_nat_numeral)

theorem blink_trace_witness:
  "\<exists>b. reach (led_sys_init demo_led) (led_step (\<lambda>_. True)) (blinking demo_led [] [b]) \<and> b_log b = []"
proof -
  let ?b = "new_blinker\<lparr>b_pc := BOn\<rparr>"
  have r: "reach (led_sys_init demo_led) (led_step (\<lambda>_. True)) (blinking demo_led [] [?b])"
    by (rule run_sched_reach [of _ demo_blinking]) (use demo_blinking_run [of _ "[]"] in simp)
  from blink_trace [OF r, of ?b] have "b_log ?b = []" by (auto simp: blinking_def new_blinker_def)
  with r show ?thesis by blast
qed

text \<open>
  C30. A stop command can leave the LED on: the thread has read the flag before the handler clears it and writes
  after the handler has switched the LED off. It then ends, and nothing switches the LED off again.
\<close>

theorem stop_leaves_led_on:
  assumes "can (brightness_path led)"
  shows "\<exists>s ops t. reach (led_sys_init led) (led_step can) s \<and> v_todo s = [] \<and> cmd_ops stop_cmd = Inr ops
    \<and> (led_step can)\<^sup>*\<^sup>* (s\<lparr>v_todo := ops\<rparr>) t \<and> v_todo t = [] \<and> \<not> v_active t
    \<and> map b_pc (v_threads t) = [BEnd] \<and> last (v_log t) = (brightness_path led, dec_int (max_brightness led))"
proof -
  let ?b = "new_blinker\<lparr>b_pc := BOn\<rparr>" and ?ops = "[SetActive False, LedOff, Event [FStr ''type'' ''stopped'']]"
  let ?s = "blinking led [] [?b]"
  have "reach (led_sys_init led) (led_step can) ?s"
    by (rule run_sched_reach [of _ demo_blinking]) (use demo_blinking_run [of _ "[]"] in simp)
  moreover obtain t where t: "run_sched can [Main, Main, Main, Blinker 0, Blinker 0, Blinker 0, Blinker 0] (?s\<lparr>v_todo := ?ops\<rparr>) = Some t"
    "v_todo t = []" "\<not> v_active t" "map b_pc (v_threads t) = [BEnd]" "last (v_log t) = (brightness_path led, dec_int (max_brightness led))"
    using assms by (simp add: blinking_def new_blinker_def blink_step_def led_write_def bb_led_on_def bb_led_off_def
        bb_led_set_brightness_def sysfs_write_def sleep_ms_def in_int32_def)
  moreover have "v_todo ?s = []" by (simp add: blinking_def)
  ultimately show ?thesis using demo_cmds(2) run_sched_steps [OF t(1)]
    by (intro exI [of _ ?s] exI [of _ ?ops] exI [of _ t] conjI)
qed

theorem stop_leaves_led_on_witness:
  "\<exists>s ops t. reach (led_sys_init demo_led) (led_step (\<lambda>_. True)) s \<and> v_todo s = [] \<and> cmd_ops stop_cmd = Inr ops
    \<and> (led_step (\<lambda>_. True))\<^sup>*\<^sup>* (s\<lparr>v_todo := ops\<rparr>) t \<and> v_todo t = [] \<and> \<not> v_active t
    \<and> map b_pc (v_threads t) = [BEnd] \<and> last (v_log t) = (brightness_path demo_led, dec_int (max_brightness demo_led))"
  by (rule stop_leaves_led_on) simp

text \<open>
  A second blink command does not stop the first thread: one that sleeps through the handler finds the flag set
  again, and both threads go on, each counting its own cycles.
\<close>

theorem two_blinkers:
  assumes "can (brightness_path led)"
  shows "\<exists>t. reach (led_sys_init led) (led_step can) t \<and> v_todo t = [] \<and> v_active t \<and> map b_cycles (v_threads t) = [1, 1]
    \<and> map b_pc (v_threads t) = [BActive, BActive]
    \<and> v_log t = concat (map (replicate 2) (on_off led))"
proof -
  let ?xs = "demo_blinking @ [Blinker 0, Cmd blink_cmd] @ replicate 7 Main @ [Blinker 1, Blinker 1, Blinker 1,
    Blinker 0, Blinker 1, Blinker 0, Blinker 1, Blinker 0, Blinker 1, Blinker 0, Blinker 1, Blinker 0, Blinker 1]"
  obtain t where t: "run_sched can ?xs (idle_led_sys led) = Some t" "v_todo t = []" "v_active t"
    "map b_cycles (v_threads t) = [1, 1]" "map b_pc (v_threads t) = [BActive, BActive]" "v_log t = concat (map (replicate 2) (on_off led))"
    using assms unfolding demo_blinking_run
    by (simp add: blinking_def new_blinker_def blink_step_def led_write_def bb_led_on_def bb_led_off_def demo_cmds blink_ops_def
        bb_led_set_brightness_def sysfs_write_def sleep_ms_def in_int32_def eval_nat_numeral on_off_def)
  show ?thesis using run_sched_reach [OF t(1)] t(2-) by (intro exI [of _ t] conjI)
qed

theorem two_blinkers_witness:
  "\<exists>t. reach (led_sys_init demo_led) (led_step (\<lambda>_. True)) t \<and> v_active t \<and> length (v_log t) = 4"
  using two_blinkers [of "\<lambda>_. True" demo_led, OF TrueI] by (elim exE conjE) (auto simp: on_off_def)

section \<open>After the flag is cleared\<close>

text \<open>The accesses a thread still makes once the flag is cleared, and whether a write is among them.\<close>

fun left_to_do :: "blink_pc \<Rightarrow> nat" where
  "left_to_do BEnd = 0" | "left_to_do BPublish = 1" | "left_to_do BActive = 2" | "left_to_do BCheck1 = 2"
| "left_to_do BCheck2 = 2" | "left_to_do BSleepOff = 3" | "left_to_do BSleepOn = 3" | "left_to_do BOff = 4"
| "left_to_do BOn = 4" | "left_to_do BLess = 5" | "left_to_do BCount = 6"

fun may_write :: "blink_pc \<Rightarrow> bool" where
  "may_write BCount = True" | "may_write BLess = True" | "may_write BOn = True" | "may_write BOff = True"
| "may_write _ = False"

definition led_work :: "led_sys \<Rightarrow> nat" where
  "led_work s = sum_list (map (left_to_do \<circ> b_pc) (v_threads s))"

definition led_writers :: "led_sys \<Rightarrow> nat" where
  "led_writers s = length (filter (may_write \<circ> b_pc) (v_threads s))"

lemma sum_list_list_update:
  fixes f :: "'a \<Rightarrow> nat"
  assumes "i < length xs" shows "sum_list (map f (xs[i := y])) + f (xs ! i) = sum_list (map f xs) + f y"
  using assms by (induction xs arbitrary: i) (auto simp: nth_Cons' list_update_code split: nat.splits if_splits)

lemma log_grows_one: "length (snd (sysfs_write can path txt log)) \<le> Suc (length log)"
  by (simp add: sysfs_write_def)

lemma idle_blink_step:
  assumes "blink_step can s b = Inr (s', b')" "\<not> v_active s" "b_pc b \<noteq> BEnd"
  shows "left_to_do (b_pc b') < left_to_do (b_pc b)"
    and "length (v_log s') + (if may_write (b_pc b') then 1 else 0) \<le> length (v_log s) + (if may_write (b_pc b) then 1 else 0)"
    and "v_active s' = v_active s \<and> v_on s' = v_on s \<and> v_off s' = v_off s"
  using assms log_grows_one [of can "brightness_path (v_led s)" _ "v_log s"]
  by (cases "b_pc b"; auto simp: blink_step_def led_write_def bb_led_on_def bb_led_off_def bb_led_set_brightness_def map_sum_Inr
      split: if_splits)+

lemma idle_thread_step:
  assumes "thread_step can s t" "\<not> v_active s"
  shows "led_work t < led_work s \<and> length (v_log t) + led_writers t \<le> length (v_log s) + led_writers s
    \<and> \<not> v_active t \<and> v_on t = v_on s \<and> v_off t = v_off s"
proof -
  obtain i s' b where i: "i < length (v_threads s)" "b_pc (v_threads s ! i) \<noteq> BEnd"
    "blink_step can s (v_threads s ! i) = Inr (s', b)" "t = s'\<lparr>v_threads := (v_threads s)[i := b]\<rparr>"
    using assms(1) by (auto simp: thread_step_def)
  note step = idle_blink_step [OF i(3) assms(2) i(2)]
  have "led_work t < led_work s" using step(1) sum_list_list_update [OF i(1), of "left_to_do \<circ> b_pc" b] i(4)
    by (simp add: led_work_def)
  moreover have "length (v_log t) + led_writers t \<le> length (v_log s) + led_writers s"
    using step(2) length_filter_list_update [OF i(1), of "may_write \<circ> b_pc" b] i(4)
    by (simp add: led_writers_def split: if_splits)
  ultimately show ?thesis using step(3) assms(2) i(4) by simp
qed

lemma idle_thread_steps:
  assumes "(thread_step can ^^ n) s t" "\<not> v_active s"
  shows "n + led_work t \<le> led_work s \<and> length (v_log t) + led_writers t \<le> length (v_log s) + led_writers s
    \<and> \<not> v_active t \<and> v_on t = v_on s \<and> v_off t = v_off s"
  using assms(1)
proof (induction n arbitrary: t)
  case 0
  then show ?case using assms(2) by simp
next
  case (Suc n)
  then obtain u where u: "(thread_step can ^^ n) s u" "thread_step can u t" by auto
  then show ?case using Suc.IH [OF u(1)] idle_thread_step [OF u(2)] by simp
qed

lemma idle_blink_step_ex:
  assumes "\<not> v_active s" "in_int32 (v_on s * 1000)" "in_int32 (v_off s * 1000)"
  shows "\<exists>s' b'. blink_step can s b = Inr (s', b')"
  using assms by (cases "b_pc b") (simp_all add: blink_step_def led_write_def sleep_ms_def)

text \<open>
  C29. Once the flag is cleared and while no handler sets it again, the blink threads make a bounded number of
  accesses, write at most once each, and only those between the flag's test and a write; when the sleeps are in
  range the run can stop only where every thread has ended.
\<close>

theorem cleared_flag_drains:
  assumes "(thread_step can ^^ n) s t" "\<not> v_active s"
  shows "n \<le> led_work s \<and> led_work s \<le> 6 * length (v_threads s)
    \<and> length (v_log t) \<le> length (v_log s) + led_writers s
    \<and> (in_int32 (v_on s * 1000) \<and> in_int32 (v_off s * 1000) \<and> (\<nexists>u. thread_step can t u)
      \<longrightarrow> (\<forall>b \<in> set (v_threads t). b_pc b = BEnd))"
proof -
  have "left_to_do pc \<le> 6" for pc by (cases pc) auto
  then have "led_work s \<le> 6 * length (v_threads s)"
    using sum_list_mono [of "v_threads s" "left_to_do \<circ> b_pc" "\<lambda>_. 6"]
    by (simp add: led_work_def sum_list_triv comp_def mult.commute)
  moreover have "\<forall>b \<in> set (v_threads t). b_pc b = BEnd"
    if range: "in_int32 (v_on s * 1000)" "in_int32 (v_off s * 1000)" and stuck: "\<nexists>u. thread_step can t u"
  proof
    fix b assume "b \<in> set (v_threads t)"
    then obtain i where i: "i < length (v_threads t)" "b = v_threads t ! i" by (metis in_set_conv_nth)
    obtain s' b' where "blink_step can t b = Inr (s', b')"
      using idle_blink_step_ex [of t can b] idle_thread_steps [OF assms] range by auto
    with i stuck show "b_pc b = BEnd" unfolding thread_step_def by blast
  qed
  ultimately show ?thesis using idle_thread_steps [OF assms] by auto
qed

theorem cleared_flag_drains_witness:
  "\<exists>t. (thread_step (\<lambda>_. True) ^^ 4) (blinking demo_led [] [new_blinker\<lparr>b_pc := BOn\<rparr>]\<lparr>v_active := False\<rparr>) t
    \<and> length (v_log t) \<le> 1 \<and> led_work t = 0"
proof -
  let ?b = "new_blinker\<lparr>b_pc := BOn\<rparr>"
  let ?s = "blinking demo_led [] [?b]\<lparr>v_active := False\<rparr>"
  have "\<exists>t. (thread_step (\<lambda>_. True) ^^ 4) ?s t \<and> led_work t = 0"
    by (simp add: eval_nat_numeral relcompp_apply thread_step_def blinking_def new_blinker_def blink_step_def led_write_def sleep_ms_def
        in_int32_def led_work_def)
  then obtain t where t: "(thread_step (\<lambda>_. True) ^^ 4) ?s t" "led_work t = 0" by blast
  have "led_writers ?s = 1" "v_log ?s = []" by (simp_all add: led_writers_def blinking_def new_blinker_def)
  moreover have "length (v_log t) \<le> length (v_log ?s) + led_writers ?s"
    using cleared_flag_drains [OF t(1)] by (simp add: blinking_def)
  ultimately show ?thesis using t by auto
qed

end
