(* ===== verification/BB_Led_Session.thy ===== *)
theory BB_Led_Session
  imports BB_Led_Threads BB_Cli
begin

text \<open>
  From the shell to the LED: \<open>bb-cli led\<close> (\<open>tools/bb-cli.c\<close>), the daemon (\<open>services/bb-busd.c\<close>), the main loop of
  the block (\<open>libbb/bb_block.c\<close>), its handler and its blink thread (\<open>blocks/bb-led/main.c\<close>).
\<close>

lemma led_steady: "steady (led_main can maxb writable name time)"
proof -
  have fields: "publish_fields n fs b = Inr b' \<Longrightarrow> k_bus b' = k_bus b \<and> k_running b' = k_running b"
    for n fs and b b' :: "led_app bb_block_t"
    by (auto simp: publish_fields_def bb_block_publish_event_def block_send_def split: sum.splits)
  have state: "bb_block_publish_state t st b = Inr b' \<Longrightarrow> k_bus b' = k_bus b \<and> k_running b' = k_running b"
    for t st and b b' :: "led_app bb_block_t"
    by (auto simp: bb_block_publish_state_def block_send_def split: sum.splits)
  have "led_on_cmd can time t p b = Inr b' \<Longrightarrow> k_bus b' = k_bus b \<and> k_running b' = k_running b" for t p b b'
    by (auto simp: led_on_cmd_def cmd_blink_def cmd_solid_def Let_def on_app_def dest!: fields state
        split: option.splits sum.splits if_splits)
  then show ?thesis by (auto simp: steady_def led_main_def)
qed

text \<open>What a blink command of the shell carries.\<close>

definition blink_text :: "int \<Rightarrow> int \<Rightarrow> int \<Rightarrow> string" where
  "blink_text on off n = object_text [FStr ''cmd'' ''blink'', FInt ''on_ms'' on, FInt ''off_ms'' off, FInt ''count'' n]"

lemma blink_text_reads:
  assumes "in_int32 on" "in_int32 off" "in_int32 n"
  shows "bb_json_get_string (blink_text on off n) ''cmd'' = Some ''blink''"
    "reads_int (blink_text on off n) ''on_ms'' d on" "reads_int (blink_text on off n) ''off_ms'' d off"
    "reads_int (blink_text on off n) ''count'' d n"
proof -
  let ?c = "FStr ''cmd'' ''blink''" and ?i = "FInt ''on_ms'' on" and ?o = "FInt ''off_ms'' off" and ?n = "FInt ''count'' n"
  have plain: "list_all plain_field [?c, ?i, ?o, ?n]" using assms by (simp add: plain_def)
  have "reads_back (blink_text on off n) ?c" "reads_back (blink_text on off n) ?i"
    "reads_back (blink_text on off n) ?o" "reads_back (blink_text on off n) ?n"
    using object_reads_back [of "[]" ?c "[?i, ?o, ?n]"] object_reads_back [of "[?c]" ?i "[?o, ?n]"]
      object_reads_back [of "[?c, ?i]" ?o "[?n]"] object_reads_back [of "[?c, ?i, ?o]" ?n "[]"] plain
    by (simp_all add: blink_text_def key_ok_def plain_def)
  then show "bb_json_get_string (blink_text on off n) ''cmd'' = Some ''blink''"
    "reads_int (blink_text on off n) ''on_ms'' d on" "reads_int (blink_text on off n) ''off_ms'' d off"
    "reads_int (blink_text on off n) ''count'' d n" using assms by (simp_all add: reads_int_def)
qed

lemma blink_text_length:
  assumes "in_int32 on" "in_int32 off" "in_int32 n" shows "length (blink_text on off n) \<le> 200"
  using dec_int_length [OF assms(1)] dec_int_length [OF assms(2)] dec_int_length [OF assms(3)]
  by (simp add: blink_text_def object_text_def field_text_def quoted_def)

lemma blink_text_clean:
  "NL \<notin> set (blink_text on off n)" "NUL \<notin> set (blink_text on off n)" "\<exists>c \<in> set (blink_text on off n). \<not> isspace c"
  using dec_int_chars [of NL] dec_int_chars [of NUL]
  by (auto simp: blink_text_def object_text_def field_text_def quoted_def isdigit_def isspace_def)

text \<open>
  C3. A blink command typed at the shell reaches the LED: the tool sends one line, the daemon passes it to the
  subscribed block, and however the stream arrives the block's main loop goes on in the state with the three
  parameters set and one more blink thread, which, left alone, blinks as often as the shell asked for.
\<close>

theorem led_blink_from_shell:
  assumes "strtol v1 = (on, [])" "strtol v2 = (off, [])" "strtol v3 = (n, [])" "in_int32 on" "in_int32 off" "in_int32 n"
    and "0 \<le> sock" "(''/dev/bb-led/cmd'', c) \<in> subscribed (subs s)" "c \<noteq> fd"
    and "k_running b" "0 \<le> b_fd (k_bus b)" "b_handler (k_bus b)" "length (k_id b) \<le> 100"
  shows "\<exists>line l msg b'. cmd_led sock [''blink'', ''on_ms'', v1, ''off_ms'', v2, ''count'', v3] = Inr (0, [line])
    \<and> client_bytes [] line = ([], [l]) \<and> (c, msg) \<in> set (sends (handle_lines fd [l] s))
    \<and> (\<forall>cs is. concat cs = msg \<and> rx_fits (BB_MAX_LINE - 1) [] cs \<longrightarrow>
        run_loop (led_main can maxb writable name time) tend (map (segment t) cs @ is) [] b
        = run_loop (led_main can maxb writable name time) tend is [] b')
    \<and> k_user b' = (k_user b)\<lparr>a_active := True, a_on_ms := on, a_off_ms := off, a_count := n, a_threads := a_threads (k_user b) + 1\<rparr>
    \<and> (\<forall>rs. can (brightness_path (a_led (k_user b))) \<and> in_int32 (on * 1000) \<and> in_int32 (off * 1000) \<and> 0 < n
        \<and> 3 * nat n < length rs \<and> (\<forall>a \<in> set rs. a) \<longrightarrow>
        blink_loop can (a_led (k_user b)) on off n 0 rs (a_log (k_user b))
        = Inr (Some (n, a_log (k_user b) @ concat (replicate (nat n) (on_off (a_led (k_user b)))))))"
proof -
  let ?ops = "led_main can maxb writable name time" and ?t = "''/dev/bb-led/cmd''" and ?p = "blink_text on off n"
  let ?l = "pub_line ?t ?p"
  have fields: "arg_fields [''on_ms'', v1, ''off_ms'', v2, ''count'', v3] = [FInt ''on_ms'' on, FInt ''off_ms'' off, FInt ''count'' n]"
    using assms(1-6) by (simp add: wrap32_id)
  have len: "length ?p \<le> 200" using blink_text_length assms(4-6) .
  have sent: "cmd_led sock [''blink'', ''on_ms'', v1, ''off_ms'', v2, ''count'', v3] = Inr (0, [?l @ [NL]])"
    using led_command_published [of sock "''blink''" "[''on_ms'', v1, ''off_ms'', v2, ''count'', v3]"] len assms(4-7)
    unfolding fields by (simp add: blink_text_def plain_def)
  have t: "word_ok ?t" "NUL \<notin> set ?t" by (simp_all add: word_ok_def isspace_def)
  have "length ?l \<le> 4286" using len by (simp add: pub_line_def)
  note del = published_delivered [OF t blink_text_clean this assms(8) _ assms(9,11,12)]
  have m: "topic_match ?t ?t" by (simp add: topic_match_def)
  obtain b' where b': "led_on_cmd can time ?t ?p b = Inr b'"
    "k_user b' = (k_user b)\<lparr>a_active := True, a_on_ms := on, a_off_ms := off, a_count := n, a_threads := a_threads (k_user b) + 1\<rparr>"
    using led_blink_command [OF blink_text_reads(1-4) [OF assms(4-6)] assms(11,13), of can time ?t] by simp
  have "run_loop ?ops tend (map (segment t) cs @ is) [] b = run_loop ?ops tend is [] b'"
    if cs: "concat cs = ?l @ [NL]" "rx_fits (BB_MAX_LINE - 1) [] cs" for cs "is"
    using run_loop_segments [OF led_steady fits_nonempty [OF cs(2)] assms(10,11)] del(3) [OF m cs] b'(1)
    by (simp add: led_main_def)
  moreover have "blink_loop can (a_led (k_user b)) on off n 0 rs (a_log (k_user b))
      = Inr (Some (n, a_log (k_user b) @ concat (replicate (nat n) (on_off (a_led (k_user b))))))"
    if "can (brightness_path (a_led (k_user b))) \<and> in_int32 (on * 1000) \<and> in_int32 (off * 1000) \<and> 0 < n
      \<and> 3 * nat n < length rs \<and> (\<forall>a \<in> set rs. a)" for rs
    by (rule blink_loop_count) (use that in auto)
  ultimately show ?thesis using sent del(1,2) [OF m] b'(2) by blast
qed

theorem led_blink_from_shell_witness:
  "\<exists>line l msg b'. cmd_led 5 [''blink'', ''on_ms'', ''200'', ''off_ms'', ''300'', ''count'', ''2''] = Inr (0, [line])
    \<and> client_bytes [] line = ([], [l])
    \<and> (6, msg) \<in> set (sends (handle_lines 5 [l] ((busd_start 3)\<lparr>subs := [\<lparr>s_topic = ''/dev/bb-led/cmd'', s_ids = [6]\<rparr>]\<rparr>)))
    \<and> a_count (k_user (b' :: led_app bb_block_t)) = 2
    \<and> blink_loop (\<lambda>_. True) demo_led 200 300 2 0 (replicate 7 True) [] = Inr (Some (2, on_off demo_led @ on_off demo_led))"
proof -
  have v: "strtol ''200'' = (200, [])" "strtol ''300'' = (300, [])" "strtol ''2'' = (2, [])" by code_simp+
  have i: "in_int32 200" "in_int32 300" "in_int32 2" by (simp_all add: in_int32_def)
  let ?s = "(busd_start 3)\<lparr>subs := [\<lparr>s_topic = ''/dev/bb-led/cmd'', s_ids = [6]\<rparr>]\<rparr>"
  have h: "(0::int) \<le> 5" "(''/dev/bb-led/cmd'', 6) \<in> subscribed (subs ?s)" "(6::int) \<noteq> 5" by (simp_all add: subscribed_def)
  have b: "k_running demo_led_block" "0 \<le> b_fd (k_bus demo_led_block)" "b_handler (k_bus demo_led_block)"
    "length (k_id demo_led_block) \<le> 100" "a_led (k_user demo_led_block) = demo_led" "a_log (k_user demo_led_block) = []"
    by (simp_all add: demo_led_block_def demo_bus_def)
  from led_blink_from_shell [OF v i h b(1-4), of "\<lambda>_. True" None True "''heartbeat''" 0 0 0] show ?thesis
  proof (elim exE conjE, goal_cases)
    case (1 line l msg b')
    have "blink_loop (\<lambda>_. True) demo_led 200 300 2 0 (replicate 7 True) [] = Inr (Some (2, on_off demo_led @ on_off demo_led))"
      using 1(6) [THEN spec, of "replicate 7 True"] by (simp add: b(5,6) in_int32_def numeral_2_eq_2)
    moreover have "a_count (k_user b') = 2" using 1(5) by simp
    ultimately show ?case using 1(1-3) by blast
  qed
qed

end
