(* ===== verification/BB_Audio_Hal.thy ===== *)
theory BB_Audio_Hal
  imports BB_CString
begin

text \<open>
  The ALSA PCM layer \<open>hal/bb_hal_audio.c\<close>: the hardware parameter structure and its masks and
  intervals, the negotiation of bb_audio_open and the frame arithmetic of read and write. Unsigned
  ints are 32-bit words. The kernel's answers to the ioctls are arguments: refinement and parameter
  setting map a parameter structure to the one handed back, None for a failure.
\<close>

section \<open>Masks and intervals\<close>

type_synonym u32 = "32 word"

record snd_interval =
  iv_min :: u32
  iv_max :: u32
  openmin :: bool
  openmax :: bool
  iv_integer :: bool
  iv_empty :: bool

record hw_params =
  masks :: "u32 list list"
  intervals :: "snd_interval list"
  rmask :: u32
  hw_flags :: u32

definition snd_mask_any :: "u32 list" where
  "snd_mask_any = replicate 8 (-1)"

text \<open>Setting one bit in a cleared mask of eight words.\<close>

definition snd_mask_set :: "nat \<Rightarrow> u32 list \<Rightarrow> u32 list" where
  "snd_mask_set v m =
    (if v < 256 then m[v div 32 := or (m ! (v div 32)) (push_bit (v mod 32) 1)] else m)"

definition snd_interval_any :: snd_interval where
  "snd_interval_any = \<lparr>iv_min = 0, iv_max = -1, openmin = False, openmax = False, iv_integer = True, iv_empty = False\<rparr>"

definition snd_interval_set :: "u32 \<Rightarrow> snd_interval" where
  "snd_interval_set v = \<lparr>iv_min = v, iv_max = v, openmin = False, openmax = False, iv_integer = True, iv_empty = False\<rparr>"

definition clamp_u32 :: "u32 \<Rightarrow> u32 \<Rightarrow> u32 \<Rightarrow> u32" where
  "clamp_u32 v lo hi = (if v < lo then lo else if v > hi then hi else v)"

section \<open>Formats and devices\<close>

datatype bb_audio_fmt_t = S16_LE | S24_LE | S32_LE
datatype bb_audio_dir_t = BB_AUDIO_CAPTURE | BB_AUDIO_PLAYBACK

record bb_audio_t =
  au_fd :: int
  au_dir :: bb_audio_dir_t
  au_rate :: u32
  au_channels :: u32
  au_fmt :: bb_audio_fmt_t
  period_frames :: u32
  period_bytes :: u32
  buffer_frames :: u32

text \<open>The kernel's format numbers.\<close>

fun fmt_map :: "bb_audio_fmt_t \<Rightarrow> nat" where
  "fmt_map S16_LE = 2"
| "fmt_map S24_LE = 6"
| "fmt_map S32_LE = 10"

fun fmt_bytes :: "bb_audio_fmt_t \<Rightarrow> u32" where
  "fmt_bytes S16_LE = 2"
| "fmt_bytes S24_LE = 3"
| "fmt_bytes S32_LE = 4"

text \<open>Positions of the parameters among the twelve intervals.\<close>

definition CHANNELS :: nat where "CHANNELS = 2"
definition RATE :: nat where "RATE = 3"
definition PERIOD_SIZE :: nat where "PERIOD_SIZE = 5"
definition BUFFER_SIZE :: nat where "BUFFER_SIZE = 9"
definition BUFFER_BYTES :: nat where "BUFFER_BYTES = 10"

section \<open>Negotiation\<close>

definition hw_any :: hw_params where
  "hw_any = \<lparr>masks = replicate 3 snd_mask_any, intervals = replicate 12 snd_interval_any, rmask = -1, hw_flags = 0\<rparr>"

definition iv :: "hw_params \<Rightarrow> nat \<Rightarrow> snd_interval" where
  "iv hw i = intervals hw ! i"

text \<open>\<open>a / b\<close> on unsigned ints.\<close>

definition udiv :: "u32 \<Rightarrow> u32 \<Rightarrow> u32 cres" where
  "udiv a b = (if b = 0 then Inl DivByZero else Inr (a div b))"

definition period_target :: "u32 \<Rightarrow> u32 \<Rightarrow> u32 \<Rightarrow> u32" where
  "period_target rate ps_min ps_max =
    (let t = clamp_u32 (rate div 100) ps_min ps_max;
         t' = (if t < 16 then 16 else t)
     in if t' > ps_max then ps_max else t')"

definition buffer_target :: "u32 \<Rightarrow> u32 \<Rightarrow> u32 \<Rightarrow> u32 \<Rightarrow> u32 \<Rightarrow> u32 cres" where
  "buffer_target bs_max bb_max channels bytes period =
    (case udiv bb_max (channels * bytes) of Inl e \<Rightarrow> Inl e
     | Inr from_bytes \<Rightarrow>
        let bs = (if bs_max > from_bytes then from_bytes else bs_max) in
        case udiv bs period of Inl e \<Rightarrow> Inl e | Inr q \<Rightarrow> Inr (q * period))"

definition narrow :: "u32 \<Rightarrow> u32 \<Rightarrow> bb_audio_fmt_t \<Rightarrow> hw_params \<Rightarrow> hw_params cres" where
  "narrow rate channels fmt hw =
    (let ms = (masks hw)[0 := snd_mask_set 3 (replicate 8 0), 1 := snd_mask_set (fmt_map fmt) (replicate 8 0),
                         2 := snd_mask_set 0 (replicate 8 0)];
         ch = clamp_u32 channels (iv_min (iv hw CHANNELS)) (iv_max (iv hw CHANNELS));
         r = clamp_u32 rate (iv_min (iv hw RATE)) (iv_max (iv hw RATE));
         p = period_target r (iv_min (iv hw PERIOD_SIZE)) (iv_max (iv hw PERIOD_SIZE))
     in case buffer_target (iv_max (iv hw BUFFER_SIZE)) (iv_max (iv hw BUFFER_BYTES)) ch (fmt_bytes fmt) p of
          Inl e \<Rightarrow> Inl e
        | Inr b \<Rightarrow> Inr (hw\<lparr>masks := ms,
            intervals := (intervals hw)[CHANNELS := snd_interval_set ch, RATE := snd_interval_set r,
              PERIOD_SIZE := snd_interval_set p, BUFFER_SIZE := snd_interval_set b],
            rmask := 0x22C07, hw_flags := 1\<rparr>))"

text \<open>
  \<open>while (sw.boundary < a->buffer_frames * 2) sw.boundary *= 2\<close>: the boundary is 64 bits wide, the
  products with buffer_frames are 32 bits wide. The fuel counts the rounds.
\<close>

fun boundary_loop :: "nat \<Rightarrow> 64 word \<Rightarrow> 64 word \<Rightarrow> 64 word option" where
  "boundary_loop 0 b lim = None"
| "boundary_loop (Suc n) b lim = (if b < lim then boundary_loop n (b * 2) lim else Some b)"

definition sw_boundary :: "nat \<Rightarrow> u32 \<Rightarrow> 64 word option" where
  "sw_boundary n buf = boundary_loop n (ucast (buf * 4)) (ucast (buf * 2))"

record sw_params =
  avail_min :: u32
  start_threshold :: u32
  stop_threshold :: u32
  boundary :: "64 word"

definition sw_of :: "bb_audio_dir_t \<Rightarrow> u32 \<Rightarrow> u32 \<Rightarrow> 64 word \<Rightarrow> sw_params" where
  "sw_of dir period buf bnd =
    \<lparr>avail_min = period, start_threshold = (if dir = BB_AUDIO_CAPTURE then 1 else period * 2),
     stop_threshold = buf, boundary = bnd\<rparr>"

text \<open>The kernel: the descriptor open returns and the answers to the four ioctls.\<close>

record alsa =
  al_open :: "string \<Rightarrow> int"
  al_refine :: "hw_params \<Rightarrow> hw_params option"
  al_hw_params :: "hw_params \<Rightarrow> hw_params option"
  al_sw_params :: "sw_params \<Rightarrow> bool"
  al_prepare :: bool

definition pcm_path :: "int \<Rightarrow> int \<Rightarrow> bb_audio_dir_t \<Rightarrow> string" where
  "pcm_path cno dev dir = take 63 (''/dev/snd/pcmC'' @ dec_int cno @ ''D'' @ dec_int dev
     @ (if dir = BB_AUDIO_CAPTURE then ''c'' else ''p''))"

definition audio_zero :: "bb_audio_dir_t \<Rightarrow> bb_audio_fmt_t \<Rightarrow> bb_audio_t" where
  "audio_zero dir fmt = \<lparr>au_fd = -1, au_dir = dir, au_rate = 0, au_channels = 0, au_fmt = fmt,
     period_frames = 0, period_bytes = 0, buffer_frames = 0\<rparr>"

text \<open>
  Opening: the return code, the device and the descriptors closed on the way. None is the boundary
  loop still running after n rounds.
\<close>

definition read_back :: "hw_params \<Rightarrow> bb_audio_t \<Rightarrow> bb_audio_t" where
  "read_back hw a =
    a\<lparr>au_rate := iv_min (iv hw RATE), au_channels := iv_min (iv hw CHANNELS),
      period_frames := iv_min (iv hw PERIOD_SIZE), buffer_frames := iv_min (iv hw BUFFER_SIZE),
      period_bytes := iv_min (iv hw PERIOD_SIZE) * iv_min (iv hw CHANNELS) * fmt_bytes (au_fmt a)\<rparr>"

definition bb_audio_open :: "nat \<Rightarrow> alsa \<Rightarrow> int \<Rightarrow> int \<Rightarrow> bb_audio_dir_t \<Rightarrow> u32 \<Rightarrow> u32 \<Rightarrow> bb_audio_fmt_t
    \<Rightarrow> (int \<times> bb_audio_t \<times> int list) option cres" where
  "bb_audio_open n al cno dev dir rate channels fmt =
    (let a0 = audio_zero dir fmt; fd = al_open al (pcm_path cno dev dir); a = a0\<lparr>au_fd := fd\<rparr>;
         fail = (\<lambda>a. Inr (Some (-1, a\<lparr>au_fd := -1\<rparr>, [fd])))
     in if fd < 0 then Inr (Some (-1, a, []))
     else case al_refine al hw_any of None \<Rightarrow> fail a
     | Some hw \<Rightarrow>
      (case narrow rate channels fmt hw of Inl e \<Rightarrow> Inl e
       | Inr hw1 \<Rightarrow>
        (case al_hw_params al hw1 of None \<Rightarrow> fail a
         | Some hw2 \<Rightarrow>
           let a1 = read_back hw2 a in
           case sw_boundary n (buffer_frames a1) of None \<Rightarrow> Inr None
           | Some bnd \<Rightarrow>
             if \<not> al_sw_params al (sw_of dir (period_frames a1) (buffer_frames a1) bnd) then fail a1
             else if \<not> al_prepare al then fail a1
             else Inr (Some (0, a1, [])))))"

section \<open>Reading and writing\<close>

definition EINVAL :: int where "EINVAL = 22"
definition EPIPE :: int where "EPIPE = 32"

text \<open>
  \<open>xfer bytes\<close> is what read or write returns for a byte count: a count, or the negative errno.
\<close>

definition frame_bytes :: "bb_audio_t \<Rightarrow> u32" where
  "frame_bytes a = au_channels a * fmt_bytes (au_fmt a)"

definition transfer :: "(u32 \<Rightarrow> int) \<Rightarrow> bb_audio_t \<Rightarrow> u32 \<Rightarrow> int cres" where
  "transfer xfer a frames =
    (let n = xfer (frames * au_channels a * fmt_bytes (au_fmt a)) in
     if n < 0 then Inr n
     else if frame_bytes a = 0 then Inl DivByZero
     else Inr (n div uint (frame_bytes a)))"

definition bb_audio_read :: "(u32 \<Rightarrow> int) \<Rightarrow> bb_audio_t \<Rightarrow> u32 \<Rightarrow> int cres" where
  "bb_audio_read xfer a frames =
    (if au_fd a < 0 \<or> au_dir a \<noteq> BB_AUDIO_CAPTURE then Inr (- EINVAL) else transfer xfer a frames)"

definition bb_audio_write :: "(u32 \<Rightarrow> int) \<Rightarrow> bb_audio_t \<Rightarrow> u32 \<Rightarrow> int cres" where
  "bb_audio_write xfer a frames =
    (if au_fd a < 0 \<or> au_dir a \<noteq> BB_AUDIO_PLAYBACK then Inr (- EINVAL) else transfer xfer a frames)"

definition bb_audio_close :: "bb_audio_t \<Rightarrow> bb_audio_t \<times> int list" where
  "bb_audio_close a = (if au_fd a < 0 then (a, []) else (a\<lparr>au_fd := -1\<rparr>, [au_fd a]))"

section \<open>Facts\<close>

lemma clamp_range: "lo \<le> hi \<Longrightarrow> lo \<le> clamp_u32 v lo hi \<and> clamp_u32 v lo hi \<le> hi"
  by (auto simp: clamp_u32_def not_less)

lemma clamp_id: "lo \<le> v \<Longrightarrow> v \<le> hi \<Longrightarrow> clamp_u32 v lo hi = v"
  by (auto simp: clamp_u32_def)

lemma period_target_range:
  assumes "ps_min \<le> ps_max"
  shows "ps_min \<le> period_target rate ps_min ps_max \<and> period_target rate ps_min ps_max \<le> ps_max"
  using clamp_range [OF assms, of "rate div 100"] assms
  by (auto simp: period_target_def Let_def not_less)

lemma period_target_pos: "0 < ps_max \<Longrightarrow> 0 < period_target rate ps_min ps_max"
proof -
  assume pos: "0 < ps_max"
  have 16: "(0 :: u32) < 16" by simp
  show ?thesis
    using pos 16 by (auto simp: period_target_def Let_def word_gt_0 not_less word_le_0_iff
        dest: order.trans)
qed

text \<open>The buffer is a whole number of periods and fits both limits of the hardware.\<close>

lemma buffer_target_fits:
  assumes "0 < period" "unat channels * unat bytes < 2 ^ 32" "0 < channels" "0 < bytes"
  shows "\<exists>b. buffer_target bs_max bb_max channels bytes period = Inr b \<and> b \<le> bs_max
    \<and> unat period dvd unat b \<and> unat b * (unat channels * unat bytes) \<le> unat bb_max
    \<and> (period \<le> bs_max \<and> unat period * (unat channels * unat bytes) \<le> unat bb_max \<longrightarrow> period \<le> b)"
proof -
  let ?d = "channels * bytes"
  have d: "unat ?d = unat channels * unat bytes" 
    using assms(2) by (intro iffD1 [OF unat_mult_lem]) simp
  have pos: "0 < unat channels" "0 < unat bytes" "0 < unat period"
    using assms by (simp_all add: word_gt_0 unat_gt_0)
  have d0: "?d \<noteq> 0" using d pos by (metis mult_is_0 not_gr_zero unat_0)
  let ?f = "bb_max div ?d"
  define bs where "bs = (if bs_max > ?f then ?f else bs_max)"
  let ?b = "bs div period * period"
  have p0: "period \<noteq> 0" using assms(1) by (simp add: word_gt_0)
  have bt: "buffer_target bs_max bb_max channels bytes period = Inr ?b"
    using d0 p0 by (simp add: buffer_target_def udiv_def Let_def bs_def)
  have q: "unat (bs div period) * unat period \<le> unat bs"
    by (simp add: unat_div div_times_less_eq_dividend)
  moreover have "unat bs < 2 ^ LENGTH(32)" by (rule unsigned_less)
  ultimately have "unat (bs div period) * unat period < 2 ^ LENGTH(32)" by (rule le_less_trans)
  then have ub: "unat ?b = unat (bs div period) * unat period" by (rule iffD1 [OF unat_mult_lem])
  have bs1: "bs \<le> bs_max" "bs \<le> ?f" by (auto simp: bs_def)
  have "?b \<le> bs" using q ub by (simp add: word_le_nat_alt)
  then have "?b \<le> bs_max" using bs1(1) by simp
  moreover have "unat period dvd unat ?b" using ub by simp
  moreover have "unat ?b * (unat channels * unat bytes) \<le> unat bb_max"
  proof -
    have "unat ?b \<le> unat ?f" using \<open>?b \<le> bs\<close> bs1(2) by (simp add: word_le_nat_alt)
    then have "unat ?b * unat ?d \<le> unat bb_max div unat ?d * unat ?d"
      by (simp add: unat_div)
    also have "\<dots> \<le> unat bb_max" by (simp add: div_times_less_eq_dividend)
    finally show ?thesis using d by simp
  qed
  moreover have "period \<le> ?b" if "period \<le> bs_max \<and> unat period * (unat channels * unat bytes) \<le> unat bb_max"
  proof -
    have "unat period \<le> unat bb_max div unat ?d"
      using that d pos by (simp add: less_eq_div_iff_mult_less_eq)
    then have "unat period \<le> unat bs" using that by (auto simp: bs_def unat_div word_le_nat_alt)
    then have "1 \<le> unat bs div unat period" using pos(3) by (simp add: less_eq_div_iff_mult_less_eq)
    then have "unat period \<le> unat bs div unat period * unat period"
      by (metis mult.commute mult_1_right mult_le_mono2)
    then show ?thesis using ub by (simp add: word_le_nat_alt unat_div)
  qed
  ultimately show ?thesis using bt by blast
qed

section \<open>Properties\<close>

text \<open>What a hardware description of ALSA guarantees after a refinement.\<close>

definition hw_sane :: "bb_audio_fmt_t \<Rightarrow> hw_params \<Rightarrow> bool" where
  "hw_sane fmt hw \<longleftrightarrow> length (intervals hw) = 12
     \<and> 0 < iv_min (iv hw CHANNELS) \<and> iv_min (iv hw CHANNELS) \<le> iv_max (iv hw CHANNELS)
     \<and> unat (iv_max (iv hw CHANNELS)) * 4 < 2 ^ 32
     \<and> iv_min (iv hw RATE) \<le> iv_max (iv hw RATE)
     \<and> 0 < iv_max (iv hw PERIOD_SIZE) \<and> iv_min (iv hw PERIOD_SIZE) \<le> iv_max (iv hw PERIOD_SIZE)"

lemma fmt_bytes_range: "0 < fmt_bytes fmt \<and> unat (fmt_bytes fmt) \<le> 4"
  by (cases fmt) simp_all

text \<open>
  The parameters asked of the kernel lie in the hardware's ranges, keep the requested channel count
  and rate when these are supported, and ask for a buffer that is a whole number of periods within
  the hardware's frame and byte limits.
\<close>

theorem narrow_in_range:
  assumes "hw_sane fmt hw"
  shows "\<exists>hw'. narrow rate channels fmt hw = Inr hw'
    \<and> iv_min (iv hw CHANNELS) \<le> iv_min (iv hw' CHANNELS) \<and> iv_min (iv hw' CHANNELS) \<le> iv_max (iv hw CHANNELS)
    \<and> (iv_min (iv hw CHANNELS) \<le> channels \<and> channels \<le> iv_max (iv hw CHANNELS) \<longrightarrow> iv_min (iv hw' CHANNELS) = channels)
    \<and> iv_min (iv hw RATE) \<le> iv_min (iv hw' RATE) \<and> iv_min (iv hw' RATE) \<le> iv_max (iv hw RATE)
    \<and> iv_min (iv hw PERIOD_SIZE) \<le> iv_min (iv hw' PERIOD_SIZE) \<and> iv_min (iv hw' PERIOD_SIZE) \<le> iv_max (iv hw PERIOD_SIZE)
    \<and> iv_min (iv hw' BUFFER_SIZE) \<le> iv_max (iv hw BUFFER_SIZE)
    \<and> unat (iv_min (iv hw' PERIOD_SIZE)) dvd unat (iv_min (iv hw' BUFFER_SIZE))
    \<and> unat (iv_min (iv hw' BUFFER_SIZE)) * (unat (iv_min (iv hw' CHANNELS)) * unat (fmt_bytes fmt))
        \<le> unat (iv_max (iv hw BUFFER_BYTES))"
proof -
  have h: "length (intervals hw) = 12" "0 < iv_min (iv hw CHANNELS)"
    "iv_min (iv hw CHANNELS) \<le> iv_max (iv hw CHANNELS)" "unat (iv_max (iv hw CHANNELS)) * 4 < 2 ^ 32"
    "iv_min (iv hw RATE) \<le> iv_max (iv hw RATE)" "0 < iv_max (iv hw PERIOD_SIZE)"
    "iv_min (iv hw PERIOD_SIZE) \<le> iv_max (iv hw PERIOD_SIZE)"
    using assms by (simp_all add: hw_sane_def)
  define ch where "ch = clamp_u32 channels (iv_min (iv hw CHANNELS)) (iv_max (iv hw CHANNELS))"
  define r where "r = clamp_u32 rate (iv_min (iv hw RATE)) (iv_max (iv hw RATE))"
  define p where "p = period_target r (iv_min (iv hw PERIOD_SIZE)) (iv_max (iv hw PERIOD_SIZE))"
  have ch: "iv_min (iv hw CHANNELS) \<le> ch" "ch \<le> iv_max (iv hw CHANNELS)"
    using clamp_range [OF h(3)] by (simp_all add: ch_def)
  have chp: "0 < ch" using h(2) ch(1) by (rule less_le_trans)
  have p: "0 < p" "iv_min (iv hw PERIOD_SIZE) \<le> p" "p \<le> iv_max (iv hw PERIOD_SIZE)"
    using period_target_pos [OF h(6)] period_target_range [OF h(7)] by (simp_all add: p_def)
  have "unat ch * unat (fmt_bytes fmt) \<le> unat (iv_max (iv hw CHANNELS)) * 4"
    using ch(2) fmt_bytes_range [of fmt] by (intro mult_le_mono) (simp_all add: word_le_nat_alt)
  then have ov: "unat ch * unat (fmt_bytes fmt) < 2 ^ 32" using h(4) by simp
  obtain b where b: "buffer_target (iv_max (iv hw BUFFER_SIZE)) (iv_max (iv hw BUFFER_BYTES)) ch (fmt_bytes fmt) p = Inr b"
    "b \<le> iv_max (iv hw BUFFER_SIZE)" "unat p dvd unat b"
    "unat b * (unat ch * unat (fmt_bytes fmt)) \<le> unat (iv_max (iv hw BUFFER_BYTES))"
    using buffer_target_fits [OF p(1) ov chp] fmt_bytes_range [of fmt] by blast
  define hw' where "hw' = hw\<lparr>masks := (masks hw)[0 := snd_mask_set 3 (replicate 8 0),
        1 := snd_mask_set (fmt_map fmt) (replicate 8 0), 2 := snd_mask_set 0 (replicate 8 0)],
      intervals := (intervals hw)[CHANNELS := snd_interval_set ch, RATE := snd_interval_set r,
        PERIOD_SIZE := snd_interval_set p, BUFFER_SIZE := snd_interval_set b],
      rmask := 0x22C07, hw_flags := 1\<rparr>"
  have eq: "narrow rate channels fmt hw = Inr hw'"
    using b(1) by (simp add: narrow_def Let_def hw'_def ch_def r_def p_def)
  have fields: "iv_min (iv hw' CHANNELS) = ch" "iv_min (iv hw' RATE) = r"
    "iv_min (iv hw' PERIOD_SIZE) = p" "iv_min (iv hw' BUFFER_SIZE) = b"
    using h(1) by (simp_all add: hw'_def iv_def snd_interval_set_def CHANNELS_def RATE_def PERIOD_SIZE_def BUFFER_SIZE_def)
  have "iv_min (iv hw RATE) \<le> r" "r \<le> iv_max (iv hw RATE)" using clamp_range [OF h(5)] by (simp_all add: r_def)
  then show ?thesis using eq fields ch p b(2-4) clamp_id
    by (intro exI [of _ hw']) (auto simp: ch_def)
qed

definition demo_hw :: hw_params where
  "demo_hw = \<lparr>masks = replicate 3 snd_mask_any, intervals = (replicate 12 snd_interval_any)[
     CHANNELS := (snd_interval_set 1)\<lparr>iv_max := 2\<rparr>, RATE := (snd_interval_set 8000)\<lparr>iv_max := 48000\<rparr>,
     PERIOD_SIZE := (snd_interval_set 32)\<lparr>iv_max := 8192\<rparr>, BUFFER_SIZE := (snd_interval_set 64)\<lparr>iv_max := 16384\<rparr>,
     BUFFER_BYTES := (snd_interval_set 256)\<lparr>iv_max := 65535\<rparr>], rmask = 0, hw_flags = 0\<rparr>"

theorem narrow_in_range_witness:
  "\<exists>hw'. narrow 48000 2 S16_LE demo_hw = Inr hw' \<and> iv_min (iv hw' CHANNELS) = 2
    \<and> unat (iv_min (iv hw' PERIOD_SIZE)) dvd unat (iv_min (iv hw' BUFFER_SIZE))"
proof -
  note d = demo_hw_def iv_def snd_interval_set_def CHANNELS_def RATE_def PERIOD_SIZE_def BUFFER_SIZE_def BUFFER_BYTES_def
  have "hw_sane S16_LE demo_hw" by (simp add: hw_sane_def d)
  moreover have "iv_min (iv demo_hw CHANNELS) \<le> 2" "2 \<le> iv_max (iv demo_hw CHANNELS)" by (simp_all add: d)
  ultimately show ?thesis using narrow_in_range [of S16_LE demo_hw 48000 2] by blast
qed

text \<open>
  An open that fails after the device was opened closes its descriptor, once, and leaves -1 in the
  handle; a successful open closes nothing.
\<close>

theorem audio_open_releases:
  assumes "bb_audio_open n al cno dev dir rate channels fmt = Inr (Some (r, a, cl))"
  shows "(r = 0 \<and> 0 \<le> au_fd a \<and> au_fd a = al_open al (pcm_path cno dev dir) \<and> cl = [])
    \<or> (r = -1 \<and> au_fd a < 0
        \<and> cl = (if al_open al (pcm_path cno dev dir) < 0 then [] else [al_open al (pcm_path cno dev dir)]))"
  using assms
  by (auto simp: bb_audio_open_def Let_def read_back_def audio_zero_def not_less
      split: if_splits option.splits sum.splits)

definition demo_alsa :: alsa where
  "demo_alsa = \<lparr>al_open = (\<lambda>_. 7), al_refine = (\<lambda>_. Some demo_hw), al_hw_params = (\<lambda>_. None),
     al_sw_params = (\<lambda>_. True), al_prepare = True\<rparr>"

theorem audio_open_releases_witness:
  "\<exists>a. bb_audio_open 1 demo_alsa 2 0 BB_AUDIO_CAPTURE 48000 2 S16_LE = Inr (Some (-1, a, [7])) \<and> au_fd a < 0"
proof -
  obtain hw where "narrow 48000 2 S16_LE demo_hw = Inr hw"
    using narrow_in_range_witness by blast
  then obtain a where a: "bb_audio_open 1 demo_alsa 2 0 BB_AUDIO_CAPTURE 48000 2 S16_LE = Inr (Some (-1, a, [7]))"
    by (simp add: bb_audio_open_def demo_alsa_def Let_def)
  then show ?thesis using audio_open_releases [OF a] by simp
qed

lemma unat_ucast_up: "unat (ucast (w :: u32) :: 64 word) = unat w"
proof -
  have "unat w < 2 ^ LENGTH(32)" by (rule unsigned_less)
  then have "unat w < 2 ^ 64" by simp
  then show ?thesis by (simp add: unsigned_ucast_eq take_bit_nat_eq_self_iff)
qed

lemma boundary_loop_zero: "0 < lim \<Longrightarrow> boundary_loop n 0 lim = None"
  by (induction n) simp_all

text \<open>
  The boundary loop ends at once for the buffers hardware offers, below 2^30 frames, with four times
  the buffer; for exactly 2^30 frames the 32-bit product wraps to 0 and the loop never ends.
\<close>

theorem boundary_loop_ends:
  "(unat buf < 2 ^ 30 \<longrightarrow> sw_boundary (Suc n) buf = Some (ucast buf * 4))
    \<and> sw_boundary n (2 ^ 30) = None"
proof
  have "\<not> (ucast (buf * 4) :: 64 word) < ucast (buf * 2) \<and> (ucast (buf * 4) :: 64 word) = ucast buf * 4" if "unat buf < 2 ^ 30"
  proof -
    have u4: "unat (buf * 4) = unat buf * 4"
      using that by (intro unat_mult_lem [THEN iffD1, of buf 4, simplified]) simp
    have u2: "unat (buf * 2) = unat buf * 2"
      using that by (intro unat_mult_lem [THEN iffD1, of buf 2, simplified]) simp
    have w: "unat (ucast buf :: 64 word) = unat buf"
      using that by (simp add: unat_ucast_up)
    have "unat (ucast buf * 4 :: 64 word) = unat (ucast buf :: 64 word) * 4"
      using that w by (intro unat_mult_lem [THEN iffD1, of "ucast buf :: 64 word" 4, simplified]) simp
    then have "unat (ucast (buf * 4) :: 64 word) = unat (ucast buf * 4 :: 64 word)"
      using u4 w by (simp add: unat_ucast_up)
    then show ?thesis using u2 u4 by (simp add: word_less_nat_alt unat_ucast_up word_unat_eq_iff)
  qed
  then show "unat buf < 2 ^ 30 \<longrightarrow> sw_boundary (Suc n) buf = Some (ucast buf * 4)"
    unfolding sw_boundary_def by (metis boundary_loop.simps(2))
  show "sw_boundary n (2 ^ 30) = None"
    by (simp add: sw_boundary_def boundary_loop_zero)
qed

theorem boundary_loop_ends_witness: "sw_boundary 1 1920 = Some 7680"
proof -
  have "unat (1920 :: u32) < 2 ^ 30" by simp
  then have "sw_boundary (Suc 0) 1920 = Some (ucast (1920 :: u32) * 4)" using boundary_loop_ends [of 1920 0] by blast
  then show ?thesis by simp
qed

end
