(* ===== verification/BB_Audio_Stream.thy ===== *)
theory BB_Audio_Stream
  imports BB_Audio_Hal BB_Pool
begin

text \<open>
  The thread wrapper \<open>libbb/bb_thread.c\<close> and the audio pipeline \<open>middleware/bb_audio_stream.c\<close>:
  creation and destruction with their resources, and one round of each of the three threads on the
  two frame pools. Results of reads, writes, encoder calls and thread creation are arguments.
\<close>

section \<open>Threads\<close>

record 'e bb_thread_t =
  th_tid :: int
  th_name :: "string option"
  th_entry :: 'e
  cpu_affinity :: int
  sched_policy :: int
  th_priority :: int
  stack_size :: nat

record thread_attr =
  at_stack :: "nat option"
  at_policy :: "int option"
  at_prio :: "int option"

definition SCHED_OTHER :: int where "SCHED_OTHER = 0"
definition SCHED_FIFO :: int where "SCHED_FIFO = 1"

definition spawn_attr :: "'e bb_thread_t \<Rightarrow> thread_attr" where
  "spawn_attr t =
    \<lparr>at_stack = (if stack_size t > 0 then Some (stack_size t) else None),
     at_policy = (if sched_policy t \<noteq> SCHED_OTHER then Some (sched_policy t) else None),
     at_prio = (if th_priority t > 0 then Some (th_priority t) else None)\<rparr>"

text \<open>
  A processor set with one processor, empty when the number does not fit its 1024 bits. The system calls
  return the failure as errno.
\<close>

definition cpu_set :: "int \<Rightarrow> nat set" where
  "cpu_set cpu = (if 0 \<le> cpu \<and> cpu < 1024 then {nat cpu} else {})"

text \<open>
  \<open>create\<close> is pthread_create: 0 or a positive error number, and the new thread's id. The last two
  components are the processors the new thread is bound to and the name it is given.
\<close>

definition bb_thread_spawn :: "(thread_attr \<Rightarrow> 'e \<Rightarrow> int \<times> int) \<Rightarrow> 'e bb_thread_t
    \<Rightarrow> int \<times> 'e bb_thread_t \<times> nat set option \<times> string option" where
  "bb_thread_spawn create t =
    (let (rc, tid) = create (spawn_attr t) (th_entry t) in
     (rc, if rc = 0 then t\<lparr>th_tid := tid\<rparr> else t,
      if rc = 0 \<and> cpu_affinity t \<ge> 0 then Some (cpu_set (cpu_affinity t)) else None,
      if rc = 0 then th_name t else None))"

text \<open>The kernel keeps 15 characters of the name that prctl is given.\<close>

definition bb_thread_set_name :: "string \<Rightarrow> string" where
  "bb_thread_set_name name = take 15 name"

definition bb_thread_join :: "(int \<Rightarrow> int) \<Rightarrow> 'e bb_thread_t \<Rightarrow> int" where
  "bb_thread_join join t = join (th_tid t)"

text \<open>\<open>sched policy priority\<close> is sched_setscheduler for the calling thread: 0 or errno.\<close>

definition bb_thread_set_rt :: "(int \<Rightarrow> int \<Rightarrow> int) \<Rightarrow> int \<Rightarrow> int" where
  "bb_thread_set_rt sched priority = (let e = sched SCHED_FIFO priority in if e \<noteq> 0 then - e else 0)"

definition bb_thread_pin :: "(nat set \<Rightarrow> int) \<Rightarrow> int \<Rightarrow> int" where
  "bb_thread_pin affinity cpu = (let e = affinity (cpu_set cpu) in if e \<noteq> 0 then - e else 0)"

section \<open>Configuration and state\<close>

record bb_audio_stream_config_t =
  cfg_card :: int
  cfg_dev :: int
  cfg_rate :: u32
  cfg_channels :: u32
  cfg_fmt :: bb_audio_fmt_t
  cfg_pool_frames :: int
  cfg_cpu_capture :: int
  cfg_cpu_codec :: int
  cfg_cpu_playback :: int
  cfg_rt_priority :: int
  cfg_codec :: bool

definition bb_audio_stream_config_default :: bb_audio_stream_config_t where
  "bb_audio_stream_config_default = \<lparr>cfg_card = 2, cfg_dev = 0, cfg_rate = 48000, cfg_channels = 2, cfg_fmt = S16_LE,
     cfg_pool_frames = 4, cfg_cpu_capture = 0, cfg_cpu_codec = 1, cfg_cpu_playback = 2, cfg_rt_priority = 80, cfg_codec = False\<rparr>"

record bb_audio_stream_t =
  s_cfg :: bb_audio_stream_config_t
  cap_dev :: bb_audio_t
  pb_dev :: bb_audio_t
  sp_pool :: bb_frame_pool_t
  mp_pool :: bb_frame_pool_t
  s_running :: bool
  s_error :: bool
  cap_frames :: u32
  pb_frames :: u32
  drop_frames :: u32

definition frames_to_bytes :: "u32 \<Rightarrow> u32 \<Rightarrow> bb_audio_fmt_t \<Rightarrow> u32" where
  "frames_to_bytes frames ch fmt = frames * ch * fmt_bytes fmt"

abbreviation set_size :: "nat \<Rightarrow> nat \<Rightarrow> bb_frame_pool_t \<Rightarrow> bb_frame_pool_t" where
  "set_size i n p \<equiv> set_frame i (f_size_update (\<lambda>_. n)) p"

section \<open>Thread rounds\<close>


text \<open>
  One round of the codec loop. \<open>enc in_len out_cap\<close> is the encoder's return code and output length;
  without a codec the payload is copied, and both buffers hold cap bytes.
\<close>

definition codec_payload :: "(nat \<Rightarrow> nat \<Rightarrow> int \<times> nat) \<Rightarrow> nat \<Rightarrow> bool \<Rightarrow> nat \<Rightarrow> nat \<Rightarrow> nat cres" where
  "codec_payload enc cap has_codec in_len out_size =
    (if has_codec then (let (ret, out_len) = enc in_len out_size in Inr (if ret = 0 then out_len else 0))
     else if in_len > cap then Inl OutOfBounds else Inr in_len)"

definition codec_round :: "(nat \<Rightarrow> nat \<Rightarrow> int \<times> nat) \<Rightarrow> nat \<Rightarrow> bb_audio_stream_t \<Rightarrow> bb_audio_stream_t cres" where
  "codec_round enc cap s =
    (case bb_pool_sp_dequeue (sp_pool s) of
       Inl e \<Rightarrow> Inl e
     | Inr (None, p) \<Rightarrow> Inr (s\<lparr>sp_pool := p\<rparr>)
     | Inr (Some i, p) \<Rightarrow>
        (case bb_pool_mp_acquire (mp_pool s) of
           (None, q) \<Rightarrow> Inr (s\<lparr>sp_pool := bb_pool_sp_release i p, mp_pool := q,
               drop_frames := drop_frames s + period_frames (cap_dev s)\<rparr>)
         | (Some j, q) \<Rightarrow>
            let f = p_frames p ! i in
            (case codec_payload enc cap (cfg_codec (s_cfg s)) (f_size f) (f_size (p_frames q ! j)) of
               Inl e \<Rightarrow> Inl e
             | Inr sz \<Rightarrow>
                let q1 = set_frame j (\<lambda>g. g\<lparr>f_size := sz, f_pts := f_pts f, f_frame_num := f_frame_num f\<rparr>) q
                in Inr (s\<lparr>sp_pool := bb_pool_sp_release i p, mp_pool := bb_pool_mp_enqueue j q1\<rparr>))))"

text \<open>The end of the codec thread: drain, then one attempt to enqueue the sentinel.\<close>

fun codec_drain :: "nat \<Rightarrow> bb_frame_pool_t \<Rightarrow> bb_frame_pool_t option cres" where
  "codec_drain 0 p = Inr None"
| "codec_drain (Suc n) p =
    (case bb_pool_sp_dequeue p of Inl e \<Rightarrow> Inl e
     | Inr (None, p') \<Rightarrow> Inr (Some p')
     | Inr (Some i, p') \<Rightarrow> codec_drain n (bb_pool_sp_release i p'))"

definition sentinel_try :: "bb_frame_pool_t \<Rightarrow> bool \<times> bb_frame_pool_t" where
  "sentinel_try q =
    (case bb_pool_mp_acquire q of
       (None, q') \<Rightarrow> (False, q') | (Some j, q') \<Rightarrow> (True, bb_pool_mp_enqueue j (set_size j 0 q')))"

text \<open>
  One round of the playback loop; \<open>wr frames\<close> is the result of the write. None is the wait for a
  frame.
\<close>

definition playback_round :: "(u32 \<Rightarrow> int) \<Rightarrow> int \<Rightarrow> bb_audio_stream_t \<Rightarrow> (bool \<times> int \<times> bb_audio_stream_t) option cres" where
  "playback_round wr xr s =
    (case bb_pool_mp_dequeue (mp_pool s) of
       None \<Rightarrow> Inr None
     | Some (None, q) \<Rightarrow> Inr (Some (False, xr, s\<lparr>mp_pool := q\<rparr>))
     | Some (Some j, q) \<Rightarrow>
        let s1 = s\<lparr>mp_pool := bb_pool_mp_release j q\<rparr>; sz = f_size (p_frames q ! j);
            d = cfg_channels (s_cfg s) * fmt_bytes (cfg_fmt (s_cfg s))
        in if sz = 0 then Inr (Some (True, xr, s1))
        else if d = 0 then Inl DivByZero
        else let n = wr (word_of_nat (sz div unat d)) in
          if n < 0 then
            (if n = - EPIPE then
               (if xr + 1 > 10 then Inr (Some (True, xr + 1, s1\<lparr>s_error := True\<rparr>)) else Inr (Some (False, xr + 1, s1)))
             else Inr (Some (True, xr, s1\<lparr>s_error := True\<rparr>)))
          else Inr (Some (False, 0, s1\<lparr>pb_frames := pb_frames s + word_of_int n\<rparr>)))"

section \<open>Creation\<close>

definition ENODEV :: int where "ENODEV = 19"
definition ENOMEM :: int where "ENOMEM = 12"

text \<open>
  The result: return code, descriptors closed, the two pools, and the heap. \<open>cap\<close> and \<open>pb\<close> are the
  results of the two device opens, \<open>codec\<close> the result of the codec's init.
\<close>

definition bb_audio_stream_init :: "(nat \<Rightarrow> bool) \<Rightarrow> int \<times> bb_audio_t \<Rightarrow> int \<times> bb_audio_t \<Rightarrow> int
    \<Rightarrow> bb_audio_stream_config_t \<Rightarrow> heap \<Rightarrow> (int \<times> int list \<times> bb_frame_pool_t \<times> bb_frame_pool_t \<times> heap) cres" where
  "bb_audio_stream_init ok cap pb codec cfg h =
    (let (rc, cd) = cap; (rp, pd) = pb; cl1 = snd (bb_audio_close cd); cl2 = snd (bb_audio_close pd) in
     if rc < 0 then Inr (- ENODEV, [], pool_zero, pool_zero, h)
     else if rp < 0 then Inr (- ENODEV, cl1, pool_zero, pool_zero, h)
     else if period_frames cd \<noteq> period_frames pd then Inr (- EINVAL, cl1 @ cl2, pool_zero, pool_zero, h)
     else
       (let sz = unat (period_bytes cd); nf = (if cfg_pool_frames cfg > 0 then cfg_pool_frames cfg else 4) in
        case bb_pool_init ok nf sz False h of Inl e \<Rightarrow> Inl e
        | Inr (r1, sp, h1) \<Rightarrow>
          if r1 < 0 then Inr (- ENOMEM, cl1 @ cl2, sp, pool_zero, h1)
          else (case bb_pool_init ok nf sz False h1 of Inl e \<Rightarrow> Inl e
           | Inr (r2, mp, h2) \<Rightarrow>
             if r2 < 0 then
               (case bb_pool_destroy sp h2 of Inl e \<Rightarrow> Inl e
                | Inr (sp', h3) \<Rightarrow> Inr (- ENOMEM, cl1 @ cl2, sp', mp, h3))
             else if cfg_codec cfg \<and> codec < 0 then
               (case bb_pool_destroy mp h2 of Inl e \<Rightarrow> Inl e
                | Inr (mp', h3) \<Rightarrow>
                  (case bb_pool_destroy sp h3 of Inl e \<Rightarrow> Inl e
                   | Inr (sp', h4) \<Rightarrow> Inr (codec, cl1 @ cl2, sp', mp', h4)))
             else Inr (0, [], sp, mp, h2))))"

text \<open>
  Start: the three spawns, each with its own outcome; the list holds the threads joined on an error
  path.
\<close>

datatype stream_thread = Playback | Codec | Capture

definition thread_config :: "bb_audio_stream_config_t \<Rightarrow> stream_thread \<Rightarrow> stream_thread bb_thread_t" where
  "thread_config cfg th =
    \<lparr>th_tid = 0, th_name = None, th_entry = th, cpu_affinity = (case th of Playback \<Rightarrow> cfg_cpu_playback cfg | Codec \<Rightarrow> cfg_cpu_codec cfg | Capture \<Rightarrow> cfg_cpu_capture cfg),
     sched_policy = SCHED_FIFO, th_priority = cfg_rt_priority cfg, stack_size = 0\<rparr>"

definition bb_audio_stream_start :: "(stream_thread \<Rightarrow> int) \<Rightarrow> bb_audio_stream_t \<Rightarrow> int \<times> stream_thread list \<times> bb_audio_stream_t" where
  "bb_audio_stream_start spawn s =
    (let s0 = s\<lparr>s_running := True, s_error := False, cap_frames := 0, pb_frames := 0, drop_frames := 0\<rparr>;
         off = s0\<lparr>s_running := False\<rparr>
     in if spawn Playback < 0 then (-1, [], off)
     else if spawn Codec < 0 then (-1, [Playback], off)
     else if spawn Capture < 0 then (-1, [Codec, Playback], off)
     else (0, [], s0))"

definition bb_audio_stream_stop :: "bb_audio_stream_t \<Rightarrow> int \<times> stream_thread list \<times> bb_audio_stream_t" where
  "bb_audio_stream_stop s =
    (if \<not> s_running s then (0, [], s) else (0, [Capture, Codec, Playback], s\<lparr>s_running := False\<rparr>))"

text \<open>
  Destruction: the threads joined, the descriptors closed, the heap, and the stream, all of it cleared
  to zero; the codec's own destroy is the library's.
\<close>

definition stream_zero :: bb_audio_stream_t where
  "stream_zero = \<lparr>s_cfg = \<lparr>cfg_card = 0, cfg_dev = 0, cfg_rate = 0, cfg_channels = 0, cfg_fmt = S16_LE, cfg_pool_frames = 0,
       cfg_cpu_capture = 0, cfg_cpu_codec = 0, cfg_cpu_playback = 0, cfg_rt_priority = 0, cfg_codec = False\<rparr>,
     cap_dev = (audio_zero BB_AUDIO_CAPTURE S16_LE)\<lparr>au_fd := 0\<rparr>, pb_dev = (audio_zero BB_AUDIO_CAPTURE S16_LE)\<lparr>au_fd := 0\<rparr>,
     sp_pool = pool_zero, mp_pool = pool_zero, s_running = False, s_error = False, cap_frames = 0, pb_frames = 0, drop_frames = 0\<rparr>"

definition bb_audio_stream_destroy :: "bb_audio_stream_t \<Rightarrow> heap \<Rightarrow> (stream_thread list \<times> int list \<times> bb_audio_stream_t \<times> heap) cres" where
  "bb_audio_stream_destroy s h =
    (let (r, joined, s1) = bb_audio_stream_stop s in
     case bb_pool_destroy (sp_pool s1) h of Inl e \<Rightarrow> Inl e
     | Inr (sp, h1) \<Rightarrow>
       (case bb_pool_destroy (mp_pool s1) h1 of Inl e \<Rightarrow> Inl e
        | Inr (mp, h2) \<Rightarrow> Inr (joined, snd (bb_audio_close (cap_dev s1)) @ snd (bb_audio_close (pb_dev s1)), stream_zero, h2)))"

definition bb_audio_stream_stats :: "bb_audio_stream_t \<Rightarrow> u32 \<times> u32 \<times> u32" where
  "bb_audio_stream_stats s = (cap_frames s, pb_frames s, drop_frames s)"

section \<open>Resources\<close>

lemma heap_alloc_keeps: "heap_ok h \<Longrightarrow> heap_alloc ok og h = (p, h') \<Longrightarrow> heap_ok h'"
  by (auto simp: heap_alloc_def heap_ok_def split: if_splits)

lemma c_free_keeps: "heap_ok h \<Longrightarrow> c_free p h = Inr h' \<Longrightarrow> heap_ok h'"
  by (auto simp: c_free_def heap_ok_def split: ptr.splits if_splits)

lemma destroy_frame_keeps: "heap_ok h \<Longrightarrow> destroy_frame f h = Inr h' \<Longrightarrow> heap_ok h'"
  by (auto simp: destroy_frame_def c_munmap_def c_close_def heap_ok_def dest: c_free_keeps [unfolded heap_ok_def, rotated]
      split: ptr.splits if_splits sum.splits)

lemma destroy_frames_keeps: "heap_ok h \<Longrightarrow> destroy_frames fs h = Inr h' \<Longrightarrow> heap_ok h'"
proof (induction fs arbitrary: h)
  case (Cons f fs)
  then obtain h1 where "destroy_frame f h = Inr h1" "destroy_frames fs h1 = Inr h'"
    by (auto split: sum.splits)
  then show ?case using Cons destroy_frame_keeps by blast
qed simp

lemma pool_destroy_keeps: "heap_ok h \<Longrightarrow> bb_pool_destroy p h = Inr (p', h') \<Longrightarrow> heap_ok h'"
  by (auto simp: bb_pool_destroy_def dest: destroy_frames_keeps c_free_keeps split: if_splits sum.splits)

lemma init_frames_keeps: "heap_ok h \<Longrightarrow> init_frames ok sz dm is p h = Inr (r, p', h') \<Longrightarrow> heap_ok h'"
proof (induction "is" arbitrary: p h)
  case (Cons i "is")
  obtain d h1 where al: "heap_alloc ok (if dm then Mapped else Malloced) h = (d, h1)" by fastforce
  then have ok1: "heap_ok h1" using Cons.prems(1) heap_alloc_keeps by blast
  show ?case
  proof (cases "d = Null")
    case True
    then show ?thesis using Cons.prems(2) al ok1
      by (auto simp: Let_def dest: pool_destroy_keeps split: sum.splits)
  next
    case False
    then show ?thesis using Cons.prems(2) al ok1 Cons.IH by (auto simp: Let_def)
  qed
qed simp

lemma pool_init_keeps: "heap_ok h \<Longrightarrow> bb_pool_init ok n sz dm h = Inr (r, p, h') \<Longrightarrow> heap_ok h'"
  by (auto simp: bb_pool_init_def c_calloc_def Let_def dest: heap_alloc_keeps init_frames_keeps
      split: if_splits prod.splits)

lemma pool_owns_cong: "pool_owns h0 p h \<Longrightarrow> live h' = live h \<Longrightarrow> pool_owns h0 p h'"
  using frame_owned_cong [of h' h] by (auto simp: pool_owns_def list_all_iff cong: if_cong)

text \<open>
  An initialisation that fails, wherever it fails, is free of undefined behaviour and gives back
  everything it took: every device that was opened is closed, and the heap is as before.
\<close>

theorem stream_init_releases:
  assumes "heap_ok h" and "fst cap < 0 \<longrightarrow> au_fd (snd cap) < 0" "\<not> fst cap < 0 \<longrightarrow> 0 \<le> au_fd (snd cap)"
    and "\<not> fst cap < 0 \<and> \<not> fst pb < 0 \<longrightarrow> 0 \<le> au_fd (snd pb)"
  shows "\<exists>r cl sp mp h'. bb_audio_stream_init ok cap pb codec cfg h = Inr (r, cl, sp, mp, h')
    \<and> (r < 0 \<longrightarrow> live h' = live h
        \<and> cl = (if fst cap < 0 then [] else if fst pb < 0 then [au_fd (snd cap)] else [au_fd (snd cap), au_fd (snd pb)]))
    \<and> (\<not> r < 0 \<longrightarrow> r = 0 \<and> cl = [] \<and> (\<exists>h1. pool_owns h sp h1 \<and> pool_owns h1 mp h'))"
proof -
  obtain rc cd rp pd where cp: "cap = (rc, cd)" "pb = (rp, pd)" by fastforce
  let ?sz = "unat (period_bytes cd)" and ?nf = "if cfg_pool_frames cfg > 0 then cfg_pool_frames cfg else 4"
  note d = bb_audio_stream_init_def cp bb_audio_close_def
  show ?thesis
  proof (cases "rc < 0 \<or> rp < 0 \<or> period_frames cd \<noteq> period_frames pd")
    case True
    then show ?thesis using assms by (auto simp: d ENODEV_def EINVAL_def Let_def)
  next
    case False
    then have fds: "0 \<le> au_fd cd" "0 \<le> au_fd pd" using assms cp by auto
    obtain r1 sp h1 where i1: "bb_pool_init ok ?nf ?sz False h = Inr (r1, sp, h1)"
      and c1: "r1 = 0 \<and> pool_owns h sp h1 \<or> r1 = -1 \<and> sp = pool_zero \<and> live h1 = live h"
      using pool_init_cases [OF assms(1), of ok ?nf ?sz] by blast
    show ?thesis
    proof (cases "r1 = 0")
      case False
      then show ?thesis using c1 i1 \<open>\<not> (_ \<or> _ \<or> _)\<close> fds by (auto simp: d ENOMEM_def Let_def)
    next
      case r1: True
      then have owns1: "pool_owns h sp h1" using c1 by auto
      obtain r2 mp h2 where i2: "bb_pool_init ok ?nf ?sz False h1 = Inr (r2, mp, h2)"
        and c2: "r2 = 0 \<and> pool_owns h1 mp h2 \<or> r2 = -1 \<and> mp = pool_zero \<and> live h2 = live h1"
        using pool_init_cases [OF pool_init_keeps [OF assms(1) i1], of ok ?nf ?sz] by blast
      show ?thesis
      proof (cases "r2 = 0")
        case False
        then have "live h2 = live h1" "r2 = -1" using c2 by auto
        then obtain h3 where "bb_pool_destroy sp h2 = Inr (pool_zero, h3)" "live h3 = live h"
          using pool_destroy_owned [OF pool_owns_cong [OF owns1]] by blast
        then show ?thesis using i1 i2 r1 \<open>r2 = -1\<close> \<open>\<not> (_ \<or> _ \<or> _)\<close> fds by (auto simp: d ENOMEM_def Let_def)
      next
        case r2: True
        then have owns2: "pool_owns h1 mp h2" using c2 by auto
        obtain h3 where h3: "bb_pool_destroy mp h2 = Inr (pool_zero, h3)" "live h3 = live h1"
          using pool_destroy_owned [OF owns2] by blast
        obtain h4 where h4: "bb_pool_destroy sp h3 = Inr (pool_zero, h4)" "live h4 = live h"
          using pool_destroy_owned [OF pool_owns_cong [OF owns1 h3(2)]] by blast
        show ?thesis
        proof (cases "cfg_codec cfg \<and> codec < 0")
          case True
          then show ?thesis using i1 i2 r1 r2 h3 h4 \<open>\<not> (_ \<or> _ \<or> _)\<close> fds by (auto simp: d Let_def)
        next
          case False
          then show ?thesis using i1 i2 r1 r2 owns1 owns2 \<open>\<not> (rc < 0 \<or> _ \<or> _)\<close> by (auto simp: d Let_def)
        qed
      qed
    qed
  qed
qed

definition demo_dev :: bb_audio_t where
  "demo_dev = \<lparr>au_fd = 7, au_dir = BB_AUDIO_CAPTURE, au_rate = 48000, au_channels = 1, au_fmt = S16_LE,
     period_frames = 480, period_bytes = 960, buffer_frames = 1920\<rparr>"

definition demo_cfg :: bb_audio_stream_config_t where
  "demo_cfg = \<lparr>cfg_card = 2, cfg_dev = 0, cfg_rate = 48000, cfg_channels = 2, cfg_fmt = S16_LE,
     cfg_pool_frames = 1, cfg_cpu_capture = 0, cfg_cpu_codec = 1, cfg_cpu_playback = 2, cfg_rt_priority = 80, cfg_codec = False\<rparr>"

theorem stream_init_releases_witness:
  "\<exists>r cl sp mp h'. bb_audio_stream_init (\<lambda>n. n < 3) (0, demo_dev) (0, demo_dev\<lparr>au_fd := 8\<rparr>) 0 demo_cfg empty_heap
      = Inr (r, cl, sp, mp, h') \<and> (r < 0 \<longrightarrow> live h' = live empty_heap \<and> cl = [7, 8])"
proof -
  have "heap_ok empty_heap" by (simp add: empty_heap_def heap_ok_def)
  from stream_init_releases [OF this, of "(0, demo_dev)" "(0, demo_dev\<lparr>au_fd := 8\<rparr>)" "\<lambda>n. n < 3" 0 demo_cfg]
  show ?thesis by (auto simp: demo_dev_def)
qed

text \<open>Pools created one after the other can be destroyed in either order.\<close>

lemma frame_addr_in: "g \<in> set fs \<Longrightarrow> f_data g = Addr a \<Longrightarrow> a \<in> set (frame_addrs fs)"
  by (induction fs) (auto split: ptr.splits)

lemma pool_owns_swap:
  assumes "pool_owns h p h1" "pool_owns h1 q h2"
  shows "\<exists>hq. pool_owns hq p h2 \<and> pool_owns h q hq"
proof -
  obtain a where a: "p_frames_ptr p = Addr a" "live h1 a = Some Malloced" "length (p_frames p) = nat (p_count p)"
    "list_all (frame_owned h1) (p_frames p)" "distinct (a # frame_addrs (p_frames p))"
    "live h = (\<lambda>x. if x \<in> set (a # frame_addrs (p_frames p)) then None else live h1 x)"
    using assms(1) by (auto simp: pool_owns_def)
  obtain b where b: "p_frames_ptr q = Addr b" "live h2 b = Some Malloced" "length (p_frames q) = nat (p_count q)"
    "list_all (frame_owned h2) (p_frames q)" "distinct (b # frame_addrs (p_frames q))"
    "live h1 = (\<lambda>x. if x \<in> set (b # frame_addrs (p_frames q)) then None else live h2 x)"
    using assms(2) by (auto simp: pool_owns_def)
  let ?A = "set (a # frame_addrs (p_frames p))" and ?B = "set (b # frame_addrs (p_frames q))"
  have up: "live h2 x = Some m" "x \<notin> ?B" if "live h1 x = Some m" for x m
    using that b(6) by (auto split: if_splits)
  have liveA: "\<exists>m. live h1 x = Some m" if "x \<in> ?A" for x
    using that a(2) frame_addr_live [OF a(4), of x] by auto
  have disj: "?A \<inter> ?B = {}" using liveA up(2) by blast
  define hq where "hq = h2\<lparr>live := \<lambda>x. if x \<in> ?A then None else live h2 x\<rparr>"
  have "frame_owned h2 f" if "f \<in> set (p_frames p)" for f
    using that a(4) up(1) by (auto simp: list_all_iff frame_owned_def split: ptr.splits)
  then have "pool_owns hq p h2"
    using a up(1) [OF a(2)] by (auto simp: pool_owns_def hq_def list_all_iff)
  moreover have "frame_owned hq f" if f: "f \<in> set (p_frames q)" for f
  proof (cases "f_data f")
    case (Addr x)
    then have "x \<in> ?B" using frame_addr_in [OF f] by auto
    then have "x \<notin> ?A" using disj by blast
    then show ?thesis using b(4) f Addr by (auto simp: list_all_iff frame_owned_def hq_def)
  qed (use b(4) f in \<open>auto simp: list_all_iff frame_owned_def\<close>)
  then have "pool_owns h q hq"
    using b a(6) disj by (auto simp: pool_owns_def hq_def list_all_iff fun_eq_iff)
  ultimately show ?thesis by blast
qed

lemma stream_destroy_ok:
  assumes "pool_owns h (sp_pool s) h1" "pool_owns h1 (mp_pool s) h2" "0 \<le> au_fd (cap_dev s)" "0 \<le> au_fd (pb_dev s)"
  shows "\<exists>h3. bb_audio_stream_destroy s h2 = Inr (if s_running s then [Capture, Codec, Playback] else [],
      [au_fd (cap_dev s), au_fd (pb_dev s)], stream_zero, h3) \<and> live h3 = live h"
proof -
  obtain hq where hq: "pool_owns hq (sp_pool s) h2" "pool_owns h (mp_pool s) hq" using pool_owns_swap [OF assms(1,2)] by blast
  obtain h3 where h3: "bb_pool_destroy (sp_pool s) h2 = Inr (pool_zero, h3)" "live h3 = live hq"
    using pool_destroy_owned [OF hq(1)] by blast
  obtain h4 where "bb_pool_destroy (mp_pool s) h3 = Inr (pool_zero, h4)" "live h4 = live h"
    using pool_destroy_owned [OF pool_owns_cong [OF hq(2) h3(2)]] by blast
  then show ?thesis using h3(1) assms(3,4)
    by (simp add: bb_audio_stream_destroy_def bb_audio_stream_stop_def bb_audio_close_def)
qed

text \<open>
  A stream that was initialised is destroyed without undefined behaviour, running or not: the three
  threads are joined when it runs, both devices are closed, and the heap is as before the
  initialisation, whatever the threads did to the frames' contents.
\<close>

theorem stream_destroy_releases:
  assumes "pool_owns h (sp_pool s) h1" "pool_owns h1 (mp_pool s) h2" "0 \<le> au_fd (cap_dev s)" "0 \<le> au_fd (pb_dev s)"
  shows "\<exists>h3. bb_audio_stream_destroy s h2 = Inr (if s_running s then [Capture, Codec, Playback] else [],
      [au_fd (cap_dev s), au_fd (pb_dev s)], stream_zero, h3) \<and> live h3 = live h"
  by (rule stream_destroy_ok [OF assms])

lemma stream_destroy_releases_witness:
  "\<exists>sp mp h' h3. bb_audio_stream_init (\<lambda>_. True) (0, demo_dev) (0, demo_dev\<lparr>au_fd := 8\<rparr>) 0 demo_cfg empty_heap
      = Inr (0, [], sp, mp, h')
    \<and> bb_audio_stream_destroy \<lparr>s_cfg = demo_cfg, cap_dev = demo_dev, pb_dev = demo_dev\<lparr>au_fd := 8\<rparr>, sp_pool = sp,
         mp_pool = mp, s_running = False, s_error = False, cap_frames = 0, pb_frames = 0, drop_frames = 0\<rparr> h'
      = Inr ([], [7, 8], stream_zero, h3) \<and> live h3 = live empty_heap"
proof -
  let ?i = "bb_audio_stream_init (\<lambda>_. True) (0, demo_dev) (0, demo_dev\<lparr>au_fd := 8\<rparr>) 0 demo_cfg empty_heap"
  have fd: "au_fd demo_dev = 7" by (simp add: demo_dev_def)
  have r: "case ?i of Inr (r, cl, x) \<Rightarrow> \<not> r < 0 | _ \<Rightarrow> False" by code_simp
  have "heap_ok empty_heap" by (simp add: empty_heap_def heap_ok_def)
  have "\<exists>r cl sp mp h'. ?i = Inr (r, cl, sp, mp, h')
    \<and> (\<not> r < 0 \<longrightarrow> r = 0 \<and> cl = [] \<and> (\<exists>h1. pool_owns empty_heap sp h1 \<and> pool_owns h1 mp h'))"
    using stream_init_releases [OF \<open>heap_ok empty_heap\<close>, of "(0, demo_dev)" "(0, demo_dev\<lparr>au_fd := 8\<rparr>)" "\<lambda>_. True" 0 demo_cfg]
    by (simp add: fd) blast
  then obtain sp mp h' h1 where o: "?i = Inr (0, [], sp, mp, h')" "pool_owns empty_heap sp h1" "pool_owns h1 mp h'"
    using r by auto
  let ?s = "\<lparr>s_cfg = demo_cfg, cap_dev = demo_dev, pb_dev = demo_dev\<lparr>au_fd := 8\<rparr>, sp_pool = sp,
         mp_pool = mp, s_running = False, s_error = False, cap_frames = 0, pb_frames = 0, drop_frames = 0\<rparr>"
  have "\<exists>h3. bb_audio_stream_destroy ?s h' = Inr ([], [7, 8], stream_zero, h3) \<and> live h3 = live empty_heap"
    using stream_destroy_releases [of empty_heap ?s h1 h'] o(2,3) by (simp add: fd)
  then show ?thesis using o(1) by blast
qed

text \<open>
  The cleared stream has descriptor 0 for both devices: destroying it again closes the standard input,
  twice.
\<close>

theorem second_destroy_closes_stdin: "bb_audio_stream_destroy stream_zero h = Inr ([], [0, 0], stream_zero, h)"
  by (simp add: bb_audio_stream_destroy_def bb_audio_stream_stop_def stream_zero_def bb_pool_destroy_def pool_zero_def bb_audio_close_def)

section \<open>Payload sizes\<close>

text \<open>Every frame's size is within the buffer the pool allocated for it.\<close>

definition sizes_ok :: "nat \<Rightarrow> bb_frame_pool_t \<Rightarrow> bool" where
  "sizes_ok cap p \<longleftrightarrow> (\<forall>f \<in> set (p_frames p). f_size f \<le> cap)"

lemma sizes_ok_set_frame:
  "sizes_ok cap p \<Longrightarrow> (\<And>f. f_size f \<le> cap \<Longrightarrow> f_size (g f) \<le> cap) \<Longrightarrow> sizes_ok cap (set_frame i g p)"
proof (cases "i < length (p_frames p)")
  case True
  assume a: "sizes_ok cap p" "\<And>f. f_size f \<le> cap \<Longrightarrow> f_size (g f) \<le> cap"
  then have "f_size (g (p_frames p ! i)) \<le> cap" using True by (auto simp: sizes_ok_def)
  then show ?thesis using a(1) set_update_subset_insert [of "p_frames p" i "g (p_frames p ! i)"]
    by (auto simp: sizes_ok_def set_frame_def)
qed (simp add: set_frame_def sizes_ok_def list_update_beyond not_less)

lemma sizes_ok_set_rc [simp]: "sizes_ok cap p \<Longrightarrow> sizes_ok cap (set_rc i v p)"
  by (rule sizes_ok_set_frame) simp_all

lemma sizes_ok_fields [simp]:
  "sizes_ok cap (p\<lparr>p_write_idx := w\<rparr>) = sizes_ok cap p"
  "sizes_ok cap (p\<lparr>p_read_idx := r\<rparr>) = sizes_ok cap p"
  "sizes_ok cap (p\<lparr>p_mp_pending := k\<rparr>) = sizes_ok cap p"
  "sizes_ok cap (p\<lparr>p_mp_cond := c\<rparr>) = sizes_ok cap p"
  by (simp_all add: sizes_ok_def)









definition demo_frame :: "nat \<Rightarrow> int32 \<Rightarrow> bb_frame_t" where
  "demo_frame sz v = frame_zero\<lparr>f_size := sz, f_refcount := v, f_data := Addr 1, f_fd := -1\<rparr>"

definition demo_stream :: "nat \<Rightarrow> bb_audio_stream_config_t \<Rightarrow> bb_audio_stream_t" where
  "demo_stream sz cfg = \<lparr>s_cfg = cfg, cap_dev = demo_dev, pb_dev = demo_dev,
     sp_pool = pool_zero\<lparr>p_count := 1, p_frames := [demo_frame sz 1], p_write_idx := 1\<rparr>,
     mp_pool = pool_zero\<lparr>p_count := 1, p_frames := [demo_frame 960 0]\<rparr>,
     s_running = True, s_error = False, cap_frames = 0, pb_frames = 0, drop_frames = 0\<rparr>"

lemma demo_dequeue:
  "bb_pool_sp_dequeue (sp_pool (demo_stream sz cfg)) = Inr (Some 0, sp_take (sp_pool (demo_stream sz cfg)))"
  by (simp add: demo_stream_def pool_zero_def demo_frame_def bb_pool_sp_dequeue_def sp_next_def ring_slot_def smod_nonneg)


text \<open>
  The sizes are computed from the configured channels although bb_audio_open may have clamped them:
  on a mono device configured for stereo a full period is recorded with twice the size of its
  buffer, and the copy runs out of both buffers.
\<close>

theorem channel_clamp_overflow:
  assumes "\<not> cfg_codec (s_cfg s)" and "bb_pool_sp_dequeue (sp_pool s) = Inr (Some i, p)"
    and "bb_pool_mp_acquire (mp_pool s) = (Some j, q)"
    and "f_size (p_frames p ! i) = unat (frames_to_bytes (period_frames (cap_dev s)) (cfg_channels (s_cfg s)) (cfg_fmt (s_cfg s)))"
    and "unat (period_bytes (cap_dev s)) < f_size (p_frames p ! i)"
  shows "codec_round enc (unat (period_bytes (cap_dev s))) s = Inl OutOfBounds"
  using assms by (simp add: codec_round_def codec_payload_def)

theorem channel_clamp_overflow_witness:
  "codec_round (\<lambda>_ _. (0, 0)) 960 (demo_stream 1920 demo_cfg) = Inl OutOfBounds"
proof -
  let ?s = "demo_stream 1920 demo_cfg"
  have acq: "\<exists>q. bb_pool_mp_acquire (mp_pool ?s) = (Some 0, q)"
    by (simp add: demo_stream_def bb_pool_mp_acquire_def pool_scan_def demo_frame_def)
  then obtain q where q: "bb_pool_mp_acquire (mp_pool ?s) = (Some 0, q)" by blast
  have "codec_round (\<lambda>_ _. (0, 0)) (unat (period_bytes (cap_dev ?s))) ?s = Inl OutOfBounds"
    by (rule channel_clamp_overflow [OF _ demo_dequeue q])
      (simp_all add: demo_stream_def demo_cfg_def demo_dev_def frames_to_bytes_def sp_take_def demo_frame_def)
  then show ?thesis by (simp add: demo_stream_def demo_dev_def)
qed

section \<open>Error handling of the threads\<close>

text \<open>
  A failed encode is sent on as a frame of size 0, which is also the shutdown signal: the playback
  thread leaves its loop on it, with no error recorded and the stream still running.
\<close>

theorem encode_error_stops_playback:
  assumes "cfg_codec (s_cfg s)" and "bb_pool_sp_dequeue (sp_pool s) = Inr (Some i, p)"
    and "bb_pool_mp_acquire (mp_pool s) = (Some j, q)" "j < length (p_frames q)"
    and "fst (enc (f_size (p_frames p ! i)) (f_size (p_frames q ! j))) \<noteq> 0"
    and "codec_round enc cap s = Inr t" and "bb_pool_mp_dequeue (mp_pool t) = Some (Some j, q')"
  shows "\<exists>u. playback_round wr xr t = Inr (Some (True, xr, u)) \<and> s_error u = s_error s \<and> s_running u = s_running s"
proof -
  let ?g = "\<lambda>g. g\<lparr>f_size := 0, f_pts := f_pts (p_frames p ! i), f_frame_num := f_frame_num (p_frames p ! i)\<rparr>"
  have t: "t = s\<lparr>sp_pool := bb_pool_sp_release i p, mp_pool := bb_pool_mp_enqueue j (set_frame j ?g q)\<rparr>"
    using assms by (simp add: codec_round_def codec_payload_def Let_def case_prod_beta)
  have "p_frames q' = p_frames (mp_pool t)"
    using assms(7) by (auto simp: bb_pool_mp_dequeue_def split: if_splits)
  then have "f_size (p_frames q' ! j) = 0"
    using assms(4) by (simp add: t bb_pool_mp_enqueue_def mp_mark_def mp_count_def mp_signal_def)
  then show ?thesis using assms(7) by (simp add: playback_round_def Let_def t)
qed

definition codec_cfg :: bb_audio_stream_config_t where
  "codec_cfg = demo_cfg\<lparr>cfg_codec := True\<rparr>"

theorem encode_error_stops_playback_witness:
  "\<exists>t u. codec_round (\<lambda>_ _. (-1, 0)) 960 (demo_stream 960 codec_cfg) = Inr t
    \<and> playback_round (\<lambda>_. 480) 0 t = Inr (Some (True, 0, u)) \<and> s_running u"
proof -
  let ?s = "demo_stream 960 codec_cfg" and ?e = "\<lambda>(_::nat) (_::nat). (-1 :: int, 0 :: nat)"
  note d = demo_stream_def pool_zero_def demo_frame_def frame_zero_def codec_cfg_def demo_cfg_def
  have acq: "bb_pool_mp_acquire (mp_pool ?s) = (Some 0, set_rc 0 1 (mp_pool ?s))"
    by (simp add: d bb_pool_mp_acquire_def pool_scan_def)
  have cc: "cfg_codec (s_cfg ?s)" by (simp add: d)
  obtain t where t: "codec_round ?e 960 ?s = Inr t"
    using acq cc by (simp add: codec_round_def demo_dequeue codec_payload_def Let_def)
  have pt: "\<exists>g. (\<forall>f. f_refcount (g f) = f_refcount f) \<and> mp_pool t = bb_pool_mp_enqueue 0 (set_frame 0 g (set_rc 0 1 (mp_pool ?s)))"
    using t acq cc by (auto simp: codec_round_def demo_dequeue codec_payload_def Let_def
        intro!: exI [where x = "\<lambda>g. g\<lparr>f_size := _, f_pts := _, f_frame_num := _\<rparr>"])
  have "\<exists>q'. bb_pool_mp_dequeue (mp_pool t) = Some (Some 0, q')"
    using pt by (auto simp add: bb_pool_mp_dequeue_def bb_pool_mp_enqueue_def mp_mark_def mp_count_def mp_signal_def
        pool_scan_def set_frame_def d)
  then obtain q' where q': "bb_pool_mp_dequeue (mp_pool t) = Some (Some 0, q')" by blast
  have len: "0 < length (p_frames (set_rc 0 1 (mp_pool ?s)))" by (simp add: d)
  from encode_error_stops_playback [OF cc demo_dequeue acq len _ t q', of "\<lambda>_. 480" 0] t
  show ?thesis by (auto simp: demo_stream_def)
qed

text \<open>
  bb_thread_spawn returns what pthread_create returned, 0 or a positive error number, while the
  stream tests for a negative result: a start in which every thread creation failed, as without the
  privilege for SCHED_FIFO, reports success with no thread running.
\<close>

theorem spawn_failure_unnoticed:
  assumes "\<forall>attr th. 0 < fst (create attr th)"
  shows "\<exists>t. bb_audio_stream_start (\<lambda>th. fst (bb_thread_spawn create (thread_config (s_cfg s) th))) s = (0, [], t) \<and> s_running t"
proof -
  have "\<not> fst (bb_thread_spawn create (thread_config (s_cfg s) th)) < 0" for th
    using assms [rule_format, of "spawn_attr (thread_config (s_cfg s) th)" "th_entry (thread_config (s_cfg s) th)"]
    by (simp add: bb_thread_spawn_def case_prod_beta)
  then show ?thesis by (simp add: bb_audio_stream_start_def Let_def)
qed

theorem spawn_failure_unnoticed_witness:
  "\<exists>t. bb_audio_stream_start (\<lambda>th. fst (bb_thread_spawn (\<lambda>_ _. (11, 0)) (thread_config (s_cfg (demo_stream 960 demo_cfg)) th)))
      (demo_stream 960 demo_cfg) = (0, [], t) \<and> s_running t"
  using spawn_failure_unnoticed [of "\<lambda>_ _. (11, 0)"] by simp

end
