(* ===== verification/BB_Audio_Pipeline.thy ===== *)
theory BB_Audio_Pipeline
  imports BB_Audio_Stream BB_Pool_SPSC BB_Pool_MPSC "HOL-Library.Multiset"
begin

text \<open>
  The three threads of \<open>middleware/bb_audio_stream.c\<close> running at once. The capture thread is the producer
  of the ring (BB_Pool_SPSC), the playback thread the consumer of the second pool (BB_Pool_MPSC), the
  codec thread the consumer of the first and the producer of the second, each stopped between any two
  atomic operations of the pool calls it makes. A frame's payload is the contents of its buffer up to
  its size, so that the frame of size 0 that ends the playback is the empty payload. Results of the
  devices and of the encoder are chosen freely by the steps.
\<close>

section \<open>The threads\<close>

text \<open>
  Where the codec thread is: at the top of its loop, in the dequeue, with a captured frame, with its copy,
  with the copy and no longer the frame; after its loop draining the ring, trying to send the sentinel for
  the k-th time, sending it, returned. The capture and the playback thread are at the top of their loop, in
  the loop, or have returned.
\<close>

datatype codec_at = CodNext | CodIn | CodFrame | CodCopied | CodPassed | CodDrain | CodSend nat | CodSentinel | CodDone
datatype cap_at = CapTop | CapIn | CapDone
datatype play_at = PlayTop | PlayIn | PlayDone

text \<open>
  The lists record what the threads did with the frames: those the codec thread dropped, those it
  passed on with what became of them, and those the playback thread took; no step reads them.
\<close>

record 'a pipe =
  ring :: "'a list spsc"
  outp :: mpsc
  out_buf :: "nat \<Rightarrow> 'a list"
  pl_running :: bool
  cap :: cap_at
  cod :: codec_at
  play :: play_at
  dropped :: "'a list list"
  passed :: "('a list \<times> 'a list) list"
  sentinels :: nat
  taken_out :: "'a list list"

text \<open>Which thread a step of a pool belongs to is read off the program point that it moves.\<close>

definition capture_moves :: "'a spsc \<Rightarrow> 'a spsc \<Rightarrow> bool" where
  "capture_moves r r' \<longleftrightarrow> spsc_step r r' \<and> cpc r' = cpc r"

definition ring_moves :: "'a spsc \<Rightarrow> 'a spsc \<Rightarrow> bool" where
  "ring_moves r r' \<longleftrightarrow> spsc_step r r' \<and> cpc r' \<noteq> cpc r"

definition codec_moves :: "mpsc \<Rightarrow> mpsc \<Rightarrow> bool" where
  "codec_moves q q' \<longleftrightarrow> mpsc_step 1 q q' \<and> mpc q' 0 \<noteq> mpc q 0"

definition playback_moves :: "mpsc \<Rightarrow> mpsc \<Rightarrow> bool" where
  "playback_moves q q' \<longleftrightarrow> mpsc_step 1 q q' \<and> dpc q' \<noteq> dpc q"

fun holds_ring :: "cpc \<Rightarrow> bool" where
  "holds_ring (CHold i) = True"
| "holds_ring _ = False"

fun acquiring :: "mpc \<Rightarrow> bool" where
  "acquiring MIdle = True"
| "acquiring (MScan i) = True"
| "acquiring _ = False"

fun enqueuing :: "mpc \<Rightarrow> bool" where
  "enqueuing (MHold i) = True"
| "enqueuing (MMarked i) = True"
| "enqueuing (MLocked i) = True"
| "enqueuing MCounted = True"
| "enqueuing MUnlock = True"
| "enqueuing _ = False"

fun holds_out :: "dpc \<Rightarrow> bool" where
  "holds_out (DHold j) = True"
| "holds_out _ = False"

text \<open>What a dequeue from the ring leads to: a frame, or NULL, which ends the round or the drain.\<close>

definition after_dequeue :: "codec_at \<Rightarrow> cpc \<Rightarrow> codec_at" where
  "after_dequeue c q = (case q of
      CHold i \<Rightarrow> (if c = CodIn then CodFrame else c)
    | CIdle \<Rightarrow> (if c = CodDrain then CodSend 0 else CodNext)
    | _ \<Rightarrow> c)"

text \<open>
  The load of the flag at the top of a loop is a step of its own. The capture thread: \<open>capture\<close> is a step of a
  pool call, of the read into the buffer, or of the release after a failed read. \<open>capture_exit\<close> is the end of
  its loop, for the flag or for an error. \<open>codec\<close> says whether there is a codec; an encoder may give
  any payload, the empty one on an error.
\<close>

inductive pipe_step :: "bool \<Rightarrow> 'a pipe \<Rightarrow> 'a pipe \<Rightarrow> bool" for codec where
  capture_enter: "cap s = CapTop \<Longrightarrow> pl_running s \<Longrightarrow> pipe_step codec s (s\<lparr>cap := CapIn\<rparr>)"
| capture: "cap s = CapIn \<Longrightarrow> capture_moves (ring s) r \<Longrightarrow>
    pipe_step codec s (s\<lparr>ring := r, cap := (if ppc r = PIdle then CapTop else CapIn)\<rparr>)"
| capture_exit: "cap s = CapTop \<Longrightarrow> pipe_step codec s (s\<lparr>cap := CapDone\<rparr>)"
| cod_enter: "cod s = CodNext \<Longrightarrow> pl_running s \<Longrightarrow> pipe_step codec s (s\<lparr>cod := CodIn\<rparr>)"
| cod_dequeue: "cod s = CodIn \<or> cod s = CodDrain \<Longrightarrow> ring_moves (ring s) r \<Longrightarrow> \<not> holds_ring (cpc (ring s)) \<Longrightarrow>
    pipe_step codec s (s\<lparr>ring := r, cod := after_dequeue (cod s) (cpc r)\<rparr>)"
| cod_acquire: "cod s = CodFrame \<Longrightarrow> acquiring (mpc (outp s) 0) \<Longrightarrow> codec_moves (outp s) q \<Longrightarrow> mpc q 0 \<noteq> MIdle \<Longrightarrow>
    pipe_step codec s (s\<lparr>outp := q\<rparr>)"
| cod_drop: "cod s = CodFrame \<Longrightarrow> acquiring (mpc (outp s) 0) \<Longrightarrow> codec_moves (outp s) q \<Longrightarrow> mpc q 0 = MIdle \<Longrightarrow>
    cpc (ring s) = CHold i \<Longrightarrow> ring_moves (ring s) r \<Longrightarrow>
    pipe_step codec s (s\<lparr>outp := q, ring := r, dropped := dropped s @ [bufs (ring s) i], cod := CodNext\<rparr>)"
| cod_copy: "cod s = CodFrame \<Longrightarrow> mpc (outp s) 0 = MHold j \<Longrightarrow> cpc (ring s) = CHold i \<Longrightarrow> codec \<or> y = bufs (ring s) i \<Longrightarrow>
    pipe_step codec s (s\<lparr>out_buf := (out_buf s)(j := y), cod := CodCopied\<rparr>)"
| cod_release: "cod s = CodCopied \<Longrightarrow> mpc (outp s) 0 = MHold j \<Longrightarrow> cpc (ring s) = CHold i \<Longrightarrow> ring_moves (ring s) r \<Longrightarrow>
    pipe_step codec s (s\<lparr>ring := r, passed := passed s @ [(bufs (ring s) i, out_buf s j)], cod := CodPassed\<rparr>)"
| cod_enqueue: "cod s = CodPassed \<or> cod s = CodSentinel \<Longrightarrow> enqueuing (mpc (outp s) 0) \<Longrightarrow> codec_moves (outp s) q \<Longrightarrow>
    pipe_step codec s (s\<lparr>outp := q,
      cod := (if mpc q 0 \<noteq> MIdle then cod s else if cod s = CodPassed then CodNext else CodDone)\<rparr>)"
| cod_leave: "cod s = CodNext \<Longrightarrow> \<not> pl_running s \<Longrightarrow> pipe_step codec s (s\<lparr>cod := CodDrain\<rparr>)"
| cod_drain: "cod s = CodDrain \<Longrightarrow> cpc (ring s) = CHold i \<Longrightarrow> ring_moves (ring s) r \<Longrightarrow>
    pipe_step codec s (s\<lparr>ring := r, dropped := dropped s @ [bufs (ring s) i]\<rparr>)"
| cod_try: "cod s = CodSend k \<Longrightarrow> k < 100 \<Longrightarrow> acquiring (mpc (outp s) 0) \<Longrightarrow> codec_moves (outp s) q \<Longrightarrow>
    pipe_step codec s (s\<lparr>outp := q, cod := (if mpc q 0 = MIdle then CodSend (Suc k) else CodSend k)\<rparr>)"
| cod_sentinel: "cod s = CodSend k \<Longrightarrow> mpc (outp s) 0 = MHold j \<Longrightarrow>
    pipe_step codec s (s\<lparr>out_buf := (out_buf s)(j := []), sentinels := Suc (sentinels s), cod := CodSentinel\<rparr>)"
| cod_give_up: "cod s = CodSend 100 \<Longrightarrow> mpc (outp s) 0 = MIdle \<Longrightarrow> pipe_step codec s (s\<lparr>cod := CodDone\<rparr>)"
| play_enter: "play s = PlayTop \<Longrightarrow> pl_running s \<Longrightarrow> pipe_step codec s (s\<lparr>play := PlayIn\<rparr>)"
| play_leave: "play s = PlayTop \<Longrightarrow> \<not> pl_running s \<Longrightarrow> pipe_step codec s (s\<lparr>play := PlayDone\<rparr>)"
| play_dequeue: "play s = PlayIn \<Longrightarrow> \<not> holds_out (dpc (outp s)) \<Longrightarrow> playback_moves (outp s) q \<Longrightarrow>
    pipe_step codec s (s\<lparr>outp := q, play := (if dpc (outp s) = DNone then PlayTop else PlayIn)\<rparr>)"
| play_frame: "play s = PlayIn \<Longrightarrow> dpc (outp s) = DHold j \<Longrightarrow> playback_moves (outp s) q \<Longrightarrow>
    e = PlayDone \<or> e = PlayTop \<and> out_buf s j \<noteq> [] \<Longrightarrow>
    pipe_step codec s (s\<lparr>outp := q, taken_out := taken_out s @ [out_buf s j], play := e\<rparr>)"
| stop: "pipe_step codec s (s\<lparr>pl_running := False\<rparr>)"

text \<open>The start, on two pools of n free frames.\<close>

definition pipe_init :: "nat \<Rightarrow> 'a pipe \<Rightarrow> bool" where
  "pipe_init n s \<longleftrightarrow> spsc_init (int n) (ring s) \<and> mpsc_init (int n) (outp s) \<and> pl_running s \<and> cap s = CapTop
     \<and> cod s = CodNext \<and> play s = PlayTop \<and> dropped s = [] \<and> passed s = [] \<and> sentinels s = 0 \<and> taken_out s = []"

section \<open>Moves of the pools\<close>

lemma capture_moves_keeps:
  assumes "capture_moves r r'"
  shows "cpc r' = cpc r" "rcvd r' = rcvd r"
  using assms unfolding capture_moves_def by (auto elim: spsc_step.cases)

lemma ring_moves_next:
  assumes "ring_moves r r'" "\<not> holds_ring (cpc r)"
  shows "rcvd r' = rcvd r" "bufs r' = bufs r" "sent r' = sent r"
  using assms unfolding ring_moves_def by (auto elim: spsc_step.cases)

lemma ring_moves_release:
  assumes "ring_moves r r'" "cpc r = CHold i"
  shows "cpc r' = CIdle" "rcvd r' = rcvd r @ [bufs r i]"
  using assms unfolding ring_moves_def by (auto elim: spsc_step.cases)

lemma playback_moves_mpc: "playback_moves q q' \<Longrightarrow> mpc q' = mpc q"
  unfolding playback_moves_def by (auto elim: mpsc_step.cases)

lemma playback_moves_next:
  assumes "playback_moves q q'" "\<not> holds_out (dpc q)"
  shows "p_frames (mpool q') = p_frames (mpool q)" "p_count (mpool q') = p_count (mpool q)"
  using assms unfolding playback_moves_def by (auto elim: mpsc_step.cases)

lemma playback_moves_release:
  assumes "playback_moves q q'" "dpc q = DHold j"
  shows "mpool q' = bb_pool_mp_release j (mpool q)" "dpc q' = DIdle"
  using assms unfolding playback_moves_def by (auto elim: mpsc_step.cases)

lemma codec_moves_cases:
  assumes "codec_moves q q'"
  obtains (start) "mpc q 0 = MIdle" "q' = set_mpc 0 (MScan 0) q"
    | (busy) i where "mpc q 0 = MScan i" "in_pool i q" "rc (mpool q) i \<noteq> 0" "q' = set_mpc 0 (MScan (Suc i)) q"
    | (got) i where "mpc q 0 = MScan i" "in_pool i q" "rc (mpool q) i = 0"
        "q' = set_mpc 0 (MHold i) (q\<lparr>mpool := set_rc i 1 (mpool q)\<rparr>)"
    | (full) i where "mpc q 0 = MScan i" "\<not> in_pool i q" "q' = set_mpc 0 MIdle q"
    | (mark) i where "mpc q 0 = MHold i" "q' = set_mpc 0 (MMarked i) (q\<lparr>mpool := mp_mark i (mpool q)\<rparr>)"
    | (lock) i where "mpc q 0 = MMarked i" "q' = set_mpc 0 (MLocked i) (q\<lparr>mutex := Some (Producer 0)\<rparr>)"
    | (count) i where "mpc q 0 = MLocked i" "q' = set_mpc 0 MCounted (q\<lparr>mpool := mp_count (mpool q)\<rparr>)"
    | (signal) "mpc q 0 = MCounted" "q' = set_mpc 0 MUnlock (q\<lparr>mpool := mp_signal (mpool q)\<rparr>)"
    | (unlock) "mpc q 0 = MUnlock" "q' = set_mpc 0 MIdle (q\<lparr>mutex := None\<rparr>)"
proof -
  from assms have step: "mpsc_step 1 q q'" and ch: "mpc q' 0 \<noteq> mpc q 0" by (simp_all add: codec_moves_def)
  from step show thesis
  proof cases
    case (m_cas t i res p')
    from m_cas(5) show thesis
    proof (cases rule: cas_acquire_cases)
      case won
      with m_cas show thesis by (intro got [of i]) auto
    next
      case lost
      with m_cas show thesis by (intro busy [of i]) auto
    qed
  next
    case (m_start t) then show thesis using start by simp
  next
    case (m_full t i) then show thesis using full by simp
  next
    case (m_mark t i) then show thesis using mark by simp
  next
    case (m_lock t i) then show thesis using lock by simp
  next
    case (m_count t i) then show thesis using count by simp
  next
    case (m_signal t) then show thesis using signal by simp
  next
    case (m_unlock t) then show thesis using unlock by simp
  qed (use ch in auto)
qed

text \<open>Every step is a step of each pool, or leaves it as it is.\<close>

lemma pipe_ring: "pipe_step codec s t \<Longrightarrow> ring t = ring s \<or> spsc_step (ring s) (ring t)"
  by (erule pipe_step.cases) (simp_all add: capture_moves_def ring_moves_def)

lemma pipe_outp: "pipe_step codec s t \<Longrightarrow> outp t = outp s \<or> mpsc_step 1 (outp s) (outp t)"
  by (erule pipe_step.cases) (simp_all add: codec_moves_def playback_moves_def)

section \<open>The invariant\<close>

text \<open>There is one producer, and a frame with counter 1 is the one it holds.\<close>

definition one_producer :: "nat \<Rightarrow> mpsc \<Rightarrow> bool" where
  "one_producer n q \<longleftrightarrow> 0 < n \<and> (\<forall>t>0. mpc q t = MIdle) \<and> (\<forall>j<n. rc (mpool q) j = 1 \<longrightarrow> mpc q 0 = MHold j)"

fun at_ok :: "codec_at \<Rightarrow> mpc \<Rightarrow> cpc \<Rightarrow> bool" where
  "at_ok CodNext m c = (m = MIdle \<and> c = CIdle)"
| "at_ok CodIn m c = (m = MIdle \<and> \<not> holds_ring c)"
| "at_ok CodFrame m c = (holds_ring c \<and> (acquiring m \<or> (\<exists>j. m = MHold j)))"
| "at_ok CodCopied m c = (holds_ring c \<and> (\<exists>j. m = MHold j))"
| "at_ok CodPassed m c = (c = CIdle \<and> enqueuing m)"
| "at_ok CodDrain m c = (m = MIdle)"
| "at_ok (CodSend k) m c = (acquiring m \<or> (\<exists>j. m = MHold j))"
| "at_ok CodSentinel m c = enqueuing m"
| "at_ok CodDone m c = (m = MIdle)"

definition codec_pcs :: "'a pipe \<Rightarrow> bool" where
  "codec_pcs s \<longleftrightarrow> at_ok (cod s) (mpc (outp s) 0) (cpc (ring s))"

text \<open>The slots of the second pool whose payload is on its way to the playback thread.\<close>

fun own_slot :: "codec_at \<Rightarrow> mpc \<Rightarrow> nat set" where
  "own_slot CodPassed (MHold j) = {j}"
| "own_slot CodSentinel (MHold j) = {j}"
| "own_slot _ _ = {}"

definition out_slots :: "nat \<Rightarrow> 'a pipe \<Rightarrow> nat set" where
  "out_slots n s = ready_slots n (outp s) \<union> own_slot (cod s) (mpc (outp s) 0)"

definition accounted :: "nat \<Rightarrow> 'a pipe \<Rightarrow> bool" where
  "accounted n s \<longleftrightarrow> mset (rcvd (ring s)) = mset (dropped s) + mset (map fst (passed s))
     \<and> mset (map snd (passed s)) + replicate_mset (sentinels s) []
       = mset (taken_out s) + image_mset (out_buf s) (mset_set (out_slots n s))"

lemma mpsc_init_one: "mpsc_init (int n) q \<Longrightarrow> one_producer n q"
  by (auto simp: mpsc_init_def one_producer_def pool_fresh_def)

lemma inv_slots:
  assumes "mpsc_inv n 1 q"
  shows "length (p_frames (mpool q)) = n" "p_count (mpool q) = int n" "mpc q t = MHold i \<Longrightarrow> i < n \<and> rc (mpool q) i = 1"
    "dpc q = DHold j \<Longrightarrow> j \<in> ready_slots n q" "j < n \<Longrightarrow> rc (mpool q) j \<noteq> 0 \<Longrightarrow> rc (mpool q) j \<noteq> 1 \<Longrightarrow> j \<in> ready_slots n q"
  using assms by (auto simp: mpsc_inv_defs ready_slots_def held_slots_def)

lemma one_producer_step:
  assumes "mpsc_inv n 1 q" "one_producer n q" "mpsc_step 1 q q'"
  shows "one_producer n q'"
  using assms(3)
proof cases
  case (m_cas t i res p')
  from m_cas(5) show ?thesis using assms(2) m_cas inv_slots [OF assms(1)]
    by (cases rule: cas_acquire_cases) (auto simp: one_producer_def)
next
  case (m_mark t i)
  then show ?thesis using assms(2) inv_slots [OF assms(1)] by (auto simp: one_producer_def)
next
  case (d_release i)
  then have "i < length (p_frames (mpool q))" using inv_slots [OF assms(1)] by (auto simp: ready_slots_def)
  then show ?thesis using assms(2) d_release by (auto simp: one_producer_def)
qed (use assms(2) in \<open>auto simp: one_producer_def\<close>)

lemma codec_pcs_step:
  assumes "codec_pcs s" "pipe_step codec s t"
  shows "codec_pcs t"
  using assms(2)
proof cases
  case (capture r)
  then show ?thesis using assms(1) capture_moves_keeps [OF capture(3)] by (simp add: codec_pcs_def)
next
  case (cod_dequeue r)
  then show ?thesis using assms(1)
    by (auto simp: codec_pcs_def after_dequeue_def split: cpc.splits)
next
  case (cod_acquire q)
  from cod_acquire(4) show ?thesis using assms(1) cod_acquire
    by (cases rule: codec_moves_cases) (auto simp: codec_pcs_def)
next
  case (cod_drop q i r)
  then show ?thesis using assms(1) ring_moves_release [OF cod_drop(7,6)] by (auto simp: codec_pcs_def)
next
  case (cod_release j i r)
  then show ?thesis using assms(1) ring_moves_release [OF cod_release(5,4)] by (auto simp: codec_pcs_def)
next
  case (cod_enqueue q)
  from cod_enqueue(4) show ?thesis using assms(1) cod_enqueue
    by (cases rule: codec_moves_cases) (auto simp: codec_pcs_def)
next
  case (cod_try k q)
  from cod_try(5) show ?thesis using assms(1) cod_try
    by (cases rule: codec_moves_cases) (auto simp: codec_pcs_def)
next
  case (play_dequeue q)
  then show ?thesis using assms(1) playback_moves_mpc [OF play_dequeue(4)] by (simp add: codec_pcs_def)
next
  case (play_frame j q e)
  then show ?thesis using assms(1) playback_moves_mpc [OF play_frame(4)] by (simp add: codec_pcs_def)
qed (use assms(1) in \<open>auto simp: codec_pcs_def\<close>)

section \<open>Accounting\<close>

lemma ready_acquiring:
  assumes "codec_moves q q'" "acquiring (mpc q 0)" "mpsc_inv n 1 q"
  shows "ready_slots n q' = ready_slots n q"
  using assms(1)
proof (cases rule: codec_moves_cases)
  case (got i)
  then show ?thesis using inv_slots(1,2) [OF assms(3)] by (auto simp: ready_slots_def)
qed (use assms(2) in \<open>auto simp: ready_slots_def\<close>)

lemma ready_enqueuing:
  assumes "codec_moves q q'" "enqueuing (mpc q 0)" "mpsc_inv n 1 q"
  shows "ready_slots n q' = ready_slots n q \<union> (case mpc q 0 of MHold i \<Rightarrow> {i} | _ \<Rightarrow> {})" "\<And>i. mpc q' 0 \<noteq> MHold i"
    "mpc q' 0 = MIdle \<or> enqueuing (mpc q' 0)"
  using assms(1)
proof (atomize (full), cases rule: codec_moves_cases)
  case (mark i)
  then show "ready_slots n q' = ready_slots n q \<union> (case mpc q 0 of MHold i \<Rightarrow> {i} | _ \<Rightarrow> {}) \<and> (\<forall>i. mpc q' 0 \<noteq> MHold i)
      \<and> (mpc q' 0 = MIdle \<or> enqueuing (mpc q' 0))"
    using inv_slots(1) [OF assms(3)] inv_slots(3) [OF assms(3)] by (auto simp: ready_slots_def)
qed (use assms(2) in \<open>auto simp: ready_slots_def\<close>)

lemma ready_playback:
  assumes "playback_moves q q'" "mpsc_inv n 1 q"
  shows "\<not> holds_out (dpc q) \<Longrightarrow> ready_slots n q' = ready_slots n q"
    and "dpc q = DHold j \<Longrightarrow> ready_slots n q' = ready_slots n q - {j} \<and> j \<in> ready_slots n q"
  using playback_moves_next [OF assms(1)] playback_moves_release [OF assms(1)] inv_slots [OF assms(2)]
  by (auto simp: ready_slots_def)

lemma own_slot_iff: "i \<in> own_slot c m \<longleftrightarrow> (c = CodPassed \<or> c = CodSentinel) \<and> m = MHold i"
  by (cases "(c, m)" rule: own_slot.cases) auto

lemma own_slot_sub: "own_slot c m \<subseteq> {THE j. m = MHold j}"
  by (auto simp: own_slot_iff)

lemma out_slots_finite: "finite (out_slots n s)"
  using own_slot_sub [of "cod s" "mpc (outp s) 0"] by (auto simp: out_slots_def dest: finite_subset)

lemma out_slots_plain: "cod s \<noteq> CodPassed \<Longrightarrow> cod s \<noteq> CodSentinel \<Longrightarrow> out_slots n s = ready_slots n (outp s)"
  by (auto simp: out_slots_def own_slot_iff)

lemma held_not_ready: "mpsc_inv n 1 q \<Longrightarrow> mpc q 0 = MHold j \<Longrightarrow> j \<notin> ready_slots n q"
  using inv_slots(3) [of n q 0 j] by (simp add: ready_slots_def)

lemma accounted_cong:
  assumes "accounted n s" "rcvd (ring t) = rcvd (ring s)" "dropped t = dropped s" "passed t = passed s"
    "sentinels t = sentinels s" "taken_out t = taken_out s" "out_slots n t = out_slots n s"
    "\<And>j. j \<in> out_slots n s \<Longrightarrow> out_buf t j = out_buf s j"
  shows "accounted n t"
proof -
  have "image_mset (out_buf t) (mset_set (out_slots n s)) = image_mset (out_buf s) (mset_set (out_slots n s))"
    by (rule image_mset_cong) (simp add: assms(8) out_slots_finite)
  then show ?thesis using assms by (simp add: accounted_def)
qed

lemma accounted_step:
  assumes acc: "accounted n s" and inv: "mpsc_inv n 1 (outp s)" and pcs: "codec_pcs s" and step: "pipe_step codec s t"
  shows "accounted n t"
  using step
proof cases
  case (capture r)
  then show ?thesis using capture_moves_keeps [OF capture(3)] by (intro accounted_cong [OF acc]) (simp_all add: out_slots_def)
next
  case (cod_dequeue r)
  then show ?thesis using ring_moves_next [OF cod_dequeue(3,4)]
    by (intro accounted_cong [OF acc]) (auto simp: out_slots_plain after_dequeue_def split: cpc.splits)
next
  case (cod_acquire q)
  then show ?thesis using ready_acquiring [OF cod_acquire(4,3) inv]
    by (intro accounted_cong [OF acc]) (simp_all add: out_slots_plain)
next
  case (cod_drop q i r)
  then show ?thesis using acc ready_acquiring [OF cod_drop(4,3) inv] ring_moves_release [OF cod_drop(7,6)]
    by (simp add: accounted_def out_slots_plain)
next
  case (cod_copy j i y)
  then show ?thesis using held_not_ready [OF inv cod_copy(3)]
    by (intro accounted_cong [OF acc]) (auto simp: out_slots_plain)
next
  case (cod_release j i r)
  have "out_slots n t = insert j (ready_slots n (outp s))" using cod_release by (simp add: out_slots_def)
  then show ?thesis using acc cod_release ring_moves_release [OF cod_release(5,4)] held_not_ready [OF inv cod_release(3)]
    by (simp add: accounted_def out_slots_plain)
next
  case (cod_enqueue q)
  note r = ready_enqueuing [OF cod_enqueue(4,3) inv]
  have "out_slots n t = out_slots n s" using cod_enqueue r(1,2) by (auto simp: out_slots_def own_slot_iff split: mpc.splits)
  then show ?thesis using cod_enqueue by (intro accounted_cong [OF acc]) simp_all
next
  case cod_leave
  then show ?thesis by (intro accounted_cong [OF acc]) (simp_all add: out_slots_plain)
next
  case (cod_drain i r)
  then show ?thesis using acc ring_moves_release [OF cod_drain(4,3)] by (simp add: accounted_def out_slots_plain)
next
  case (cod_try k q)
  then show ?thesis using ready_acquiring [OF cod_try(5,4) inv]
    by (intro accounted_cong [OF acc]) (auto simp: out_slots_plain)
next
  case (cod_sentinel k j)
  have j: "j \<notin> ready_slots n (outp s)" by (rule held_not_ready [OF inv cod_sentinel(3)])
  have "out_slots n t = insert j (ready_slots n (outp s))" using cod_sentinel by (simp add: out_slots_def)
  moreover have "image_mset ((out_buf s)(j := [])) (mset_set (ready_slots n (outp s))) = image_mset (out_buf s) (mset_set (ready_slots n (outp s)))"
    by (rule image_mset_cong) (use j in auto)
  ultimately show ?thesis using acc cod_sentinel j by (simp add: accounted_def out_slots_plain)
next
  case cod_give_up
  then show ?thesis by (intro accounted_cong [OF acc]) (simp_all add: out_slots_plain)
next
  case (play_dequeue q)
  then show ?thesis using ready_playback(1) [OF play_dequeue(4) inv] playback_moves_mpc [OF play_dequeue(4)]
    by (intro accounted_cong [OF acc]) (simp_all add: out_slots_def)
next
  case (play_frame j q e)
  note r = ready_playback(2) [OF play_frame(4) inv play_frame(3)]
  have "j \<notin> own_slot (cod s) (mpc (outp s) 0)"
    using held_not_ready [OF inv] r by (auto simp: own_slot_iff)
  then have "out_slots n t = out_slots n s - {j}" "j \<in> out_slots n s"
    using r play_frame playback_moves_mpc [OF play_frame(4)] by (auto simp: out_slots_def)
  then show ?thesis using acc play_frame mset_set.remove [OF out_slots_finite, of j n s] by (simp add: accounted_def)
qed (use acc in \<open>auto simp: accounted_def out_slots_def\<close>)

section \<open>Copies\<close>

text \<open>Without a codec, what is passed on is what was captured.\<close>

definition copies_ok :: "bool \<Rightarrow> 'a pipe \<Rightarrow> bool" where
  "copies_ok codec s \<longleftrightarrow> (\<not> codec \<and> hi (ring s) < 2147483648 \<longrightarrow>
     (\<forall>(x, y) \<in> set (passed s). x = y)
     \<and> (\<forall>i j. cod s = CodCopied \<and> cpc (ring s) = CHold i \<and> mpc (outp s) 0 = MHold j \<longrightarrow> out_buf s j = bufs (ring s) i))"

lemma capture_keeps_held:
  assumes "capture_moves r r'" "spsc_good n r" "cpc r = CHold i"
  shows "bufs r' i = bufs r i"
proof -
  have "spsc_step r r'" using assms(1) by (simp add: capture_moves_def)
  then show ?thesis
  proof cases
    case (p_fill k x)
    have "lo r < hi r" "hi r < lo r + n" "k = hi r mod n" "i = lo r mod n"
      using assms(2,3) p_fill by (auto simp: spsc_good_defs)
    then show ?thesis using p_fill mod_ne [of "lo r" "hi r" n] by simp
  qed auto
qed

lemma copies_step:
  assumes "copies_ok codec s" "spsc_inv n (ring s)" "pipe_step codec s t"
  shows "copies_ok codec t"
proof -
  have mono: "hi (ring s) \<le> hi (ring t)" using pipe_ring [OF assms(3)] sent_mono by auto
  show ?thesis using assms(3)
  proof cases
    case (capture r)
    then show ?thesis
      using assms(1,2) mono capture_moves_keeps [OF capture(3)] capture_keeps_held [OF capture(3), of n]
      by (auto simp: copies_ok_def spsc_inv_def)
  next
    case (cod_dequeue r)
    then have "cod t \<noteq> CodCopied" by (auto simp: after_dequeue_def split: cpc.splits)
    then show ?thesis using assms(1) mono cod_dequeue by (simp add: copies_ok_def)
  next
    case (cod_copy j i y)
    then show ?thesis using assms(1) by (auto simp: copies_ok_def)
  next
    case (cod_release j i r)
    then show ?thesis using assms(1) mono by (auto simp: copies_ok_def)
  next
    case (cod_enqueue q)
    then show ?thesis using assms(1) by (auto simp: copies_ok_def)
  next
    case (play_dequeue q)
    then show ?thesis using assms(1) playback_moves_mpc [OF play_dequeue(4)] by (simp add: copies_ok_def)
  next
    case (play_frame j q e)
    then show ?thesis using assms(1) playback_moves_mpc [OF play_frame(4)] by (simp add: copies_ok_def)
  qed (use assms(1) mono in \<open>simp_all add: copies_ok_def\<close>)
qed

section \<open>Shutdown\<close>

text \<open>
  The playback thread is in the dequeue and has not taken a frame. Once the codec thread has left its
  loop, it finds one: the sentinel, or, when the codec thread could not get a frame for the sentinel, one
  of the frames that fill the pool.
\<close>

definition waits :: "'a pipe \<Rightarrow> bool" where
  "waits s \<longleftrightarrow> play s = PlayIn \<and> held_slots (outp s) = {}"

fun served :: "nat \<Rightarrow> codec_at \<Rightarrow> mpsc \<Rightarrow> bool" where
  "served n (CodSend k) q = ((k > 0 \<longrightarrow> ready_slots n q \<noteq> {})
     \<and> (\<forall>i j. mpc q 0 = MScan i \<and> j < i \<and> j < n \<longrightarrow> rc (mpool q) j \<noteq> 0))"
| "served n CodSentinel q = ((\<exists>j. mpc q 0 = MHold j) \<or> ready_slots n q \<noteq> {})"
| "served n CodDone q = (ready_slots n q \<noteq> {})"
| "served n _ q = True"

fun late :: "codec_at \<Rightarrow> bool" where
  "late CodDrain = True" | "late (CodSend k) = True" | "late CodSentinel = True" | "late CodDone = True" | "late _ = False"

definition shut :: "nat \<Rightarrow> 'a pipe \<Rightarrow> bool" where
  "shut n s \<longleftrightarrow> (late (cod s) \<longrightarrow> \<not> pl_running s) \<and> (waits s \<longrightarrow> served n (cod s) (outp s))"

lemma served_early: "\<not> late c \<or> c = CodDrain \<Longrightarrow> served n c q"
  by (cases c) auto

lemma served_cong:
  "mpc q' = mpc q \<Longrightarrow> p_frames (mpool q') = p_frames (mpool q) \<Longrightarrow> served n c q \<Longrightarrow> served n c q'"
  by (cases c) (auto simp: ready_slots_def)

lemma playback_waits:
  "playback_moves q q' \<Longrightarrow> \<not> holds_out (dpc q) \<Longrightarrow> held_slots q' = {} \<Longrightarrow> held_slots q = {}"
  unfolding playback_moves_def by (auto simp: held_slots_def elim!: mpsc_step.cases split: dpc.splits)

lemma codec_moves_held: "codec_moves q q' \<Longrightarrow> held_slots q' = held_slots q"
  by (erule codec_moves_cases) (auto simp: held_slots_def)

lemma served_try:
  assumes "codec_moves q q'" "served n (CodSend k) q" "acquiring (mpc q 0)" "mpsc_inv n 1 q" "one_producer n q"
  shows "served n (if mpc q' 0 = MIdle then CodSend (Suc k) else CodSend k) q'"
  using assms(1)
proof (cases rule: codec_moves_cases)
  case (busy i)
  then show ?thesis using assms(2) by (auto simp: less_Suc_eq ready_slots_def)
next
  case (got i)
  then show ?thesis using assms(2) ready_acquiring [OF assms(1,3,4)] by auto
next
  case (full i)
  have "0 < n" "rc (mpool q) 0 \<noteq> 1" using assms(5) full by (auto simp: one_producer_def)
  moreover have "rc (mpool q) 0 \<noteq> 0" using assms(2) full \<open>0 < n\<close> inv_slots(2) [OF assms(4)] by auto
  ultimately have "0 \<in> ready_slots n q" using inv_slots(5) [OF assms(4)] by simp
  then show ?thesis using ready_acquiring [OF assms(1,3,4)] full by auto
qed (use assms(2,3) in \<open>auto simp: ready_slots_def\<close>)

lemma served_enqueue:
  assumes "codec_moves q q'" "enqueuing (mpc q 0)" "mpsc_inv n 1 q" "served n CodSentinel q"
  shows "ready_slots n q' \<noteq> {}"
  using ready_enqueuing(1) [OF assms(1-3)] assms(4) by auto

lemma shut_step:
  assumes shut: "shut n s" and inv: "mpsc_inv n 1 (outp s)" "one_producer n (outp s)" and pcs: "codec_pcs s" and step: "pipe_step codec s t"
  shows "shut n t"
  using step
proof cases
  case (cod_dequeue r)
  then show ?thesis using shut pcs
    by (auto simp: shut_def codec_pcs_def waits_def after_dequeue_def split: cpc.splits)
next
  case (cod_acquire q)
  then show ?thesis by (simp add: shut_def served_early)
next
  case (cod_enqueue q)
  show ?thesis
  proof (cases "cod s = CodSentinel")
    case True
    have "waits s = waits t" using cod_enqueue codec_moves_held [OF cod_enqueue(4)] by (simp add: waits_def)
    then show ?thesis using True cod_enqueue shut served_enqueue [OF cod_enqueue(4,3) inv(1)] by (auto simp: shut_def)
  next
    case False
    then show ?thesis using cod_enqueue by (auto simp: shut_def)
  qed
next
  case (cod_try k q)
  then have "waits s = waits t" "late (cod s)" "late (cod t)" using codec_moves_held [OF cod_try(5)] by (simp_all add: waits_def)
  moreover have "served n (cod t) (outp t)" if "served n (cod s) (outp s)"
    using served_try [OF cod_try(5) _ cod_try(4) inv, of k] that cod_try by (simp del: served.simps)
  moreover have "pl_running t = pl_running s" using cod_try by simp
  ultimately show ?thesis using shut unfolding shut_def by metis
next
  case (cod_sentinel k j)
  then show ?thesis using shut by (simp add: shut_def)
next
  case cod_give_up
  then show ?thesis using shut by (simp add: shut_def waits_def)
next
  case play_enter
  then show ?thesis using shut by (auto simp: shut_def served_early)
next
  case (play_dequeue q)
  then have "waits t \<Longrightarrow> waits s" using playback_waits [OF play_dequeue(4,3)] by (simp add: waits_def split: if_splits)
  then show ?thesis
    using play_dequeue shut served_cong [OF playback_moves_mpc [OF play_dequeue(4)] playback_moves_next(1) [OF play_dequeue(4,3)]]
    by (simp add: shut_def)
next
  case (play_frame j q e)
  then show ?thesis using shut by (auto simp: shut_def waits_def)
qed (use shut in \<open>auto simp: shut_def waits_def\<close>)

section \<open>The pipeline\<close>

definition pipe_inv :: "nat \<Rightarrow> bool \<Rightarrow> 'a pipe \<Rightarrow> bool" where
  "pipe_inv n codec s \<longleftrightarrow> spsc_inv n (ring s) \<and> mpsc_inv n 1 (outp s) \<and> one_producer n (outp s) \<and> codec_pcs s
     \<and> accounted n s \<and> copies_ok codec s \<and> shut n s"

lemma pipe_init_inv:
  assumes "pipe_init n s"
  shows "pipe_inv n codec s"
proof -
  note i = assms [unfolded pipe_init_def]
  have "spsc_inv n (ring s)" "mpsc_inv n 1 (outp s)" using i spsc.init_inv mpsc.init_inv by blast+
  moreover have "ready_slots n (outp s) = {}" "mpc (outp s) 0 = MIdle" "cpc (ring s) = CIdle" "rcvd (ring s) = []"
    using i by (auto simp: mpsc_init_def spsc_init_def ready_slots_def pool_fresh_def)
  ultimately show ?thesis using i mpsc_init_one [of n "outp s"]
    by (auto simp: pipe_inv_def codec_pcs_def accounted_def copies_ok_def shut_def waits_def out_slots_plain)
qed

lemma pipe_step_inv:
  assumes "pipe_inv n codec s" "pipe_step codec s t"
  shows "pipe_inv n codec t"
  using assms(1) pipe_ring [OF assms(2)] pipe_outp [OF assms(2)] spsc.step_inv [of n "ring s" "ring t"]
    mpsc.step_inv [of n 1 "outp s" "outp t"] one_producer_step [of n "outp s" "outp t"]
    codec_pcs_step [OF _ assms(2)] accounted_step [OF _ _ _ assms(2)] copies_step [OF _ _ assms(2)] shut_step [OF _ _ _ _ assms(2)]
  unfolding pipe_inv_def by metis

interpretation pipe: inv_machine "pipe_init n" "pipe_step codec" "pipe_inv n codec" for n codec
  by unfold_locales (rule pipe_init_inv, assumption, rule pipe_step_inv)

lemma pipe_reach_inv: "reach (pipe_init n) (pipe_step codec) s \<Longrightarrow> pipe_inv n codec s"
  by (rule pipe.reach_inv)

text \<open>
  C7. Without a codec, every captured frame that left the ring is accounted for exactly once, as dropped, as
  taken by the playback thread or as on its way to it, next to the sentinels; and what the playback
  thread writes was captured, with its contents unchanged and not more often than it was captured. The
  threads run in any interleaving of the atomic operations of the pools.
\<close>

theorem pipeline_conserves:
  assumes "reach (pipe_init n) (pipe_step False) s" "length (sent (ring s)) < 2147483648"
  shows "mset (rcvd (ring s)) + replicate_mset (sentinels s) []
      = mset (dropped s) + mset (taken_out s) + image_mset (out_buf s) (mset_set (out_slots n s))
    \<and> rcvd (ring s) = take (length (rcvd (ring s))) (sent (ring s))
    \<and> {#x \<in># mset (taken_out s). x \<noteq> []#} \<subseteq># mset (sent (ring s))"
proof (intro conjI)
  have inv: "pipe_inv n False s" by (rule pipe_reach_inv [OF assms(1)])
  have same: "map snd (passed s) = map fst (passed s)"
    using inv assms(2) by (auto simp: pipe_inv_def copies_ok_def)
  have "mset (rcvd (ring s)) + replicate_mset (sentinels s) []
      = mset (dropped s) + (mset (map snd (passed s)) + replicate_mset (sentinels s) [])"
    using inv by (simp only: pipe_inv_def accounted_def same add.assoc)
  then have eq: "mset (rcvd (ring s)) + replicate_mset (sentinels s) []
      = mset (dropped s) + mset (taken_out s) + image_mset (out_buf s) (mset_set (out_slots n s))"
    using inv by (simp only: pipe_inv_def accounted_def add.assoc)
  then show "mset (rcvd (ring s)) + replicate_mset (sentinels s) []
      = mset (dropped s) + mset (taken_out s) + image_mset (out_buf s) (mset_set (out_slots n s))" .
  show pre: "rcvd (ring s) = take (length (rcvd (ring s))) (sent (ring s))"
    using inv assms(2) by (auto simp: pipe_inv_def spsc_inv_def spsc_good_defs)
  have "{#x \<in># mset (taken_out s). x \<noteq> []#} \<subseteq># {#x \<in># mset (rcvd (ring s)) + replicate_mset (sentinels s) []. x \<noteq> []#}"
    unfolding eq by (simp add: multiset_filter_mono)
  also have "\<dots> = {#x \<in># mset (rcvd (ring s)). x \<noteq> []#}" by simp
  also have "\<dots> \<subseteq># mset (rcvd (ring s))" by (rule multiset_filter_subset)
  also have "\<dots> \<subseteq># mset (sent (ring s))" by (subst pre) (metis append_take_drop_id mset_append mset_subset_eq_add_left)
  finally show "{#x \<in># mset (taken_out s). x \<noteq> []#} \<subseteq># mset (sent (ring s))" .
qed

text \<open>
  C12. In every interleaving, with or without a codec, none of the three threads runs into undefined behaviour
  in a pool call before 2^31 frames were captured, the playback thread's dequeue never returns NULL, and no two
  threads use a buffer at once: not the capture and the codec thread in the ring, not the codec and the
  playback thread in the second pool.
\<close>

theorem pipeline_exclusive:
  assumes "reach (pipe_init n) (pipe_step codec) s" "length (sent (ring s)) < 2147483648"
  shows "ppc (ring s) \<noteq> PFault \<and> cpc (ring s) \<noteq> CFault \<and> dpc (outp s) \<noteq> DNone
    \<and> (ppc (ring s) = PHold i \<longrightarrow> cpc (ring s) \<noteq> CHold i)
    \<and> (mpc (outp s) 0 = MHold j \<longrightarrow> dpc (outp s) \<noteq> DHold j)"
proof -
  have inv: "pipe_inv n codec s" by (rule pipe_reach_inv [OF assms(1)])
  then have good: "spsc_good n (ring s)" and mp: "mpsc_inv n 1 (outp s)" using assms(2) by (simp_all add: pipe_inv_def spsc_inv_def)
  have "cpc (ring s) \<noteq> CHold i" if "ppc (ring s) = PHold i"
  proof
    assume "cpc (ring s) = CHold i"
    then have "lo (ring s) < hi (ring s)" "hi (ring s) < lo (ring s) + n" "lo (ring s) mod n = hi (ring s) mod n"
      using good that by (auto simp: spsc_good_defs)
    then show False using mod_ne by blast
  qed
  moreover have "dpc (outp s) \<noteq> DHold j" if "mpc (outp s) 0 = MHold j"
    using held_not_ready [OF mp that] inv_slots(4) [OF mp] by blast
  ultimately show ?thesis using good mp by (auto simp: spsc_good_defs mpsc_inv_defs)
qed

text \<open>The steps the playback thread has left when it is told to stop.\<close>

fun left_in :: "nat \<Rightarrow> dpc \<Rightarrow> nat" where
  "left_in n DAsleep = n + 6"
| "left_in n DIdle = n + 5"
| "left_in n DLocked = n + 4"
| "left_in n (DScan i) = 3 + (n - i)"
| "left_in n (DFound i) = 2"
| "left_in n (DTook i) = 1"
| "left_in n _ = 0"

fun steps_left :: "nat \<Rightarrow> play_at \<Rightarrow> dpc \<Rightarrow> nat" where
  "steps_left n PlayDone d = 0"
| "steps_left n PlayTop d = 1"
| "steps_left n PlayIn d = 2 + left_in n d"

definition remaining :: "nat \<Rightarrow> 'a pipe \<Rightarrow> nat" where
  "remaining n s = steps_left n (play s) (dpc (outp s))"

lemma done_pending:
  assumes "pipe_inv n codec s" "cod s = CodDone" "play s = PlayIn" "dpc (outp s) \<in> {DIdle, DAsleep, DLocked}"
  shows "p_mp_pending (mpool (outp s)) \<noteq> 0"
proof -
  have mp: "mpsc_inv n 1 (outp s)" and idle: "mpc (outp s) 0 = MIdle" and h: "held_slots (outp s) = {}"
    using assms by (auto simp: pipe_inv_def codec_pcs_def held_slots_def)
  then have "ready_slots n (outp s) \<noteq> {}" using assms by (simp add: pipe_inv_def shut_def waits_def)
  then have pos: "0 < card (ready_slots n (outp s))" by (simp add: card_gt_0_iff)
  have "card (ready_slots n (outp s)) \<le> card {..<n}" by (rule card_mono) (auto simp: ready_slots_def)
  moreover have "n < 2147483648" using mp by (simp add: mpsc_inv_def mslots_ok_def)
  ultimately have "card (ready_slots n (outp s)) < 2147483648" by simp
  moreover have "uncounted 1 (outp s) = {}" using idle by (auto simp: uncounted_def intro: gr0I)
  then have "p_mp_pending (mpool (outp s)) = word_of_nat (card (ready_slots n (outp s)))"
    using mp h by (auto simp: mpsc_inv_def pending_ok_def)
  ultimately show ?thesis using pos by (simp add: word_of_nat_eq_0_iff nat_dvd_not_less)
qed

lemma playback_next:
  assumes inv: "mpsc_inv n 1 q" and idle: "mpc q 0 = MIdle" "one_producer n q"
    and pend: "dpc q = DLocked \<Longrightarrow> p_mp_pending (mpool q) \<noteq> 0" and awake: "\<not> p_mp_cond (mpool q)"
  shows "\<exists>q'. playback_moves q q' \<and> (holds_out (dpc q) \<or> left_in n (dpc q') < left_in n (dpc q) \<and> dpc q \<noteq> DNone)"
proof (cases "dpc q")
  case DIdle
  have "mpc q t = MIdle" for t using idle by (cases "t = 0") (auto simp: one_producer_def)
  then have "mutex q \<noteq> Some (Producer t)" for t
    using inv by (metis m_has_mutex.simps(4) mpsc_inv_def locks_ok_def)
  moreover have "mutex q \<noteq> Some Consumer" using inv DIdle by (auto simp: mpsc_inv_def locks_ok_def)
  ultimately have "mutex q = None" by (metis option.exhaust thread.exhaust)
  then show ?thesis using DIdle d_lock [of q 1] by (intro exI) (auto simp: playback_moves_def)
next
  case DAsleep
  then show ?thesis using awake d_wake [of q 1] by (intro exI) (auto simp: playback_moves_def)
next
  case DLocked
  then show ?thesis using pend d_scan [of q 1] by (intro exI) (auto simp: playback_moves_def)
next
  case (DScan i)
  have "in_pool i q" using scan_finds [OF inv] DScan by blast
  then have "i < n" using inv_slots [OF inv] by simp
  then show ?thesis using d_load [OF DScan \<open>in_pool i q\<close>, of 1] DScan
    by (cases "frame_ready (p_frames (mpool q) ! i)") (fastforce simp: playback_moves_def)+
next
  case (DFound i)
  then show ?thesis using d_take [OF DFound, of 1] by (intro exI) (auto simp: playback_moves_def)
next
  case DNone
  then show ?thesis using inv by (simp add: mpsc_inv_def scan_ok_def)
next
  case (DTook i)
  then show ?thesis using d_unlock [OF DTook, of 1] by (intro exI) (auto simp: playback_moves_def)
next
  case (DHold i)
  then show ?thesis using d_release [OF DHold, of 1] by (intro exI) (auto simp: playback_moves_def)
qed

lemma playback_closer:
  assumes "playback_moves q q'" "\<not> holds_out (dpc q)" "mpsc_inv n 1 q" "dpc q = DLocked \<Longrightarrow> p_mp_pending (mpool q) \<noteq> 0"
  shows "left_in n (dpc q') < left_in n (dpc q)"
proof -
  have step: "mpsc_step 1 q q'" and ch: "dpc q' \<noteq> dpc q" using assms(1) by (simp_all add: playback_moves_def)
  from step show ?thesis
  proof cases
    case (d_load i)
    then have "i < n" using inv_slots(2) [OF assms(3)] by simp
    then show ?thesis using d_load by auto
  qed (use assms(2-4) ch in \<open>auto simp: mpsc_inv_def scan_ok_def\<close>)
qed

text \<open>Once the codec thread has returned, nobody leaves the playback thread asleep.\<close>

lemma done_awake:
  assumes inv: "pipe_inv n codec s" and c: "cod s = CodDone" and p: "play s = PlayIn"
  shows "\<not> p_mp_cond (mpool (outp s))"
proof
  assume asleep: "p_mp_cond (mpool (outp s))"
  have "mpc (outp s) t = MIdle" for t
    using inv c by (cases "t = 0") (auto simp: pipe_inv_def codec_pcs_def one_producer_def)
  then have "dpc (outp s) = DAsleep" "p_mp_pending (mpool (outp s)) = 0"
    using inv asleep by (auto simp: pipe_inv_def mpsc_inv_def sleep_ok_def)
  then show False using done_pending [OF inv c p] by simp
qed

lemma play_frame_closer:
  assumes p: "play s = PlayIn" and j: "dpc (outp s) = DHold j" and q: "playback_moves (outp s) q"
  shows "\<exists>t. pipe_step codec s t \<and> remaining n t < remaining n s"
proof -
  let ?e = "if out_buf s j = [] then PlayDone else PlayTop"
  let ?t = "s\<lparr>outp := q, taken_out := taken_out s @ [out_buf s j], play := ?e\<rparr>"
  have "pipe_step codec s ?t" by (rule play_frame [OF p j q]) simp
  moreover have "remaining n ?t < remaining n s" using p by (simp add: remaining_def)
  ultimately show ?thesis by blast
qed

lemma play_progress:
  assumes inv: "pipe_inv n codec s" and c: "cod s = CodDone" and p: "play s \<noteq> PlayDone"
  shows "\<exists>t. pipe_step codec s t \<and> remaining n t < remaining n s"
proof (cases "play s")
  case PlayTop
  have "\<not> pl_running s" using inv c by (simp add: pipe_inv_def shut_def)
  then have "pipe_step codec s (s\<lparr>play := PlayDone\<rparr>)" using PlayTop by (intro play_leave)
  moreover have "remaining n (s\<lparr>play := PlayDone\<rparr>) < remaining n s" using PlayTop by (simp add: remaining_def)
  ultimately show ?thesis by blast
next
  case PlayIn
  have mp: "mpsc_inv n 1 (outp s)" "mpc (outp s) 0 = MIdle" "one_producer n (outp s)"
    using inv c by (simp_all add: pipe_inv_def codec_pcs_def)
  obtain q where q: "playback_moves (outp s) q"
    "holds_out (dpc (outp s)) \<or> left_in n (dpc q) < left_in n (dpc (outp s)) \<and> dpc (outp s) \<noteq> DNone"
    using playback_next [OF mp] done_pending [OF inv c PlayIn] done_awake [OF inv c PlayIn] by blast
  show ?thesis
  proof (cases "holds_out (dpc (outp s))")
    case True
    then show ?thesis using play_frame_closer [OF PlayIn _ q(1)] by (cases "dpc (outp s)") auto
  next
    case False
    then have "pipe_step codec s (s\<lparr>outp := q, play := PlayIn\<rparr>)" using play_dequeue [OF PlayIn False q(1)] q(2) by simp
    moreover have "remaining n (s\<lparr>outp := q, play := PlayIn\<rparr>) < remaining n s" using q(2) False PlayIn by (simp add: remaining_def)
    ultimately show ?thesis by blast
  qed
qed (use p in simp)

lemma play_closer:
  assumes inv: "pipe_inv n codec s" and c: "cod s = CodDone" and step: "pipe_step codec s t"
  shows "cod t = CodDone" "remaining n t < remaining n s \<or> play t = play s \<and> outp t = outp s \<and> remaining n t = remaining n s"
proof -
  have off: "\<not> pl_running s" and mp: "mpsc_inv n 1 (outp s)" using inv c by (simp_all add: pipe_inv_def shut_def)
  show "cod t = CodDone" using step c by cases auto
  show "remaining n t < remaining n s \<or> play t = play s \<and> outp t = outp s \<and> remaining n t = remaining n s"
    using step
  proof cases
    case (play_dequeue q)
    then have "left_in n (dpc q) < left_in n (dpc (outp s))"
      using playback_closer [OF play_dequeue(4,3) mp] done_pending [OF inv c] by blast
    then show ?thesis using play_dequeue by (auto simp: remaining_def)
  next
    case (play_frame j q e)
    then show ?thesis by (auto simp: remaining_def)
  qed (use c off in \<open>auto simp: remaining_def\<close>)
qed

text \<open>
  C8. The shutdown does not hang on the playback thread: once the codec thread has returned, the playback thread
  does not sleep in the dequeue without a signal, and unless it has returned it can make a step that brings its
  return closer; every step it makes does so, and no step of the others takes it further away, so that the
  join in bb_audio_stream_stop ends, whether the sentinel was sent or no frame was free for it. No spurious
  wakeup is needed for it.
\<close>

theorem shutdown_ends:
  assumes "reach (pipe_init n) (pipe_step codec) s" "cod s = CodDone"
  shows "(play s = PlayIn \<longrightarrow> \<not> p_mp_cond (mpool (outp s)))
    \<and> (play s = PlayDone \<or> (\<exists>t. pipe_step codec s t \<and> remaining n t < remaining n s))
    \<and> (pipe_step codec s t \<longrightarrow> cod t = CodDone \<and> (remaining n t < remaining n s
         \<or> play t = play s \<and> outp t = outp s \<and> remaining n t = remaining n s))"
proof -
  have inv: "pipe_inv n codec s" by (rule pipe_reach_inv [OF assms(1)])
  show ?thesis using done_awake [OF inv assms(2)] play_progress [OF inv assms(2)] play_closer [OF inv assms(2)] by blast
qed

section \<open>A run that leaves the sentinel\<close>

text \<open>
  One frame in each pool; the stream is stopped before anything is captured. The playback thread is at pl,
  the codec thread at c with its program point m in the second pool, whose frame has counter k and size z.
\<close>

definition idle_pool :: "int32 \<Rightarrow> int32 \<Rightarrow> bb_frame_pool_t" where
  "idle_pool k pend = pool_zero\<lparr>p_count := 1, p_frames := [frame_zero\<lparr>f_refcount := k\<rparr>], p_mp_pending := pend\<rparr>"

definition stopped :: "cpc \<Rightarrow> int32 \<Rightarrow> int32 \<Rightarrow> mpc \<Rightarrow> thread option \<Rightarrow> codec_at \<Rightarrow> play_at \<Rightarrow> nat \<Rightarrow> nat pipe" where
  "stopped cp k pend m mu c pl z =
    \<lparr>ring = \<lparr>pool = idle_pool 0 0, ppc = PIdle, cpc = cp, bufs = (\<lambda>_. []), sent = [], rcvd = []\<rparr>,
     outp = \<lparr>mpool = idle_pool k pend, mpc = (\<lambda>_. MIdle)(0 := m), dpc = DIdle, mutex = mu\<rparr>,
     out_buf = (\<lambda>_. []), pl_running = False, cap = CapTop, cod = c, play = pl, dropped = [], passed = [],
     sentinels = z, taken_out = []\<rparr>"

lemma stopped_start:
  assumes "pl = PlayIn \<or> pl = PlayDone"
  shows "reach (pipe_init 1) (pipe_step codec) (stopped CIdle 0 0 MIdle None CodNext pl 0)"
proof -
  let ?s = "\<lambda>pl. stopped CIdle 0 0 MIdle None CodNext pl 0"
  let ?i = "(?s PlayTop)\<lparr>pl_running := True\<rparr>"
  have i: "reach (pipe_init 1) (pipe_step codec) ?i"
    by (rule reach_init)
      (simp add: pipe_init_def spsc_init_def mpsc_init_def pool_fresh_def stopped_def idle_pool_def pool_zero_def frame_zero_def)
  from assms show ?thesis
  proof
    assume "pl = PlayIn"
    moreover have "pipe_step codec ?i (?i\<lparr>play := PlayIn\<rparr>)" by (rule play_enter) (simp_all add: stopped_def)
    moreover have "pipe_step codec (?i\<lparr>play := PlayIn\<rparr>) (?s PlayIn)"
      using stop [of codec "?i\<lparr>play := PlayIn\<rparr>"] by (simp add: stopped_def)
    ultimately show ?thesis by (metis i reach_step)
  next
    assume "pl = PlayDone"
    moreover have "pipe_step codec ?i (?s PlayTop)" using stop [of codec ?i] by (simp add: stopped_def)
    moreover have "pipe_step codec (?s PlayTop) (?s PlayDone)"
      using play_leave [of "?s PlayTop" codec] by (simp add: stopped_def)
    ultimately show ?thesis by (metis i reach_step)
  qed
qed

lemma stopped_drained:
  assumes "pl = PlayIn \<or> pl = PlayDone"
  shows "reach (pipe_init 1) (pipe_step codec) (stopped CIdle 0 0 MIdle None (CodSend 0) pl 0)"
proof -
  let ?s = "\<lambda>cp c. stopped cp 0 0 MIdle None c pl 0"
  note d = stopped_def ring_moves_def after_dequeue_def idle_pool_def pool_zero_def
  have "pipe_step codec (?s CIdle CodNext) (?s CIdle CodDrain)"
    using cod_leave [of "?s CIdle CodNext" codec] by (simp add: stopped_def)
  moreover have "pipe_step codec (?s CIdle CodDrain) (?s (CGotW 0) CodDrain)"
    using cod_dequeue [of "?s CIdle CodDrain" "ring (?s (CGotW 0) CodDrain)" codec] c_load_w [of "ring (?s CIdle CodDrain)"]
    by (simp add: d)
  moreover have "pipe_step codec (?s (CGotW 0) CodDrain) (?s (CGotR 0 0) CodDrain)"
    using cod_dequeue [of "?s (CGotW 0) CodDrain" "ring (?s (CGotR 0 0) CodDrain)" codec] c_load_r [of "ring (?s (CGotW 0) CodDrain)" 0]
    by (simp add: d)
  moreover have "pipe_step codec (?s (CGotR 0 0) CodDrain) (?s CIdle (CodSend 0))"
    using cod_dequeue [of "?s (CGotR 0 0) CodDrain" "ring (?s CIdle (CodSend 0))" codec] c_decide [of "ring (?s (CGotR 0 0) CodDrain)" 0 0]
    by (simp add: d sp_next_def)
  ultimately show ?thesis using stopped_start [OF assms] by (meson reach_step)
qed

lemma stopped_sentinel:
  assumes "pl = PlayIn \<or> pl = PlayDone"
  shows "reach (pipe_init 1) (pipe_step codec) (stopped CIdle 2 1 MIdle None CodDone pl 1)"
proof -
  let ?s = "\<lambda>k pend m mu c z. stopped CIdle k pend m mu c pl z"
  note d = stopped_def codec_moves_def idle_pool_def pool_zero_def frame_zero_def set_frame_def mp_mark_def mp_count_def mp_signal_def
  have "pipe_step codec (?s 0 0 MIdle None (CodSend 0) 0) (?s 0 0 (MScan 0) None (CodSend 0) 0)"
    using cod_try [of "?s 0 0 MIdle None (CodSend 0) 0" 0 "outp (?s 0 0 (MScan 0) None (CodSend 0) 0)" codec]
      m_start [of 0 1 "outp (?s 0 0 MIdle None (CodSend 0) 0)"] by (simp add: d)
  moreover have "pipe_step codec (?s 0 0 (MScan 0) None (CodSend 0) 0) (?s 1 0 (MHold 0) None (CodSend 0) 0)"
    using cod_try [of "?s 0 0 (MScan 0) None (CodSend 0) 0" 0 "outp (?s 1 0 (MHold 0) None (CodSend 0) 0)" codec]
      m_cas [of 0 1 "outp (?s 0 0 (MScan 0) None (CodSend 0) 0)" 0] by (simp add: d cas_acquire_def)
  moreover have "pipe_step codec (?s 1 0 (MHold 0) None (CodSend 0) 0) (?s 1 0 (MHold 0) None CodSentinel 1)"
    using cod_sentinel [of "?s 1 0 (MHold 0) None (CodSend 0) 0" 0 0 codec] by (simp add: stopped_def fun_upd_idem)
  moreover have "pipe_step codec (?s 1 0 (MHold 0) None CodSentinel 1) (?s 2 0 (MMarked 0) None CodSentinel 1)"
    using cod_enqueue [of "?s 1 0 (MHold 0) None CodSentinel 1" "outp (?s 2 0 (MMarked 0) None CodSentinel 1)" codec]
      m_mark [of 0 1 "outp (?s 1 0 (MHold 0) None CodSentinel 1)" 0] by (simp add: d)
  moreover have "pipe_step codec (?s 2 0 (MMarked 0) None CodSentinel 1) (?s 2 0 (MLocked 0) (Some (Producer 0)) CodSentinel 1)"
    using cod_enqueue [of "?s 2 0 (MMarked 0) None CodSentinel 1" "outp (?s 2 0 (MLocked 0) (Some (Producer 0)) CodSentinel 1)" codec]
      m_lock [of 0 1 "outp (?s 2 0 (MMarked 0) None CodSentinel 1)" 0] by (simp add: d)
  moreover have "pipe_step codec (?s 2 0 (MLocked 0) (Some (Producer 0)) CodSentinel 1) (?s 2 1 MCounted (Some (Producer 0)) CodSentinel 1)"
    using cod_enqueue [of "?s 2 0 (MLocked 0) (Some (Producer 0)) CodSentinel 1" "outp (?s 2 1 MCounted (Some (Producer 0)) CodSentinel 1)" codec]
      m_count [of 0 1 "outp (?s 2 0 (MLocked 0) (Some (Producer 0)) CodSentinel 1)" 0] by (simp add: d)
  moreover have "pipe_step codec (?s 2 1 MCounted (Some (Producer 0)) CodSentinel 1) (?s 2 1 MUnlock (Some (Producer 0)) CodSentinel 1)"
    using cod_enqueue [of "?s 2 1 MCounted (Some (Producer 0)) CodSentinel 1" "outp (?s 2 1 MUnlock (Some (Producer 0)) CodSentinel 1)" codec]
      m_signal [of 0 1 "outp (?s 2 1 MCounted (Some (Producer 0)) CodSentinel 1)"] by (simp add: d)
  moreover have "pipe_step codec (?s 2 1 MUnlock (Some (Producer 0)) CodSentinel 1) (?s 2 1 MIdle None CodDone 1)"
    using cod_enqueue [of "?s 2 1 MUnlock (Some (Producer 0)) CodSentinel 1" "outp (?s 2 1 MIdle None CodDone 1)" codec]
      m_unlock [of 0 1 "outp (?s 2 1 MUnlock (Some (Producer 0)) CodSentinel 1)"] by (simp add: d)
  ultimately show ?thesis using stopped_drained [OF assms] by (meson reach_step)
qed

lemma stopped_ready: "ready_slots 1 (outp (stopped cp 2 pend m mu c pl z)) = {0}"
  by (auto simp: ready_slots_def stopped_def idle_pool_def pool_zero_def frame_zero_def)

lemma pipeline_conserves_witness:
  "\<exists>s :: nat pipe. sentinels s = 1
    \<and> mset (rcvd (ring s)) + {#[]#} = mset (dropped s) + mset (taken_out s) + image_mset (out_buf s) (mset_set {0})"
proof -
  let ?s = "stopped CIdle 2 1 MIdle None CodDone PlayIn 1"
  have "sentinels ?s = 1" "cod ?s = CodDone" "length (sent (ring ?s)) < 2147483648" by (simp_all add: stopped_def)
  with pipeline_conserves [OF stopped_sentinel, of PlayIn] stopped_ready show ?thesis
    by (intro exI [of _ ?s]) (simp add: out_slots_plain)
qed

lemma pipeline_exclusive_witness:
  "dpc (outp (stopped CIdle 2 1 MIdle None CodDone PlayIn 1)) \<noteq> DNone"
proof -
  have "length (sent (ring (stopped CIdle 2 1 MIdle None CodDone PlayIn 1))) < 2147483648" by (simp add: stopped_def)
  with pipeline_exclusive [OF stopped_sentinel [of PlayIn True]] show ?thesis by blast
qed

lemma shutdown_ends_witness:
  "\<exists>s t :: nat pipe. cod s = CodDone \<and> play s = PlayIn \<and> pipe_step True s t \<and> remaining 1 t < remaining 1 s"
proof -
  let ?s = "stopped CIdle 2 1 MIdle None CodDone PlayIn 1"
  have c: "cod ?s = CodDone" and p: "play ?s = PlayIn" by (simp_all add: stopped_def)
  have "play ?s = PlayDone \<or> (\<exists>t. pipe_step True ?s t \<and> remaining 1 t < remaining 1 ?s)"
    using shutdown_ends [OF stopped_sentinel [of PlayIn True] c] by blast
  with p obtain t where "pipe_step True ?s t" "remaining 1 t < remaining 1 ?s" by auto
  with c p show ?thesis by blast
qed

section \<open>Starting a stream again\<close>

text \<open>
  A playback thread that sees the flag before it sees the sentinel leaves the sentinel in the pool, and
  bb_audio_stream_start does not empty the pools: the next playback thread ends on its first
  frame, with no error recorded and the stream still running.
\<close>

theorem sentinel_left_over:
  "\<exists>s :: nat pipe. reach (pipe_init 1) (pipe_step codec) s \<and> cod s = CodDone \<and> play s = PlayDone
    \<and> ready_slots 1 (outp s) = {0} \<and> out_buf s 0 = []"
  using stopped_sentinel [of PlayDone codec]
  by (intro exI [of _ "stopped CIdle 2 1 MIdle None CodDone PlayDone 1"] conjI stopped_ready) (simp_all add: stopped_def)

theorem restart_plays_nothing:
  assumes "bb_pool_mp_dequeue (mp_pool s) = Some (Some j, q)" "f_size (p_frames q ! j) = 0"
    and "bb_audio_stream_start spawn s = (0, joined, t)"
  shows "\<exists>u. playback_round wr 0 t = Inr (Some (True, 0, u)) \<and> s_running u \<and> \<not> s_error u \<and> pb_frames u = 0"
proof -
  have "t = s\<lparr>s_running := True, s_error := False, cap_frames := 0, pb_frames := 0, drop_frames := 0\<rparr>"
    using assms(3) by (auto simp: bb_audio_stream_start_def Let_def split: if_splits)
  then show ?thesis using assms(1,2) by (simp add: playback_round_def Let_def)
qed

lemma restart_plays_nothing_witness:
  "\<exists>s u. bb_audio_stream_start (\<lambda>_. 0) ((demo_stream 960 demo_cfg)\<lparr>mp_pool := idle_pool 2 1\<rparr>) = (0, [], s)
    \<and> playback_round (\<lambda>_. 480) 0 s = Inr (Some (True, 0, u)) \<and> s_running u"
proof -
  let ?s = "(demo_stream 960 demo_cfg)\<lparr>mp_pool := idle_pool 2 1\<rparr>"
  have d: "bb_pool_mp_dequeue (mp_pool ?s) = Some (Some 0, idle_pool 2 0)"
    by (simp add: idle_pool_def bb_pool_mp_dequeue_def pool_scan_def pool_zero_def frame_zero_def)
  obtain t where t: "bb_audio_stream_start (\<lambda>_. 0) ?s = (0, [], t)" by (simp add: bb_audio_stream_start_def Let_def)
  have z: "f_size (p_frames (idle_pool 2 0) ! 0) = 0" by (simp add: idle_pool_def frame_zero_def)
  show ?thesis using restart_plays_nothing [OF d z t] t by blast
qed

section \<open>A stream without its codec thread\<close>

text \<open>The threads without the codec thread, which was not created.\<close>

definition no_codec_step :: "bool \<Rightarrow> 'a pipe \<Rightarrow> 'a pipe \<Rightarrow> bool" where
  "no_codec_step codec s t \<longleftrightarrow> pipe_step codec s t \<and> cod t = cod s \<and> mpc (outp t) = mpc (outp s)"

definition starved :: "'a pipe \<Rightarrow> bool" where
  "starved s \<longleftrightarrow> p_mp_pending (mpool (outp s)) = 0 \<and> dpc (outp s) \<in> {DIdle, DAsleep, DLocked}"

lemma starved_step:
  assumes "starved s" "no_codec_step codec s t"
  shows "starved t \<and> (play s = PlayIn \<longrightarrow> play t = PlayIn)"
proof -
  have step: "pipe_step codec s t" and same: "mpc (outp t) = mpc (outp s)" using assms(2) by (simp_all add: no_codec_step_def)
  from step show ?thesis
  proof cases
    case (play_dequeue q)
    then have "mpsc_step 1 (outp s) q" and ch: "dpc q \<noteq> dpc (outp s)" by (simp_all add: playback_moves_def)
    from this(1) have "p_mp_pending (mpool q) = 0 \<and> dpc q \<in> {DIdle, DAsleep, DLocked}"
      by cases (use assms(1) ch in \<open>auto simp: starved_def\<close>)
    then show ?thesis using play_dequeue assms(1) by (auto simp: starved_def)
  qed (use assms(1) same in \<open>auto simp: starved_def codec_moves_def\<close>)
qed

interpretation starving: inv_machine "pipe_init n" "no_codec_step codec" starved for n codec
proof unfold_locales
  show "starved s" if "pipe_init n s" for s using that by (simp add: pipe_init_def mpsc_init_def pool_fresh_def starved_def)
  show "starved t" if "starved s" "no_codec_step codec s t" for s t using starved_step [OF that] by blast
qed

text \<open>
  bb_thread_spawn returns a positive error number and bb_audio_stream_start tests for a negative one, so a start
  whose codec thread was not created reports success (\<open>spawn_failure_unnoticed\<close> of BB_Audio_Stream). Only the codec
  thread sends the sentinel: a playback thread that is in its loop never returns, whatever the others do, also
  after bb_audio_stream_stop has cleared the flag.
\<close>

theorem playback_without_codec:
  assumes "reach (pipe_init n) (no_codec_step codec) s" "play s = PlayIn" "(no_codec_step codec)\<^sup>*\<^sup>* s t"
  shows "play t = PlayIn"
  using assms(3,2)
proof (induction rule: rtranclp_induct)
  case (step t u)
  have "starved t" using starving.steps_inv [OF step.hyps(1) starving.reach_inv [OF assms(1)]] .
  then show ?case using starved_step step by blast
qed

lemma playback_without_codec_witness: "play (stopped CIdle 0 0 MIdle None CodNext PlayIn 0) = PlayIn"
proof -
  let ?i = "(stopped CIdle 0 0 MIdle None CodNext PlayTop 0)\<lparr>pl_running := True\<rparr>"
  let ?s = "?i\<lparr>play := PlayIn\<rparr>" and ?t = "stopped CIdle 0 0 MIdle None CodNext PlayIn 0"
  have "reach (pipe_init 1) (no_codec_step True) ?i"
    by (rule reach_init)
      (simp add: pipe_init_def spsc_init_def mpsc_init_def pool_fresh_def stopped_def idle_pool_def pool_zero_def frame_zero_def)
  moreover have "no_codec_step True ?i ?s" using play_enter [of ?i True] by (simp add: stopped_def no_codec_step_def)
  moreover have "no_codec_step True ?s ?t" using stop [of True ?s] by (simp add: stopped_def no_codec_step_def)
  moreover have "play ?s = PlayIn" by simp
  ultimately show ?thesis using playback_without_codec [of 1 True ?s ?t] by (meson reach_step r_into_rtranclp)
qed

end
