(* ===== verification/BB_Audio_Test.thy ===== *)
theory BB_Audio_Test
  imports BB_Audio_Stream
begin

text \<open>
  The audio tools. \<open>tools/bb-audio-test.c\<close>: the playback loop, the capture loop with the level statistics, and
  the choice of the tests. The results of poll, of the reads with their samples and of the writes
  are arguments indexed by the round; the tone's samples come from the floating point library.
  \<open>tools/bb-audio-loopback.c\<close>: its session with the audio stream.
\<close>

type_synonym sample = "16 word"

section \<open>Tone\<close>

text \<open>\<open>tone i\<close> is the i-th sample, the same on every channel of a frame.\<close>

definition gen_sine :: "(nat \<Rightarrow> sample) \<Rightarrow> nat \<Rightarrow> nat \<Rightarrow> sample list" where
  "gen_sine tone frames ch = concat (map (\<lambda>i. replicate ch (tone i)) [0..<frames])"

section \<open>Playback\<close>

text \<open>
  The frames written, and the chunks in order; None is a loop that does not end. \<open>wr k n\<close> is the k-th
  write, of n frames.
\<close>

partial_function (option) playback_loop :: "(nat \<Rightarrow> u32 \<Rightarrow> int) \<Rightarrow> u32 \<Rightarrow> u32 \<Rightarrow> nat \<Rightarrow> u32 \<Rightarrow> (u32 \<times> u32 list) option" where
  "playback_loop wr want per k written =
    (if written < want then
       (let chunk = min (want - written) per; n = wr k chunk in
        if n < 0 then Some (written, [chunk])
        else Option.bind (playback_loop wr want per (Suc k) (written + word_of_int n))
               (\<lambda>(w, chunks). Some (w, chunk # chunks)))
     else Some (written, []))"

definition total_of :: "u32 \<Rightarrow> int \<Rightarrow> u32" where
  "total_of rate duration = rate * word_of_int duration"

text \<open>
  \<open>opened\<close> is the result of the device's open, \<open>mem\<close> whether malloc succeeds. The result is the
  return value, the descriptors closed and the frames written; None as for the loop.
\<close>

definition test_playback :: "int \<times> bb_audio_t \<Rightarrow> bool \<Rightarrow> (nat \<Rightarrow> u32 \<Rightarrow> int) \<Rightarrow> int \<Rightarrow> (int \<times> int list \<times> u32) option" where
  "test_playback opened mem wr duration =
    (case opened of (r, a) \<Rightarrow>
       if r < 0 then Some (-1, [], 0)
       else if \<not> mem then Some (-1, snd (bb_audio_close a), 0)
       else map_option (\<lambda>(w, chunks). (0, snd (bb_audio_close a), w))
              (playback_loop wr (total_of (au_rate a) duration) (period_frames a) 0 0))"

section \<open>Level statistics\<close>

record stats =
  st_sum :: int
  st_sum_sq :: int
  st_count :: int
  st_peak :: sample

definition stats0 :: stats where
  "stats0 = \<lparr>st_sum = 0, st_sum_sq = 0, st_count = 0, st_peak = 0\<rparr>"

text \<open>One sample; the negated sample is an int, stored in the 16 bits of the peak.\<close>

definition peak_step :: "sample \<Rightarrow> sample \<Rightarrow> sample" where
  "peak_step p s =
    (let p1 = (if sint s > sint p then s else p) in if - sint s > sint p1 then word_of_int (- sint s) else p1)"

definition stats_step :: "stats \<Rightarrow> sample \<Rightarrow> stats" where
  "stats_step st s = \<lparr>st_sum = st_sum st + sint s, st_sum_sq = st_sum_sq st + sint s * sint s,
     st_count = st_count st + 1, st_peak = peak_step (st_peak st) s\<rparr>"

lemma stats_step_sel [simp]:
  "st_peak (stats_step st s) = peak_step (st_peak st) s" "st_count (stats_step st s) = st_count st + 1"
  by (simp_all add: stats_step_def)

section \<open>Capture\<close>

text \<open>
  \<open>pl k\<close> is the k-th poll, \<open>rd k n\<close> the read after it of up to n frames: its result and the samples
  in the buffer. The result is the frames read and the statistics.
\<close>

partial_function (option) capture_loop ::
  "(nat \<Rightarrow> int) \<Rightarrow> (nat \<Rightarrow> u32 \<Rightarrow> int \<times> sample list) \<Rightarrow> u32 \<Rightarrow> u32 \<Rightarrow> u32 \<Rightarrow> nat \<Rightarrow> u32 \<Rightarrow> stats \<Rightarrow> (u32 \<times> stats) option" where
  "capture_loop pl rd ch want per k got st =
    (if got < want then
       if pl k \<le> 0 then Some (got, st)
       else (let (n, xs) = rd k (min (want - got) per) in
         if n < 0 then Some (got, st)
         else if n = 0 then capture_loop pl rd ch want per (Suc k) got st
         else capture_loop pl rd ch want per (Suc k) (got + word_of_int n)
                (foldl stats_step st (take (unat (word_of_int n * ch)) xs)))
     else Some (got, st))"

definition near_zero :: "stats \<Rightarrow> bool" where
  "near_zero st \<longleftrightarrow> st_count st > 0 \<and> sint (st_peak st) < 10"

definition test_capture :: "int \<times> bb_audio_t \<Rightarrow> bool \<Rightarrow> (nat \<Rightarrow> int) \<Rightarrow> (nat \<Rightarrow> u32 \<Rightarrow> int \<times> sample list) \<Rightarrow> int
    \<Rightarrow> (int \<times> int list \<times> u32 \<times> stats) option" where
  "test_capture opened mem pl rd duration =
    (case opened of (r, a) \<Rightarrow>
       if r < 0 then Some (-1, [], 0, stats0)
       else if \<not> mem then Some (-1, snd (bb_audio_close a), 0, stats0)
       else map_option (\<lambda>(got, st). (0, snd (bb_audio_close a), got, st))
              (capture_loop pl rd (au_channels a) (total_of (au_rate a) duration) (period_frames a) 0 0 stats0))"

section \<open>The tool\<close>

text \<open>
  Which tests run for the arguments, capture first; a number that does not read is 0 for atoi. The exit
  status is always 0.
\<close>

definition audio_tests :: "string list \<Rightarrow> bool \<times> bool" where
  "audio_tests argv = (let mode = (case argv of [] \<Rightarrow> ''both'' | m # _ \<Rightarrow> m) in
     (mode = ''capture'' \<or> mode = ''both'', mode = ''playback'' \<or> mode = ''both''))"

section \<open>The loops\<close>

text \<open>Counting up to a 32-bit bound by no more than what is left does not wrap.\<close>

lemma count_up:
  fixes got want per :: u32
  assumes "got < want" "0 < per" "0 < n" "n \<le> uint (min (want - got) per)"
  shows "unat (want - (got + word_of_int n)) < unat (want - got)" "got + word_of_int n \<le> want"
proof -
  have d: "uint (want - got) = uint want - uint got" using assms(1) uint_sub_lem [of got want] by (simp add: word_less_def)
  have n: "n \<le> uint want - uint got" using assms(4) d by (auto simp: min_def word_le_def split: if_splits)
  have "uint (got + word_of_int n) = uint got + n"
    using n assms(3) uint_lt2p [of want] uint_ge_0 [of got] by (simp add: uint_word_ariths uint_word_of_int mod_simps)
  moreover from this show le: "got + word_of_int n \<le> want" using n by (simp add: word_le_def)
  ultimately have "uint (want - (got + word_of_int n)) = uint want - uint got - n"
    using uint_sub_lem [of "got + word_of_int n" want] by (simp add: word_le_def)
  then show "unat (want - (got + word_of_int n)) < unat (want - got)"
    using assms(3) n d by (simp add: unat_eq_nat_uint)
qed

text \<open>
  With a device that accepts at least one frame of every chunk the playback of any length ends and writes
  exactly the frames asked for, in chunks of at most a period; none is empty.
\<close>

theorem playback_complete:
  fixes written want per :: u32
  assumes "0 < per" "\<And>k n. 0 < n \<Longrightarrow> 0 < wr k n \<and> wr k n \<le> uint n" "written \<le> want"
  shows "\<exists>chunks. playback_loop wr want per k written = Some (want, chunks) \<and> (\<forall>c \<in> set chunks. 0 < c \<and> c \<le> per)"
  using assms(3)
proof (induction "unat (want - written)" arbitrary: k written rule: less_induct)
  case less
  show ?case
  proof (cases "written < want")
    case True
    let ?c = "min (want - written) per"
    have "want - written \<noteq> 0" using True by auto
    then have c: "0 < ?c" "?c \<le> per" using assms(1) by (auto simp: min_def word_gt_0)
    have n: "0 < wr k ?c" "wr k ?c \<le> uint ?c" using assms(2) c by auto
    note u = count_up [OF True assms(1) n]
    obtain chunks where ih: "playback_loop wr want per (Suc k) (written + word_of_int (wr k ?c)) = Some (want, chunks)"
      "\<forall>c \<in> set chunks. 0 < c \<and> c \<le> per"
      using less.hyps [OF u(1) u(2)] by blast
    have "playback_loop wr want per k written = Some (want, ?c # chunks)"
      using True n ih(1) by (subst playback_loop.simps) (simp add: Let_def)
    then show ?thesis using ih(2) c by auto
  next
    case False
    then have "playback_loop wr want per k written = Some (want, [])"
      using less.prems by (subst playback_loop.simps) (simp add: not_less order_antisym)
    then show ?thesis by auto
  qed
qed

lemma playback_complete_witness:
  "\<exists>chunks. playback_loop (\<lambda>k n. uint n) 96000 1024 0 0 = Some (96000, chunks)"
proof -
  have pos: "0 < uint n \<and> uint n \<le> uint n" if "0 < n" for n :: u32
    using that by (simp add: word_less_def)
  have "0 < (1024 :: u32)" "(0 :: u32) \<le> 96000" by simp_all
  from playback_complete [OF this(1), of "\<lambda>k n. uint n", OF _ this(2)] pos show ?thesis by blast
qed

section \<open>Levels\<close>

lemma sint16: "- 32768 \<le> sint (s :: sample)" "sint (s :: sample) \<le> 32767"
  using sint_range_size [of s] by (simp_all add: word_size)

lemma peak_step_max:
  assumes "s \<noteq> 0x8000" "0 \<le> sint p"
  shows "sint (peak_step p s) = max (sint p) \<bar>sint s\<bar>"
proof -
  have "sint s \<noteq> - 32768"
  proof
    assume "sint s = - 32768"
    then have "s = 0x8000" by (intro signed_word_eqI) simp
    then show False using assms(1) by simp
  qed
  then have "sint (word_of_int (- sint s) :: sample) = - sint s" if "sint s < 0"
    unfolding signed_of_int using that sint16 [of s] by (subst signed_take_bit_int_eq_self) simp_all
  then show ?thesis using assms(2) by (auto simp: peak_step_def Let_def max_def)
qed

text \<open>
  The peak of the capture statistics is the largest magnitude of the samples, in whatever reads they
  arrive, as long as none of them is the most negative value.
\<close>

theorem peak_is_largest:
  assumes "0x8000 \<notin> set xs"
  shows "sint (st_peak (foldl stats_step stats0 xs)) = Max (insert 0 ((\<lambda>s. \<bar>sint s\<bar>) ` set xs))"
  using assms
proof (induction xs rule: rev_induct)
  case (snoc s xs)
  let ?p = "st_peak (foldl stats_step stats0 xs)" and ?A = "insert 0 ((\<lambda>s. \<bar>sint s\<bar>) ` set xs)"
  have ih: "sint ?p = Max ?A" using snoc by simp
  then have "0 \<le> sint ?p" by simp
  then have "sint (peak_step ?p s) = max (Max ?A) \<bar>sint s\<bar>" using peak_step_max [of s ?p] snoc.prems ih by auto
  also have "\<dots> = Max (insert \<bar>sint s\<bar> ?A)" by (simp add: max.commute)
  finally show ?case by (simp add: insert_commute)
qed (simp add: stats0_def)

lemma peak_is_largest_witness: "sint (st_peak (foldl stats_step stats0 [100, -300, 7])) = 300"
  by (subst peak_is_largest) auto

text \<open>
  A sample of full negative scale is stored as a negative peak: whatever was captured before it, the tool
  then reports a signal near zero.
\<close>

theorem full_scale_near_zero:
  "st_peak (foldl stats_step st (xs @ [0x8000])) = 0x8000
   \<and> (0 \<le> st_count st \<longrightarrow> near_zero (foldl stats_step st (xs @ [0x8000])))"
proof -
  have count: "st_count (foldl stats_step st ys) = st_count st + int (length ys)" for ys
    by (induction ys arbitrary: st) simp_all
  have "peak_step p 0x8000 = 0x8000" for p
    using sint16 [of p] by (simp add: peak_step_def Let_def not_less [symmetric])
  then show ?thesis using count [of xs] by (simp add: near_zero_def)
qed

section \<open>The capture loop\<close>





lemma capture_stuck:
  assumes "capture_loop pl rd ch want per k got st = Some y"
  shows "\<not> (got < want \<and> (\<forall>k. 0 < pl k) \<and> (\<forall>k n. fst (rd k n) = 0))"
proof (rule capture_loop.raw_induct [OF _ assms, where P = "\<lambda>pl rd ch want per k got st y.
    \<not> (got < want \<and> (\<forall>k. 0 < pl k) \<and> (\<forall>k n. fst (rd k n) = 0))"], rule notI)
  fix loop and pl :: "nat \<Rightarrow> int" and rd ch want per k got st y
  assume IH: "\<And>pl rd ch want per k got st y. loop pl rd ch want per k got st = Some y \<Longrightarrow>
      \<not> (got < want \<and> (\<forall>k. 0 < pl k) \<and> (\<forall>k n. fst (rd k n) = 0))"
    and eq: "(if got < want then if pl k \<le> 0 then Some (got, st)
        else (let (n, xs) = rd k (min (want - got) per) in if n < 0 then Some (got, st)
          else if n = 0 then loop pl rd ch want per (Suc k) got st
          else loop pl rd ch want per (Suc k) (got + word_of_int n) (foldl stats_step st (take (unat (word_of_int n * ch)) xs)))
      else Some (got, st)) = Some y"
    and a: "got < want \<and> (\<forall>k. 0 < pl k) \<and> (\<forall>k n. fst (rd k n) = 0)"
  obtain xs where "rd k (min (want - got) per) = (0, xs)" using a by (metis prod.collapse)
  moreover have "\<not> pl k \<le> 0" using a by (simp add: not_le)
  ultimately have "loop pl rd ch want per (Suc k) got st = Some y" using eq a by simp
  from IH [OF this] a show False by blast
qed

lemma playback_stuck:
  assumes "playback_loop wr want per k w = Some y" shows "\<not> (w < want \<and> (\<forall>k n. wr k n = 0))"
proof (rule playback_loop.raw_induct [OF _ assms, where P = "\<lambda>wr want per k w y. \<not> (w < want \<and> (\<forall>k n. wr k n = 0))"], rule notI)
  fix loop and wr :: "nat \<Rightarrow> u32 \<Rightarrow> int" and want per k w y
  assume IH: "\<And>wr want per k w y. loop wr want per k w = Some y \<Longrightarrow> \<not> (w < want \<and> (\<forall>k n. wr k n = 0))"
    and eq: "(if w < want then (let chunk = min (want - w) per; n = wr k chunk in if n < 0 then Some (w, [chunk])
        else Option.bind (loop wr want per (Suc k) (w + word_of_int n)) (\<lambda>(w, chunks). Some (w, chunk # chunks)))
      else Some (w, [])) = Some y"
    and a: "w < want \<and> (\<forall>k n. wr k n = 0)"
  obtain y' where "loop wr want per (Suc k) w = Some y'" using eq a by (auto simp: Let_def split: bind_splits)
  from IH [OF this] a show False by blast
qed

text \<open>
  A read that returns fewer bytes than a frame counts as 0 frames, for which the capture tries again: with such a
  device the loop does not end, the timeout of the poll notwithstanding. A write of less than a frame does the
  same to the playback.
\<close>

theorem partial_frames_hang:
  fixes got want per ch :: u32
  assumes "got < want" "\<And>k. 0 < pl k" "\<And>k n. fst (rd k n) = 0" "\<And>k n. wr k n = 0"
  shows "capture_loop pl rd ch want per k got st = None \<and> playback_loop wr want per k got = None"
proof
  show "capture_loop pl rd ch want per k got st = None" using capture_stuck [of pl rd ch want per k got st] assms(1-3)
    by (cases "capture_loop pl rd ch want per k got st") auto
  show "playback_loop wr want per k got = None" using playback_stuck [of wr want per k got] assms(1,4)
    by (cases "playback_loop wr want per k got") auto
qed

lemma partial_frames_hang_witness:
  "capture_loop (\<lambda>k. 1) (\<lambda>k n. (0, [])) 2 96000 1024 0 0 stats0 = None"
  by (rule conjunct1 [OF partial_frames_hang [of _ _ _ _ "\<lambda>k n. 0"]]) simp_all

section \<open>Loopback\<close>

text \<open>
  The lines printed every second: the time, the three counters, and the frames captured and played
  since the line before. Each observation is g_running before the second and the counters after it.
\<close>

fun stats_lines :: "nat \<Rightarrow> u32 \<Rightarrow> u32 \<Rightarrow> (bool \<times> u32 \<times> u32 \<times> u32) list \<Rightarrow> (nat \<times> u32 \<times> u32 \<times> u32 \<times> u32 \<times> u32) list" where
  "stats_lines t last_cap last_pb [] = []"
| "stats_lines t last_cap last_pb ((running, cap, pb, lost) # obs) =
    (if running then (t + 1, cap, pb, lost, cap - last_cap, pb - last_pb) # stats_lines (t + 1) cap pb obs else [])"

text \<open>Duration, rate and channels of the arguments.\<close>

definition loopback_args :: "string list \<Rightarrow> (int \<times> u32 \<times> u32) cres" where
  "loopback_args argv =
    (case (if length argv > 0 then atoi (argv ! 0) else Inr 5) of Inl e \<Rightarrow> Inl e | Inr duration \<Rightarrow>
     (case (if length argv > 1 then atoi (argv ! 1) else Inr 48000) of Inl e \<Rightarrow> Inl e | Inr rate \<Rightarrow>
      (case (if length argv > 2 then atoi (argv ! 2) else Inr 2) of Inl e \<Rightarrow> Inl e | Inr channels \<Rightarrow>
        Inr (duration, word_of_int rate, word_of_int channels))))"

definition loopback_config :: "u32 \<Rightarrow> u32 \<Rightarrow> bb_audio_stream_config_t" where
  "loopback_config rate channels = bb_audio_stream_config_default\<lparr>cfg_rate := rate, cfg_channels := channels,
     cfg_pool_frames := 4, cfg_codec := False\<rparr>"

text \<open>
  The session: \<open>run\<close> is what the three threads make of the started stream until it is stopped. The
  result is the exit status, the descriptors closed, whether errors are reported, and the heap.
\<close>

definition loopback_session :: "(nat \<Rightarrow> bool) \<Rightarrow> int \<times> bb_audio_t \<Rightarrow> int \<times> bb_audio_t \<Rightarrow> (stream_thread \<Rightarrow> int)
    \<Rightarrow> (bb_audio_stream_t \<Rightarrow> bb_audio_stream_t) \<Rightarrow> bb_audio_stream_config_t \<Rightarrow> heap \<Rightarrow> (int \<times> int list \<times> bool \<times> heap) cres" where
  "loopback_session ok cap pb spawn run cfg h =
    (case bb_audio_stream_init ok cap pb 0 cfg h of Inl e \<Rightarrow> Inl e
     | Inr (r, cl, sp, mp, h1) \<Rightarrow>
       if r < 0 then Inr (1, cl, False, h1)
       else
         (let s = stream_zero\<lparr>s_cfg := cfg, cap_dev := snd cap, pb_dev := snd pb, sp_pool := sp, mp_pool := mp\<rparr> in
          case bb_audio_stream_start spawn s of (st, joined, s1) \<Rightarrow>
            if st < 0 then
              (case bb_audio_stream_destroy s1 h1 of Inl e \<Rightarrow> Inl e | Inr (j, cl1, s2, h2) \<Rightarrow> Inr (1, cl1, False, h2))
            else
              (case bb_audio_stream_stop (run s1) of (st2, j2, s3) \<Rightarrow>
               case bb_audio_stream_destroy s3 h1 of Inl e \<Rightarrow> Inl e
               | Inr (j, cl1, s4, h2) \<Rightarrow> Inr (0, cl1, s_error s4, h2))))"

text \<open>
  Running the threads keeps the devices and, of the pools, everything the destruction needs.
\<close>

definition keeps_resources :: "(bb_audio_stream_t \<Rightarrow> bb_audio_stream_t) \<Rightarrow> bool" where
  "keeps_resources run \<longleftrightarrow> (\<forall>s. cap_dev (run s) = cap_dev s \<and> pb_dev (run s) = pb_dev s
     \<and> (\<forall>h0 h. pool_owns h0 (sp_pool s) h \<longrightarrow> pool_owns h0 (sp_pool (run s)) h)
     \<and> (\<forall>h0 h. pool_owns h0 (mp_pool s) h \<longrightarrow> pool_owns h0 (mp_pool (run s)) h))"

text \<open>
  The loopback tool gives back all it took on every path: the devices that opened are closed and the heap
  is as before, whether the initialisation, the start or neither fails. It never reports the errors
  of the run: the flag is read after the stream was cleared.
\<close>

theorem loopback_releases:
  assumes "heap_ok h" "fst cap < 0 \<longrightarrow> au_fd (snd cap) < 0" "\<not> fst cap < 0 \<longrightarrow> 0 \<le> au_fd (snd cap)"
    "\<not> fst cap < 0 \<and> \<not> fst pb < 0 \<longrightarrow> 0 \<le> au_fd (snd pb)" "keeps_resources run"
  shows "\<exists>status h'. loopback_session ok cap pb spawn run cfg h = Inr (status,
      if fst cap < 0 then [] else if fst pb < 0 then [au_fd (snd cap)] else [au_fd (snd cap), au_fd (snd pb)], False, h')
    \<and> live h' = live h \<and> (fst cap < 0 \<or> fst pb < 0 \<longrightarrow> status = 1)"
proof -
  obtain r cl sp mp h1 where i: "bb_audio_stream_init ok cap pb 0 cfg h = Inr (r, cl, sp, mp, h1)"
    and neg: "r < 0 \<longrightarrow> live h1 = live h
        \<and> cl = (if fst cap < 0 then [] else if fst pb < 0 then [au_fd (snd cap)] else [au_fd (snd cap), au_fd (snd pb)])"
    and pos: "\<not> r < 0 \<longrightarrow> r = 0 \<and> cl = [] \<and> (\<exists>h2. pool_owns h sp h2 \<and> pool_owns h2 mp h1)"
    using stream_init_releases [OF assms(1-4), of ok 0 cfg] by blast
  show ?thesis
  proof (cases "r < 0")
    case True
    then show ?thesis using i neg by (simp add: loopback_session_def)
  next
    case False
    then obtain h2 where own: "pool_owns h sp h2" "pool_owns h2 mp h1" using pos by blast
    have opened: "\<not> fst cap < 0" "\<not> fst pb < 0"
      using i False pos by (auto simp: bb_audio_stream_init_def Let_def case_prod_beta ENODEV_def split: if_splits)
    then have fds: "0 \<le> au_fd (snd cap)" "0 \<le> au_fd (snd pb)" using assms(3,4) by auto
    let ?s = "stream_zero\<lparr>s_cfg := cfg, cap_dev := snd cap, pb_dev := snd pb, sp_pool := sp, mp_pool := mp\<rparr>"
    obtain st j s1 where start: "bb_audio_stream_start spawn ?s = (st, j, s1)" by (metis prod.collapse)
    have s1: "cap_dev s1 = snd cap" "pb_dev s1 = snd pb" "sp_pool s1 = sp" "mp_pool s1 = mp"
      using start by (auto simp: bb_audio_stream_start_def Let_def split: if_splits)
    obtain st2 j2 s3 where stop: "bb_audio_stream_stop (run s1) = (st2, j2, s3)" by (metis prod.collapse)
    have s3: "cap_dev s3 = snd cap" "pb_dev s3 = snd pb" "pool_owns h (sp_pool s3) h2" "pool_owns h2 (mp_pool s3) h1"
      using stop s1 own assms(5) by (auto simp: bb_audio_stream_stop_def keeps_resources_def split: if_splits)
    obtain h3 where d3: "bb_audio_stream_destroy s3 h1 = Inr (if s_running s3 then [Capture, Codec, Playback] else [],
        [au_fd (snd cap), au_fd (snd pb)], stream_zero, h3)" "live h3 = live h"
      using stream_destroy_ok [OF s3(3,4)] s3(1,2) fds by auto
    obtain h4 where d1: "bb_audio_stream_destroy s1 h1 = Inr (if s_running s1 then [Capture, Codec, Playback] else [],
        [au_fd (snd cap), au_fd (snd pb)], stream_zero, h4)" "live h4 = live h"
      using stream_destroy_ok [of h s1 h2 h1] own s1 fds by auto
    show ?thesis
      using i False start stop d1 d3 opened by (simp add: loopback_session_def Let_def stream_zero_def)
  qed
qed

lemma loopback_releases_witness:
  "\<exists>status h'. loopback_session (\<lambda>_. True) (0, demo_dev) (0, demo_dev\<lparr>au_fd := 8\<rparr>) (\<lambda>_. 0) (\<lambda>s. s\<lparr>s_error := True\<rparr>) demo_cfg empty_heap
      = Inr (status, [7, 8], False, h') \<and> live h' = live empty_heap"
proof -
  have "heap_ok empty_heap" "keeps_resources (\<lambda>s. s\<lparr>s_error := True\<rparr>)"
    by (simp_all add: empty_heap_def heap_ok_def keeps_resources_def)
  from loopback_releases [OF this(1) _ _ _ this(2), of "(0, demo_dev)" "(0, demo_dev\<lparr>au_fd := 8\<rparr>)" "\<lambda>_. True" "\<lambda>_. 0" demo_cfg]
  show ?thesis by (auto simp: demo_dev_def)
qed

end
