(* ===== verification/BB_Stdio.thy ===== *)
theory BB_Stdio
  imports BB_CString
begin

text \<open>
  The stdio and stdlib routines of the file handling code: \<open>fgets\<close> over the contents of a file,
  the number conversions of \<open>sscanf\<close>, \<open>strtoull\<close> and \<open>snprintf\<close> into a fixed array.
\<close>

section \<open>fgets\<close>

text \<open>One call with room for n bytes: up to and including a newline. Returns the rest of the file.\<close>

fun fgets :: "nat \<Rightarrow> string \<Rightarrow> string \<times> string" where
  "fgets 0 s = ([], s)"
| "fgets (Suc n) [] = ([], [])"
| "fgets (Suc n) (c # s) = (if c = NL then ([c], s) else let (a, r) = fgets n s in (c # a, r))"

lemma fgets_append: "fst (fgets n s) @ snd (fgets n s) = s"
  by (induction n s rule: fgets.induct) (auto simp: case_prod_beta)

lemma fgets_progress: "n \<noteq> 0 \<Longrightarrow> s \<noteq> [] \<Longrightarrow> length (snd (fgets n s)) < length s"
proof -
  assume "n \<noteq> 0" "s \<noteq> []"
  then have "fst (fgets n s) \<noteq> []" by (cases n; cases s) (auto simp: case_prod_beta)
  moreover have "length (fst (fgets n s)) + length (snd (fgets n s)) = length s"
    by (metis fgets_append length_append)
  ultimately show ?thesis by (cases "fst (fgets n s)") auto
qed

text \<open>The lines a loop \<open>while (fgets(line, n + 1, f))\<close> sees.\<close>

function file_lines :: "nat \<Rightarrow> string \<Rightarrow> string list" where
  "file_lines n s = (if n = 0 \<or> s = [] then [] else cstr (fst (fgets n s)) # file_lines n (snd (fgets n s)))"
  by pat_completeness auto
termination
  by (relation "measure (\<lambda>(n, s). length s)") (auto simp: fgets_progress)

declare file_lines.simps [simp del]

lemma file_lines_Nil [simp]: "file_lines n [] = []"
  by (simp add: file_lines.simps)

text \<open>A line of the files the program writes: its text, and the newline, within the buffer.\<close>

definition is_line :: "nat \<Rightarrow> string \<Rightarrow> bool" where
  "is_line n l \<longleftrightarrow> l \<noteq> [] \<and> last l = NL \<and> NL \<notin> set (butlast l) \<and> NUL \<notin> set l \<and> length l \<le> n"

lemma is_lineI: "NL \<notin> set t \<Longrightarrow> NUL \<notin> set t \<Longrightarrow> length t < n \<Longrightarrow> is_line n (t @ [NL])"
  by (simp add: is_line_def)

lemma fgets_line: "NL \<notin> set t \<Longrightarrow> length t < n \<Longrightarrow> fgets n (t @ NL # s) = (t @ [NL], s)"
proof (induction t arbitrary: n)
  case Nil
  then show ?case by (cases n) auto
next
  case (Cons c t)
  then show ?case by (cases n) auto
qed

lemma fgets_last: "NL \<notin> set t \<Longrightarrow> length t \<le> n \<Longrightarrow> fgets n t = (t, [])"
proof (induction t arbitrary: n)
  case Nil
  then show ?case by (cases n) auto
next
  case (Cons c t)
  then show ?case by (cases n) auto
qed

lemma file_lines_Cons:
  assumes "is_line n l"
  shows "file_lines n (l @ s) = l # file_lines n s"
proof -
  obtain t where t: "l = t @ [NL]" "NL \<notin> set t" "NUL \<notin> set l" "length t < n"
    using assms by (cases l rule: rev_cases) (auto simp: is_line_def)
  then have "fgets n (l @ s) = (l, s)" using fgets_line [OF t(2,4)] by simp
  then show ?thesis using t by (subst file_lines.simps) auto
qed

lemma file_lines_concat:
  "list_all (is_line n) ls \<Longrightarrow> file_lines n (concat ls @ s) = ls @ file_lines n s"
  by (induction ls) (auto simp: file_lines_Cons)

lemma file_lines_exact [simp]: "list_all (is_line n) ls \<Longrightarrow> file_lines n (concat ls) = ls"
  using file_lines_concat [of n ls "[]"] by simp

lemma file_lines_single:
  assumes "NL \<notin> set t" "NUL \<notin> set t" "t \<noteq> []" "length t \<le> n"
  shows "file_lines n t = [t]"
proof -
  have "n \<noteq> 0" using assms by (cases n) auto
  then show ?thesis using fgets_last [OF assms(1,4)] assms by (subst file_lines.simps) simp
qed

section \<open>Number conversions\<close>

text \<open>The digits at the front of a text and what follows them.\<close>

definition span_digits :: "string \<Rightarrow> string \<times> string" where
  "span_digits s = (takeWhile isdigit s, dropWhile isdigit s)"

text \<open>
  \<open>%llu\<close>, \<open>%u\<close> and \<open>%d\<close> after optional white space: an optional sign and at least one digit.
  A value that does not fit the receiving type is undefined in C; the unsigned conversions read a
  negative number modulo the width, as \<open>strtoul\<close> does.
\<close>

definition scan_signed :: "string \<Rightarrow> (int \<times> string) option" where
  "scan_signed s =
    (let t = skip_space s;
         neg = (t \<noteq> [] \<and> hd t = CHR ''-'');
         u = (if t \<noteq> [] \<and> hd t \<in> {CHR ''-'', CHR ''+''} then tl t else t);
         (ds, r) = span_digits u;
         v = int (digits_val 0 ds)
     in if ds = [] then None else Some (if neg then - v else v, r))"

definition scan_uint :: "nat \<Rightarrow> string \<Rightarrow> (int \<times> string) option cres" where
  "scan_uint w s =
    (case scan_signed s of None \<Rightarrow> Inr None
     | Some (v, r) \<Rightarrow> if \<bar>v\<bar> < 2 ^ w then Inr (Some (v mod 2 ^ w, r)) else Inl SignedOverflow)"

definition scan_int :: "string \<Rightarrow> (int \<times> string) option cres" where
  "scan_int s =
    (case scan_signed s of None \<Rightarrow> Inr None
     | Some (v, r) \<Rightarrow> if in_int32 v then Inr (Some (v, r)) else Inl SignedOverflow)"

text \<open>\<open> %c\<close>: the next byte that is not white space.\<close>

definition scan_char :: "string \<Rightarrow> (char \<times> string) option" where
  "scan_char s = (case skip_space s of [] \<Rightarrow> None | c # r \<Rightarrow> Some (c, r))"

text \<open>\<open>strtoull (s, NULL, 10)\<close>: saturates at \<open>ULLONG_MAX\<close>, 0 when there is no number.\<close>

definition strtoull :: "string \<Rightarrow> int" where
  "strtoull s = (case scan_signed s of None \<Rightarrow> 0
     | Some (v, r) \<Rightarrow> if \<bar>v\<bar> < 2 ^ 64 then v mod 2 ^ 64 else 2 ^ 64 - 1)"

lemma skip_space_digits: "skip_space (dec_nat n @ r) = dec_nat n @ r"
proof -
  have "\<not> isspace (hd (dec_nat n))" using isdigit_plain(1) [OF dec_nat_isdigit [OF dec_nat_hd]] .
  then show ?thesis by (cases "dec_nat n") (auto simp: skip_space_def)
qed

lemma skip_space_Cons [simp]: "skip_space (CHR '' '' # s) = skip_space s"
  by (simp add: skip_space_def isspace_def)

lemma span_digits_dec_nat:
  assumes "r = [] \<or> \<not> isdigit (hd r)"
  shows "span_digits (dec_nat n @ r) = (dec_nat n, r)"
proof -
  have "\<forall>c \<in> set (dec_nat n). isdigit c" by (simp add: dec_nat_isdigit)
  moreover have "takeWhile isdigit r = []" "dropWhile isdigit r = r" using assms by (cases r; simp)+
  ultimately show ?thesis by (auto simp: span_digits_def takeWhile_append dropWhile_append)
qed

lemma scan_signed_space [simp]: "scan_signed (CHR '' '' # s) = scan_signed s"
  by (simp add: scan_signed_def)

lemma scan_signed_dec_nat:
  assumes "r = [] \<or> \<not> isdigit (hd r)"
  shows "scan_signed (dec_nat n @ r) = Some (int n, r)"
proof -
  have "hd (dec_nat n @ r) \<notin> {CHR ''-'', CHR ''+''}"
    using isdigit_plain(2) [OF dec_nat_isdigit [OF dec_nat_hd [of n]]] by simp
  then show ?thesis
    using span_digits_dec_nat [OF assms, of n] by (simp add: scan_signed_def skip_space_digits Let_def)
qed

lemma scan_signed_dec_int:
  assumes "r = [] \<or> \<not> isdigit (hd r)"
  shows "scan_signed (dec_int i @ r) = Some (i, r)"
proof (cases "i < 0")
  case True
  have "skip_space (CHR ''-'' # s) = CHR ''-'' # s" for s by (simp add: skip_space_def isspace_def)
  then show ?thesis using True span_digits_dec_nat [OF assms, of "nat (- i)"]
    by (simp add: dec_int_def scan_signed_def)
next
  case False
  then show ?thesis using scan_signed_dec_nat [OF assms, of "nat i"] by (simp add: dec_int_def)
qed

lemma scan_uint_dec_nat:
  "int n < 2 ^ w \<Longrightarrow> r = [] \<or> \<not> isdigit (hd r) \<Longrightarrow> scan_uint w (dec_nat n @ r) = Inr (Some (int n, r))"
  by (simp add: scan_uint_def scan_signed_dec_nat)

lemma scan_int_dec_int:
  "in_int32 i \<Longrightarrow> r = [] \<or> \<not> isdigit (hd r) \<Longrightarrow> scan_int (dec_int i @ r) = Inr (Some (i, r))"
  by (simp add: scan_int_def scan_signed_dec_int)

lemma strtoull_dec_nat:
  "n < 2 ^ 64 \<Longrightarrow> r = [] \<or> \<not> isdigit (hd r) \<Longrightarrow> strtoull (dec_nat n @ r) = int n"
  by (simp add: strtoull_def scan_signed_dec_nat)

text \<open>The decimal text of machine words.\<close>

lemma unat64: "unat (w :: 64 word) < 18446744073709551616"
  using unsigned_less [of w, where 'a = nat] by simp

lemma unat32: "unat (w :: 32 word) < 4294967296"
  using unsigned_less [of w, where 'a = nat] by simp

lemma uint64: "uint (w :: 64 word) < 18446744073709551616"
  using unsigned_less [of w, where 'a = int] by simp

lemma uint32: "uint (w :: 32 word) < 4294967296"
  using unsigned_less [of w, where 'a = int] by simp

lemma dec_nat_u64: "length (dec_nat (unat (w :: 64 word))) \<le> 20"
  using unat64 [of w] by (intro dec_nat_length) simp_all

lemma dec_nat_u32: "length (dec_nat (unat (w :: 32 word))) \<le> 10"
  using unat32 [of w] by (intro dec_nat_length) simp_all

section \<open>snprintf into an array\<close>

text \<open>The string an array of n bytes holds after \<open>snprintf\<close> printed s into it.\<close>

definition snprintf :: "nat \<Rightarrow> string \<Rightarrow> string" where
  "snprintf n s = take (n - 1) s"

lemma snprintf_fits [simp]: "length s < n \<Longrightarrow> snprintf n s = s"
  by (simp add: snprintf_def)

lemma snprintf_length: "0 < n \<Longrightarrow> length (snprintf n s) < n"
  by (simp add: snprintf_def)

end
