(* ===== verification/BB_Os.thy ===== *)
theory BB_Os
  imports BB_Stdio "HOL-Library.State_Monad"
begin

text \<open>
  The operating system as the tools use it: shell commands and file system calls, each recorded in
  the order it is made and answered by an oracle that sees everything done before. A routine is a
  computation of the state monad over that record. Also the raw bytes of packed C structures.
\<close>

text \<open>The contents of files, by path.\<close>

type_synonym files = "string \<rightharpoonup> string"

section \<open>Calls and their answers\<close>

datatype os_call =
    Sys string
  | Popen string
  | Mkdir string
  | Rmdir string
  | Mount string string string
  | StatFile string
  | AccessX string
  | AccessR string
  | Mkdtemp string
  | OpenWrite string
  | OpenAppend string
  | Put string string
  | Unlink string
  | Symlink string string

type_synonym trace = "os_call list"
type_synonym 'a io = "(trace, 'a) state"

text \<open>The result of a call, 0 for success, and the name \<open>mkdtemp\<close> makes, None when it fails.\<close>

record os =
  os_result :: "trace \<Rightarrow> os_call \<Rightarrow> int"
  os_temp :: "trace \<Rightarrow> string \<Rightarrow> string option"

definition call :: "os \<Rightarrow> os_call \<Rightarrow> int io" where
  "call os c = State (\<lambda>tr. (os_result os tr c, tr @ [c]))"

definition system :: "os \<Rightarrow> string \<Rightarrow> int io" where
  "system os cmd = call os (Sys cmd)"

definition mkdtemp :: "os \<Rightarrow> string \<Rightarrow> string option io" where
  "mkdtemp os template = State (\<lambda>tr. (os_temp os tr template, tr @ [Mkdtemp template]))"

definition ret :: "'a \<Rightarrow> 'a io" where
  "ret x = State_Monad.return x"

lemma run_ret [simp]: "run_state (ret x) tr = (x, tr)"
  by (simp add: ret_def)

lemma run_call [simp]: "run_state (call os c) tr = (os_result os tr c, tr @ [c])"
  by (simp add: call_def)

lemma run_mkdtemp [simp]: "run_state (mkdtemp os t) tr = (os_temp os tr t, tr @ [Mkdtemp t])"
  by (simp add: mkdtemp_def)

section \<open>What a routine does\<close>

text \<open>Every call a routine adds to the record satisfies P, whatever the answers.\<close>

definition only :: "(os_call \<Rightarrow> bool) \<Rightarrow> 'a io \<Rightarrow> bool" where
  "only P m \<longleftrightarrow> (\<forall>tr. \<exists>cs. snd (run_state m tr) = tr @ cs \<and> list_all P cs)"

named_theorems only_rules \<open>how the calls of a routine follow from those of its parts\<close>

lemma only_ret [only_rules]: "only P (ret x)"
  by (simp add: only_def)

lemma only_call [only_rules]: "P c \<Longrightarrow> only P (call os c)"
  by (simp add: only_def)

lemma only_system [only_rules]: "P (Sys c) \<Longrightarrow> only P (system os c)"
  by (simp add: system_def only_call)

lemma only_mkdtemp [only_rules]: "P (Mkdtemp t) \<Longrightarrow> only P (mkdtemp os t)"
  by (simp add: only_def)

lemma only_bind [only_rules]:
  assumes "only P m" and "\<And>x. only P (f x)"
  shows "only P (State_Monad.bind m f)"
  unfolding only_def
proof
  fix tr
  obtain x tr1 where m: "run_state m tr = (x, tr1)" by fastforce
  obtain cs where cs: "tr1 = tr @ cs" "list_all P cs" using assms(1) m unfolding only_def by (metis snd_conv)
  obtain ds where ds: "snd (run_state (f x) tr1) = tr1 @ ds" "list_all P ds"
    using assms(2) unfolding only_def by blast
  show "\<exists>es. snd (run_state (State_Monad.bind m f) tr) = tr @ es \<and> list_all P es"
    using m cs ds by (intro exI [of _ "cs @ ds"]) simp
qed

lemma only_if [only_rules]: "only P m \<Longrightarrow> only P n \<Longrightarrow> only P (if b then m else n)"
  by simp

lemma only_option [only_rules]:
  "only P m \<Longrightarrow> (\<And>x. only P (f x)) \<Longrightarrow> only P (case y of None \<Rightarrow> m | Some x \<Rightarrow> f x)"
  by (cases y) simp_all

lemma onlyD: "only P m \<Longrightarrow> run_state m [] = (x, tr) \<Longrightarrow> list_all P tr"
  by (metis append_Nil only_def snd_conv)

text \<open>A shell command as the code prints it into an array of n bytes.\<close>

lemma prefix_snprintf: "length p < n \<Longrightarrow> prefix p (snprintf n s) \<longleftrightarrow> prefix p s"
proof -
  assume "length p < n"
  then have "length p \<le> n - 1" by simp
  moreover have "prefix p t \<longleftrightarrow> p = take (length p) t" for t
    by (auto simp: prefix_def append_eq_conv_conj [symmetric]) (metis append_take_drop_id)
  ultimately show ?thesis by (simp add: snprintf_def min_def)
qed

section \<open>Bytes of packed structures\<close>

unbundle bit_operations_syntax

type_synonym bytes = "8 word list"

text \<open>Little-endian numbers.\<close>

definition le_word :: "bytes \<Rightarrow> 'a::len word" where
  "le_word bs = foldr (\<lambda>b w. push_bit 8 w OR ucast b) bs 0"

fun le_bytes :: "nat \<Rightarrow> 'a::len word \<Rightarrow> bytes" where
  "le_bytes 0 w = []"
| "le_bytes (Suc n) w = ucast w # le_bytes n (drop_bit 8 w)"

lemma length_le_bytes [simp]: "length (le_bytes n w) = n"
  by (induction n w rule: le_bytes.induct) simp_all

lemma le_word_bytes: "le_word (le_bytes n w) = take_bit (8 * n) w"
proof (induction n w rule: le_bytes.induct)
  case (2 n w)
  have "le_word (le_bytes (Suc n) w) = push_bit 8 (take_bit (8 * n) (drop_bit 8 w)) OR ucast (ucast w :: 8 word)"
    using 2 by (simp add: le_word_def)
  also have "\<dots> = take_bit (8 * Suc n) w"
    by (rule bit_word_eqI)
      (auto simp: bit_or_iff bit_push_bit_iff bit_take_bit_iff bit_drop_bit_eq bit_ucast_iff)
  finally show ?case .
qed (simp add: le_word_def)

text \<open>Text in a character array: padded with zeros, read up to the first NUL.\<close>

definition byte_of :: "char \<Rightarrow> 8 word" where
  "byte_of c = word_of_nat (of_char c)"

definition char_array :: "nat \<Rightarrow> string \<Rightarrow> bytes" where
  "char_array n s = map byte_of s @ replicate (n - length s) 0"

definition c_string_at :: "nat \<Rightarrow> bytes \<Rightarrow> string" where
  "c_string_at off bs = cstr (map (\<lambda>b. char_of (unat b)) (drop off bs))"

lemma char_of_byte [simp]: "char_of (unat (byte_of c)) = c"
proof -
  have "(of_char c :: nat) < 256" by (cases c) (simp add: of_char_def of_bool_def horner_sum_simps)
  then have "unat (byte_of c) = of_char c" by (simp add: byte_of_def unsigned_of_nat take_bit_nat_eq_self_iff)
  then show ?thesis by simp
qed

lemma char_of_zero [simp]: "char_of (0 :: nat) = NUL"
  by (simp add: char_of_def)

lemma length_char_array [simp]: "length s \<le> n \<Longrightarrow> length (char_array n s) = n"
  by (simp add: char_array_def)

lemma c_string_char_array:
  assumes "length s < n" "NUL \<notin> set s"
  shows "c_string_at 0 (char_array n s @ r) = s"
proof -
  obtain k where "n - length s = Suc k" using assms(1) by (cases "n - length s") auto
  then show ?thesis using assms(2) by (simp add: c_string_at_def char_array_def comp_def)
qed

lemma c_string_at_drop: "c_string_at (m + k) bs = c_string_at k (drop m bs)"
  by (simp add: c_string_at_def add.commute)

end
