(* ===== verification/BB_Persist.thy ===== *)
theory BB_Persist
  imports BB_Os
begin

text \<open>
  The persist partition of \<open>libbb/bb_persist.c\<close>: mounting, the configuration files, the machine id,
  the boot log and the update log. A file system is a map from paths to contents; the results of
  \<open>fopen\<close> for writing, \<open>rename\<close> and \<open>mount\<close> are arguments.
\<close>



section \<open>Mounting\<close>

text \<open>
  A target counts as mounted when some line of \<open>/proc/mounts\<close> contains its name. An absent mount
  table is None; the calls made are returned with the result.
\<close>

definition already_mounted :: "string option \<Rightarrow> string \<Rightarrow> bool" where
  "already_mounted mounts target =
    (case mounts of None \<Rightarrow> False | Some t \<Rightarrow> \<exists>l \<in> set (file_lines 511 t). strstr l target \<noteq> None)"

definition ensure_mounted :: "bool \<Rightarrow> string option \<Rightarrow> int \<Rightarrow> string \<Rightarrow> string \<Rightarrow> string \<Rightarrow> int \<times> trace" where
  "ensure_mounted present mounts err device target fstype =
    (let mk = (if present then [] else [Mkdir target]) in
     if already_mounted mounts target then (0, mk)
     else (if err \<noteq> 0 then - err else 0, mk @ [Mount device target fstype]))"

definition bb_persist_init :: "string \<Rightarrow> bool \<Rightarrow> string option \<Rightarrow> int \<Rightarrow> int \<times> trace" where
  "bb_persist_init dev present mounts err = ensure_mounted present mounts err dev ''/persist'' ''ext4''"

section \<open>Configuration files\<close>

definition conf_path :: "string \<Rightarrow> string" where
  "conf_path ns = snprintf 256 (''/persist/config/'' @ ns @ ''.conf'')"

definition has_key :: "string \<Rightarrow> string \<Rightarrow> bool" where
  "has_key key line \<longleftrightarrow> prefix (key @ ''='') line"

definition strip_eol :: "string \<Rightarrow> string" where
  "strip_eol v = rev (dropWhile (\<lambda>c. c = NL \<or> c = CHR 0x0D) (rev v))"

fun conf_find :: "string \<Rightarrow> string list \<Rightarrow> string option" where
  "conf_find key [] = None"
| "conf_find key (line # ls) =
    (if has_key key line then Some (strip_eol (drop (length key + 1) line)) else conf_find key ls)"

definition bb_persist_config_get :: "files \<Rightarrow> string \<Rightarrow> string \<Rightarrow> string option" where
  "bb_persist_config_get fs ns key =
    (case fs (conf_path ns) of None \<Rightarrow> None | Some t \<Rightarrow> conf_find key (file_lines 511 t))"

definition conf_entry :: "string \<Rightarrow> string \<Rightarrow> string" where
  "conf_entry key v = key @ ''='' @ v @ [NL]"

text \<open>The text written to the temporary file: matching lines replaced, or the entry appended.\<close>

definition conf_rewrite :: "string \<Rightarrow> string \<Rightarrow> string list \<Rightarrow> string" where
  "conf_rewrite key v ls =
    concat (map (\<lambda>l. if has_key key l then conf_entry key v else l) ls)
      @ (if list_ex (has_key key) ls then [] else conf_entry key v)"

text \<open>
  The input is opened before the output truncates its file, and read after: when the truncated
  name of the temporary file is that of the file itself, the old contents are gone.
\<close>

definition bb_persist_config_set :: "bool \<Rightarrow> bool \<Rightarrow> files \<Rightarrow> string \<Rightarrow> string \<Rightarrow> string \<Rightarrow> int \<times> files" where
  "bb_persist_config_set out_ok ren_ok fs ns key v =
    (let path = conf_path ns; tmp = snprintf 256 (path @ ''.tmp'') in
     if \<not> out_ok then (-1, fs)
     else let fs1 = fs(tmp \<mapsto> []);
              ls = (if fs path = None then [] else file_lines 511 (the (fs1 path)));
              out = conf_rewrite key v ls
          in (0, if ren_ok then (fs1(tmp := None))(path \<mapsto> out) else fs1(tmp \<mapsto> out)))"

section \<open>Machine identity\<close>

definition bb_persist_machine_id :: "files \<Rightarrow> string" where
  "bb_persist_machine_id fs =
    (case fs ''/persist/machine-id'' of None \<Rightarrow> ''unknown''
     | Some t \<Rightarrow> if t = [] then ''unknown'' else takeWhile (\<lambda>c. c \<noteq> NL) (cstr (fst (fgets 63 t))))"

section \<open>Boot log\<close>

record bb_boot_entry_t =
  be_timestamp :: "64 word"
  be_slot :: char
  be_success :: int
  be_boot_time_ms :: "32 word"

definition boot_line :: "bb_boot_entry_t \<Rightarrow> string" where
  "boot_line e = dec_nat (unat (be_timestamp e)) @ '' '' @ [be_slot e] @ '' ''
    @ dec_int (be_success e) @ '' '' @ dec_nat (unat (be_boot_time_ms e)) @ [NL]"

text \<open>Both logs append to the file, which is created when it is absent.\<close>

definition append_line :: "bool \<Rightarrow> string \<Rightarrow> string option \<Rightarrow> int \<times> string option" where
  "append_line open_ok l f =
    (if open_ok then (0, Some ((case f of None \<Rightarrow> [] | Some t \<Rightarrow> t) @ l)) else (-1, f))"

definition bb_persist_boot_log_add :: "bool \<Rightarrow> bb_boot_entry_t \<Rightarrow> string option \<Rightarrow> int \<times> string option" where
  "bb_persist_boot_log_add open_ok e f = append_line open_ok (boot_line e) f"

text \<open>\<open>sscanf(line, "%llu %c %d %u", ...) == 4\<close>\<close>

definition boot_parse :: "string \<Rightarrow> bb_boot_entry_t option cres" where
  "boot_parse line =
    (case scan_uint 64 line of Inl e \<Rightarrow> Inl e | Inr None \<Rightarrow> Inr None
     | Inr (Some (ts, r1)) \<Rightarrow>
       (case scan_char r1 of None \<Rightarrow> Inr None
        | Some (slot, r2) \<Rightarrow>
          (case scan_int r2 of Inl e \<Rightarrow> Inl e | Inr None \<Rightarrow> Inr None
           | Inr (Some (ok, r3)) \<Rightarrow>
             (case scan_uint 32 r3 of Inl e \<Rightarrow> Inl e | Inr None \<Rightarrow> Inr None
              | Inr (Some (ms, r4)) \<Rightarrow>
                Inr (Some \<lparr>be_timestamp = word_of_int ts, be_slot = slot, be_success = ok,
                           be_boot_time_ms = word_of_int ms\<rparr>)))))"

fun boot_collect :: "nat \<Rightarrow> string list \<Rightarrow> bb_boot_entry_t list cres" where
  "boot_collect 0 ls = Inr []"
| "boot_collect (Suc n) [] = Inr []"
| "boot_collect (Suc n) (l # ls) =
    (case boot_parse l of Inl e \<Rightarrow> Inl e
     | Inr None \<Rightarrow> boot_collect (Suc n) ls
     | Inr (Some b) \<Rightarrow> map_sum id (\<lambda>bs. b # bs) (boot_collect n ls))"

text \<open>The entries stored; their number is the return value.\<close>

definition bb_persist_boot_log_read :: "string option \<Rightarrow> int \<Rightarrow> bb_boot_entry_t list cres" where
  "bb_persist_boot_log_read f max_entries =
    (case f of None \<Rightarrow> Inr [] | Some t \<Rightarrow> boot_collect (nat max_entries) (file_lines 255 t))"

section \<open>Update log\<close>

record bb_update_entry_t =
  ue_timestamp :: "64 word"
  ue_from_version :: string
  ue_to_version :: string
  ue_target_slot :: char
  ue_success :: int

definition update_line :: "bb_update_entry_t \<Rightarrow> string" where
  "update_line e = [CHR ''{'', QUOTE] @ ''ts'' @ [QUOTE, CHR '':''] @ dec_nat (unat (ue_timestamp e))
    @ [CHR '','', QUOTE] @ ''from'' @ [QUOTE, CHR '':'', QUOTE] @ ue_from_version e
    @ [QUOTE, CHR '','', QUOTE] @ ''to'' @ [QUOTE, CHR '':'', QUOTE] @ ue_to_version e
    @ [QUOTE, CHR '','', QUOTE] @ ''slot'' @ [QUOTE, CHR '':'', QUOTE, ue_target_slot e]
    @ [QUOTE, CHR '','', QUOTE] @ ''ok'' @ [QUOTE, CHR '':''] @ dec_int (ue_success e) @ [CHR ''}'', NL]"

definition bb_persist_update_log_add :: "bool \<Rightarrow> bb_update_entry_t \<Rightarrow> string option \<Rightarrow> int \<times> string option" where
  "bb_persist_update_log_add open_ok e f = append_line open_ok (update_line e) f"

text \<open>\<open>p = strstr(line, key)\<close> and the pointer \<open>p + strlen(key)\<close>.\<close>

definition after :: "string \<Rightarrow> string \<Rightarrow> string option" where
  "after s key = map_option (\<lambda>i. drop (i + length key) s) (strstr s key)"

text \<open>A version field: copied when its closing quote is found within 31 bytes, else left as it was.\<close>

definition copy_version :: "string \<Rightarrow> string option \<Rightarrow> string" where
  "copy_version old start =
    (case start of None \<Rightarrow> old
     | Some s \<Rightarrow> (case strchr s QUOTE of None \<Rightarrow> old | Some n \<Rightarrow> if n < 32 then take n s else old))"

definition update_parse :: "bb_update_entry_t \<Rightarrow> string \<Rightarrow> bb_update_entry_t" where
  "update_parse old line =
    \<lparr>ue_timestamp = (case after line (quoted ''ts'' @ '':'') of None \<Rightarrow> ue_timestamp old
                     | Some s \<Rightarrow> word_of_int (strtoull s)),
     ue_from_version = copy_version (ue_from_version old) (after line (quoted ''from'' @ [CHR '':'', QUOTE])),
     ue_to_version = copy_version (ue_to_version old) (after line (quoted ''to'' @ [CHR '':'', QUOTE])),
     ue_target_slot = (case after line (quoted ''slot'' @ [CHR '':'', QUOTE]) of None \<Rightarrow> ue_target_slot old
                       | Some s \<Rightarrow> hd (s @ [NUL])),
     ue_success = (case after line (quoted ''ok'' @ '':'') of None \<Rightarrow> ue_success old
                   | Some s \<Rightarrow> of_bool (hd (s @ [NUL]) = CHR ''t''))\<rparr>"

text \<open>The caller's array, whose length is the maximum, keeps its old bytes where a line has no field.\<close>

fun update_collect :: "bb_update_entry_t list \<Rightarrow> string list \<Rightarrow> bb_update_entry_t list" where
  "update_collect (e # es) (l # ls) = update_parse e l # update_collect es ls"
| "update_collect es ls = []"

definition bb_persist_update_log_read :: "bb_update_entry_t list \<Rightarrow> string option \<Rightarrow> bb_update_entry_t list" where
  "bb_persist_update_log_read old f =
    (case f of None \<Rightarrow> [] | Some t \<Rightarrow> update_collect old (file_lines 511 t))"

section \<open>Configuration files as maps\<close>

text \<open>A file in which every line ends with a newline and fits the read buffer.\<close>

definition conf_wf :: "string \<Rightarrow> bool" where
  "conf_wf t \<longleftrightarrow> list_all (is_line 511) (file_lines 511 t) \<and> concat (file_lines 511 t) = t"

definition key_ok :: "string \<Rightarrow> bool" where
  "key_ok k \<longleftrightarrow> CHR ''='' \<notin> set k \<and> NL \<notin> set k \<and> NUL \<notin> set k"

definition value_ok :: "string \<Rightarrow> bool" where
  "value_ok v \<longleftrightarrow> NL \<notin> set v \<and> CHR 0x0D \<notin> set v \<and> NUL \<notin> set v"

lemma conf_wf_concat: "list_all (is_line 511) ls \<Longrightarrow> conf_wf (concat ls)"
  by (simp add: conf_wf_def)

lemma strip_eol_value: "value_ok v \<Longrightarrow> strip_eol (v @ [NL]) = v"
  by (cases v rule: rev_cases) (auto simp: strip_eol_def value_ok_def)

lemma has_key_entry:
  assumes "key_ok k" "key_ok k'"
  shows "has_key k (conf_entry k' v) \<longleftrightarrow> k = k'"
  using prefix_quoted [of "CHR ''=''" k k' "v @ [NL]"] assms by (simp add: has_key_def conf_entry_def key_ok_def)

lemma conf_entry_line:
  "key_ok k \<Longrightarrow> value_ok v \<Longrightarrow> length k + length v + 2 \<le> n \<Longrightarrow> is_line n (conf_entry k v)"
  using is_lineI [of "k @ ''='' @ v" n] by (simp add: conf_entry_def key_ok_def value_ok_def)

lemma conf_find_append:
  "conf_find k (ls @ ms) = (if list_ex (has_key k) ls then conf_find k ls else conf_find k ms)"
  by (induction ls) auto

lemma conf_find_entry: "value_ok v \<Longrightarrow> conf_find k (conf_entry k v # ls) = Some v"
  by (simp add: has_key_def conf_entry_def strip_eol_value)

lemma conf_find_replaced:
  assumes "key_ok k" "key_ok k'" "value_ok v"
  shows "conf_find k' (map (\<lambda>l. if has_key k l then conf_entry k v else l) ls)
    = (if k' = k \<and> list_ex (has_key k) ls then Some v else conf_find k' ls)"
proof (induction ls)
  case (Cons l ls)
  have other: "\<not> has_key k' l" if "has_key k l" "k' \<noteq> k"
  proof -
    have "l = k @ CHR ''='' # drop (length k + 1) l"
      using that(1) unfolding has_key_def prefix_def by auto
    then obtain r where "l = k @ CHR ''='' # r" by blast
    then show ?thesis
      using prefix_quoted [of "CHR ''=''" k' k r] assms(1,2) that(2) by (simp add: has_key_def key_ok_def)
  qed
  show ?case
    using Cons.IH has_key_entry [OF assms(2,1), of v] conf_find_entry [OF assms(3), of k] other
    by auto
qed simp

text \<open>The lines of the rewritten file, and what a lookup finds in them.\<close>

definition conf_rewrite_lines :: "string \<Rightarrow> string \<Rightarrow> string list \<Rightarrow> string list" where
  "conf_rewrite_lines k v ls = map (\<lambda>l. if has_key k l then conf_entry k v else l) ls
      @ (if list_ex (has_key k) ls then [] else [conf_entry k v])"

lemma conf_rewrite_concat: "conf_rewrite k v ls = concat (conf_rewrite_lines k v ls)"
  by (simp add: conf_rewrite_def conf_rewrite_lines_def)

lemma conf_rewrite_lines_ok:
  "list_all (is_line n) ls \<Longrightarrow> is_line n (conf_entry k v) \<Longrightarrow> list_all (is_line n) (conf_rewrite_lines k v ls)"
  by (auto simp: conf_rewrite_lines_def list_all_iff)

lemma list_ex_replaced: "has_key k' (conf_entry k v) \<Longrightarrow> list_ex (has_key k') ls \<Longrightarrow>
    list_ex (has_key k') (map (\<lambda>l. if has_key k l then conf_entry k v else l) ls)"
  by (induction ls) auto

lemma conf_find_none: "\<not> list_ex (has_key k) ls \<Longrightarrow> conf_find k ls = None"
  by (induction ls) auto

lemma conf_find_rewrite:
  assumes "key_ok k" "key_ok k'" "value_ok v"
  shows "conf_find k' (conf_rewrite_lines k v ls) = (if k' = k then Some v else conf_find k' ls)"
proof (cases "list_ex (has_key k) ls")
  case True
  then show ?thesis using conf_find_replaced [OF assms] by (simp add: conf_rewrite_lines_def)
next
  case False
  then have "map (\<lambda>l. if has_key k l then conf_entry k v else l) ls = ls"
    by (intro map_idI) (auto simp: list_ex_iff)
  then show ?thesis
    using False conf_find_entry [OF assms(3), of k "[]"] has_key_entry [OF assms(2,1), of v]
    by (auto simp: conf_rewrite_lines_def conf_find_append conf_find_none)
qed

lemma tmp_differs:
  assumes "length ns \<le> 230"
  shows "snprintf 256 (conf_path ns @ ''.tmp'') \<noteq> conf_path ns"
  using assms by (simp add: conf_path_def)

text \<open>
  Setting a key is a map update: a later get of the same name space returns the value for that key and
  what it returned before for any other, and the file stays well formed.
\<close>

lemma config_set_map:
  assumes "length ns \<le> 230" and "key_ok k" "key_ok k'" "value_ok v" "length k + length v + 2 \<le> 511"
    and "fs (conf_path ns) = None \<or> conf_wf (the (fs (conf_path ns)))"
    and "bb_persist_config_set True True fs ns k v = (r, fs')"
  shows "r = 0 \<and> bb_persist_config_get fs' ns k' = (if k' = k then Some v else bb_persist_config_get fs ns k')
    \<and> conf_wf (the (fs' (conf_path ns)))"
proof -
  define ls where "ls = (case fs (conf_path ns) of None \<Rightarrow> [] | Some t \<Rightarrow> file_lines 511 t)"
  have lines: "list_all (is_line 511) ls" using assms(6) by (auto simp: ls_def conf_wf_def split: option.split)
  have get: "bb_persist_config_get fs ns k' = conf_find k' ls"
    by (simp add: bb_persist_config_get_def ls_def split: option.split)
  have "r = 0 \<and> fs' (conf_path ns) = Some (conf_rewrite k v ls)"
    using assms(7) tmp_differs [OF assms(1)]
    by (auto simp: bb_persist_config_set_def Let_def ls_def split: option.splits)
  then have r: "r = 0" and f: "fs' (conf_path ns) = Some (concat (conf_rewrite_lines k v ls))"
    by (simp_all add: conf_rewrite_concat)
  have ok: "list_all (is_line 511) (conf_rewrite_lines k v ls)"
    using conf_rewrite_lines_ok [OF lines conf_entry_line] assms by blast
  show ?thesis
    using r f ok conf_wf_concat [OF ok] conf_find_rewrite [OF assms(2,3,4), of ls] get
    by (simp add: bb_persist_config_get_def [of fs'])
qed

section \<open>A store of key and value pairs\<close>

text \<open>
  What the users of the configuration rely on: a set is seen by the next get of its key and by no
  other. Whatever the sequence of sets, a key has the value last set.
\<close>

locale kv_store =
  fixes inv :: "'s \<Rightarrow> bool" and kok :: "'k \<Rightarrow> bool" and pok :: "'k \<times> 'v \<Rightarrow> bool"
    and get :: "'s \<Rightarrow> 'k \<Rightarrow> 'v option" and put :: "'k \<times> 'v \<Rightarrow> 's \<Rightarrow> 's"
  assumes put_inv: "inv s \<Longrightarrow> pok kv \<Longrightarrow> inv (put kv s)"
    and get_put: "inv s \<Longrightarrow> pok kv \<Longrightarrow> kok k \<Longrightarrow> get (put kv s) k = (if k = fst kv then Some (snd kv) else get s k)"
begin

lemma puts_inv: "inv s \<Longrightarrow> \<forall>kv \<in> set kvs. pok kv \<Longrightarrow> inv (fold put kvs s)"
  by (induction kvs arbitrary: s) (auto intro: put_inv)

lemma get_puts:
  "inv s \<Longrightarrow> \<forall>kv \<in> set kvs. pok kv \<Longrightarrow> kok k \<Longrightarrow>
    get (fold put kvs s) k = (case map_of (rev kvs) k of None \<Rightarrow> get s k | Some v \<Rightarrow> Some v)"
proof (induction kvs arbitrary: s)
  case (Cons kv kvs)
  have step: "inv (put kv s)" "get (put kv s) k = (if k = fst kv then Some (snd kv) else get s k)"
    using Cons.prems put_inv get_put by auto
  have "get (fold put kvs (put kv s)) k
      = (case map_of (rev kvs) k of None \<Rightarrow> get (put kv s) k | Some v \<Rightarrow> Some v)"
    using Cons.prems step(1) by (intro Cons.IH) auto
  moreover have "map_of (rev (kv # kvs)) k = (case map_of (rev kvs) k of None \<Rightarrow> if k = fst kv then Some (snd kv) else None | Some v \<Rightarrow> Some v)"
    by (cases kv) (auto simp: map_add_def split: option.split)
  ultimately show ?case using step(2) by (cases "k = fst kv") (simp_all split: option.split)
qed simp

end

definition conf_inv :: "string \<Rightarrow> files \<Rightarrow> bool" where
  "conf_inv ns fs \<longleftrightarrow> length ns \<le> 230 \<and> (fs (conf_path ns) = None \<or> conf_wf (the (fs (conf_path ns))))"

definition pair_ok :: "string \<times> string \<Rightarrow> bool" where
  "pair_ok kv \<longleftrightarrow> key_ok (fst kv) \<and> value_ok (snd kv) \<and> length (fst kv) + length (snd kv) + 2 \<le> 511"

definition conf_put :: "string \<Rightarrow> string \<times> string \<Rightarrow> files \<Rightarrow> files" where
  "conf_put ns kv fs = snd (bb_persist_config_set True True fs ns (fst kv) (snd kv))"

interpretation conf: kv_store "conf_inv ns" key_ok pair_ok "\<lambda>fs. bb_persist_config_get fs ns" "conf_put ns" for ns
proof
  fix fs kv k
  assume inv: "conf_inv ns fs" and p: "pair_ok kv"
  obtain r fs' where c: "bb_persist_config_set True True fs ns (fst kv) (snd kv) = (r, fs')" by fastforce
  have pre: "length ns \<le> 230" "key_ok (fst kv)" "key_ok (fst kv)" "value_ok (snd kv)"
    "length (fst kv) + length (snd kv) + 2 \<le> 511"
    "fs (conf_path ns) = None \<or> conf_wf (the (fs (conf_path ns)))"
    using inv p by (auto simp: conf_inv_def pair_ok_def)
  from config_set_map [OF pre c] show "conf_inv ns (conf_put ns kv fs)"
    using pre(1) by (simp add: conf_put_def c conf_inv_def)
  assume k: "key_ok k"
  from config_set_map [OF pre(1,2) k pre(4,5,6) c]
  show "bb_persist_config_get (conf_put ns kv fs) ns k
      = (if k = fst kv then Some (snd kv) else bb_persist_config_get fs ns k)"
    by (simp add: conf_put_def c)
qed

text \<open>
  C15. After any sequence of sets that succeed, every key has the value last set for it, or what it had
  before when it was not set; the temporary file never stands in the way, and no other key is touched.
\<close>

theorem config_last_set_wins:
  assumes "conf_inv ns fs" and "\<forall>kv \<in> set kvs. pair_ok kv" and "key_ok k"
  shows "bb_persist_config_get (fold (conf_put ns) kvs fs) ns k
    = (case map_of (rev kvs) k of None \<Rightarrow> bb_persist_config_get fs ns k | Some v \<Rightarrow> Some v)"
  using assms by (rule conf.get_puts)

theorem config_last_set_wins_witness:
  "bb_persist_config_get (fold (conf_put ''net'') [(''ip'', ''dhcp''), (''mtu'', ''1500''), (''ip'', ''static'')] Map.empty) ''net'' ''ip''
    = Some ''static''"
proof -
  have "conf_inv ''net'' Map.empty" "key_ok ''ip''"
    "\<forall>kv \<in> set [(''ip'', ''dhcp''), (''mtu'', ''1500''), (''ip'', ''static'')]. pair_ok kv"
    by (simp_all add: conf_inv_def pair_ok_def key_ok_def value_ok_def)
  from config_last_set_wins [OF this(1,3,2)] show ?thesis by simp
qed

text \<open>
  A file whose last line has no newline, as an editor may leave it: the new entry is glued onto that
  line, and the key that was just set with result 0 is not found.
\<close>

theorem config_append_glued:
  assumes "length ns \<le> 230" and "key_ok k" "value_ok v" and "list_all (is_line 511) ls" "\<not> list_ex (has_key k) ls"
    and "t \<noteq> []" "NL \<notin> set t" "NUL \<notin> set t" "\<not> has_key k t" "length t + length k + length v + 2 \<le> 511"
    and "fs (conf_path ns) = Some (concat ls @ t)"
  shows "\<exists>fs'. bb_persist_config_set True True fs ns k v = (0, fs') \<and> bb_persist_config_get fs' ns k = None"
proof -
  have old: "file_lines 511 (concat ls @ t) = ls @ [t]"
    using assms(10) file_lines_single [OF assms(7,8,6)] by (simp add: file_lines_concat [OF assms(4)])
  have "conf_rewrite k v (ls @ [t]) = concat ls @ t @ conf_entry k v"
  proof -
    have "map (\<lambda>l. if has_key k l then conf_entry k v else l) ls = ls"
      using assms(5) by (intro map_idI) (auto simp: list_ex_iff)
    then show ?thesis using assms(5,9) by (simp add: conf_rewrite_def)
  qed
  then have set: "\<exists>fs'. bb_persist_config_set True True fs ns k v = (0, fs')
      \<and> fs' (conf_path ns) = Some (concat ls @ t @ conf_entry k v)"
    using assms(11) tmp_differs [OF assms(1)] old by (auto simp: bb_persist_config_set_def Let_def)
  have "is_line 511 (t @ conf_entry k v)"
    using is_lineI [of "t @ k @ ''='' @ v" 511] assms by (simp add: conf_entry_def key_ok_def value_ok_def)
  from file_lines_Cons [OF this, of "[]"]
  have new: "file_lines 511 (concat ls @ t @ conf_entry k v) = ls @ [t @ conf_entry k v]"
    by (simp add: file_lines_concat [OF assms(4)])
  have "\<not> has_key k (t @ conf_entry k v)"
  proof (cases "CHR ''='' \<in> set t")
    case True
    then obtain a b where t: "t = a @ CHR ''='' # b" "CHR ''='' \<notin> set a" by (meson split_list_first)
    then show ?thesis
      using prefix_quoted [of "CHR ''=''" k a] assms(2,9) by (simp add: has_key_def key_ok_def)
  next
    case False
    then show ?thesis
      using prefix_quoted [of "CHR ''=''" k "t @ k" "v @ [NL]"] assms(2,6) by (simp add: has_key_def conf_entry_def key_ok_def)
  qed
  then show ?thesis
    using set new assms(5) by (auto simp: bb_persist_config_get_def conf_find_append)
qed

theorem config_append_glued_witness:
  "\<exists>fs'. bb_persist_config_set True True [conf_path ''net'' \<mapsto> ''a=1''] ''net'' ''b'' ''2'' = (0, fs')
    \<and> bb_persist_config_get fs' ''net'' ''b'' = None"
  by (rule config_append_glued [of _ _ _ "[]" "''a=1''"]) (simp_all add: key_ok_def value_ok_def has_key_def)

section \<open>The logs\<close>

text \<open>A log is written by appends only.\<close>

lemma append_lines:
  "fold (\<lambda>l f. snd (append_line True l f)) ls (Some t) = Some (t @ concat ls)"
  by (induction ls arbitrary: t) (simp_all add: append_line_def)

definition boot_ok :: "bb_boot_entry_t \<Rightarrow> bool" where
  "boot_ok e \<longleftrightarrow> \<not> isspace (be_slot e) \<and> be_slot e \<noteq> NUL \<and> in_int32 (be_success e)"

lemma boot_line_is_line: "boot_ok e \<Longrightarrow> is_line 255 (boot_line e)"
  using is_lineI [of "butlast (boot_line e)" 255] dec_nat_u64 [of "be_timestamp e"]
    dec_nat_u32 [of "be_boot_time_ms e"] dec_int_length [of "be_success e"]
  by (auto simp: boot_line_def boot_ok_def isspace_def butlast_append)

lemma boot_parse_line: "boot_ok e \<Longrightarrow> boot_parse (boot_line e) = Inr (Some e)"
proof -
  assume ok: "boot_ok e"
  let ?r3 = "CHR '' '' # dec_nat (unat (be_boot_time_ms e)) @ [NL]"
  let ?r2 = "CHR '' '' # dec_int (be_success e) @ ?r3"
  let ?r1 = "CHR '' '' # be_slot e # ?r2"
  have sp: "\<not> isdigit (CHR '' '')" "\<not> isdigit NL" by (simp_all add: isdigit_def)
  have 1: "scan_uint 64 (dec_nat (unat (be_timestamp e)) @ ?r1) = Inr (Some (uint (be_timestamp e), ?r1))"
    using scan_uint_dec_nat [of "unat (be_timestamp e)" 64 ?r1] sp uint64 [of "be_timestamp e"] by simp
  have 2: "scan_char ?r1 = Some (be_slot e, ?r2)"
    using ok by (simp add: scan_char_def boot_ok_def) (simp add: skip_space_def)
  have 3: "scan_int ?r2 = Inr (Some (be_success e, ?r3))"
    using scan_int_dec_int [of "be_success e" ?r3] sp ok by (simp add: boot_ok_def scan_int_def)
  have 4: "scan_uint 32 ?r3 = Inr (Some (uint (be_boot_time_ms e), [NL]))"
    using scan_uint_dec_nat [of "unat (be_boot_time_ms e)" 32 "[NL]"] sp uint32 [of "be_boot_time_ms e"]
    by (simp add: scan_uint_def)
  have l: "boot_line e = dec_nat (unat (be_timestamp e)) @ ?r1" by (simp add: boot_line_def)
  show ?thesis unfolding boot_parse_def l by (simp add: 1 2 3 4)
qed

lemma boot_collect_lines: "list_all boot_ok es \<Longrightarrow> boot_collect n (map boot_line es) = Inr (take n es)"
  by (induction es arbitrary: n; case_tac n) (auto simp: boot_parse_line)

text \<open>
  C27. The boot log is a round trip: what was added is read back in order, entry by entry, up to the
  caller's maximum. The entries kept are the oldest, so a log that outgrew the array never shows a new boot.
\<close>

theorem boot_log_round_trip:
  assumes "list_all boot_ok es"
  shows "bb_persist_boot_log_read (fold (\<lambda>e f. snd (bb_persist_boot_log_add True e f)) es (Some [])) n
    = Inr (take (nat n) es)"
proof -
  have "fold (\<lambda>e f. snd (bb_persist_boot_log_add True e f)) es (Some [])
      = fold (\<lambda>l f. snd (append_line True l f)) (map boot_line es) (Some [])"
    by (simp add: fold_map comp_def bb_persist_boot_log_add_def)
  moreover have "list_all (is_line 255) (map boot_line es)"
    using assms by (auto simp: list_all_iff boot_line_is_line)
  ultimately show ?thesis
    using boot_collect_lines [OF assms] by (simp add: append_lines bb_persist_boot_log_read_def)
qed

theorem boot_log_round_trip_witness:
  "bb_persist_boot_log_read (fold (\<lambda>e f. snd (bb_persist_boot_log_add True e f))
      [\<lparr>be_timestamp = 1, be_slot = CHR ''a'', be_success = 1, be_boot_time_ms = 900\<rparr>,
       \<lparr>be_timestamp = 2, be_slot = CHR ''b'', be_success = 0, be_boot_time_ms = 0\<rparr>] (Some [])) 1
    = Inr [\<lparr>be_timestamp = 1, be_slot = CHR ''a'', be_success = 1, be_boot_time_ms = 900\<rparr>]"
proof -
  let ?e1 = "\<lparr>be_timestamp = 1, be_slot = CHR ''a'', be_success = 1, be_boot_time_ms = 900\<rparr>"
  let ?e2 = "\<lparr>be_timestamp = 2, be_slot = CHR ''b'', be_success = 0, be_boot_time_ms = 0\<rparr>"
  have "list_all boot_ok [?e1, ?e2]" by (simp add: boot_ok_def isspace_def)
  from boot_log_round_trip [OF this, of 1] show ?thesis by simp
qed

text \<open>The pointer behind a key: the text up to the first quote is skipped at once.\<close>

lemma after_skip: "QUOTE \<notin> set xs \<Longrightarrow> after (xs @ ys) (QUOTE # k) = after ys (QUOTE # k)"
  by (cases "strstr ys (QUOTE # k)") (simp_all add: after_def strstr_skip)

lemma after_Cons: "after (c # s) (QUOTE # k) =
    (if prefix (QUOTE # k) (c # s) then Some (drop (length (QUOTE # k)) (c # s)) else after s (QUOTE # k))"
  by (cases "strstr s (QUOTE # k)") (auto simp: after_def)

lemma strchr_found: "c \<notin> set xs \<Longrightarrow> NUL \<notin> set xs \<Longrightarrow> c \<noteq> NUL \<Longrightarrow> strchr (xs @ c # ys) c = Some (length xs)"
  by (induction xs) (auto simp: strchr_def cstr_def)

definition version_ok :: "string \<Rightarrow> bool" where
  "version_ok v \<longleftrightarrow> QUOTE \<notin> set v \<and> NUL \<notin> set v \<and> NL \<notin> set v \<and> length v < 32"

definition update_ok :: "bb_update_entry_t \<Rightarrow> bool" where
  "update_ok e \<longleftrightarrow> version_ok (ue_from_version e) \<and> version_ok (ue_to_version e)
    \<and> ue_target_slot e \<notin> {QUOTE, NUL, NL} \<and> in_int32 (ue_success e)"

lemma copy_version_found:
  "version_ok v \<Longrightarrow> copy_version old (Some (v @ QUOTE # r)) = v"
  by (simp add: copy_version_def version_ok_def strchr_found)

lemma update_line_is_line: "update_ok e \<Longrightarrow> is_line 511 (update_line e)"
  using is_lineI [of "butlast (update_line e)" 511] dec_nat_u64 [of "ue_timestamp e"]
    dec_int_length [of "ue_success e"]
  by (auto simp: update_line_def update_ok_def version_ok_def butlast_append)

lemma no_key_in_value:
  assumes "QUOTE \<notin> set k" "QUOTE \<notin> set v"
  shows "\<not> prefix (k @ QUOTE # CHR '':'' # x) (v @ QUOTE # CHR '','' # r)"
proof
  assume p: "prefix (k @ QUOTE # CHR '':'' # x) (v @ QUOTE # CHR '','' # r)"
  then have "prefix (k @ [QUOTE]) (v @ QUOTE # CHR '','' # r)" by (auto simp: prefix_def)
  then have "k = v" using prefix_quoted [OF assms] by simp
  then show False using p by simp
qed

lemmas no_key_in_version = no_key_in_value [of "''to''" _ "[QUOTE]", simplified]
  no_key_in_value [of "''slot''" _ "[QUOTE]", simplified] no_key_in_value [of "''ok''" _ "[]", simplified]

lemma update_line_keys:
  assumes "update_ok e"
  shows "\<exists>r. after (update_line e) (quoted ''ts'' @ '':'') = Some (dec_nat (unat (ue_timestamp e)) @ CHR '','' # r)"
    and "\<exists>r. after (update_line e) (quoted ''from'' @ [CHR '':'', QUOTE]) = Some (ue_from_version e @ QUOTE # r)"
    and "\<exists>r. after (update_line e) (quoted ''to'' @ [CHR '':'', QUOTE]) = Some (ue_to_version e @ QUOTE # r)"
    and "\<exists>r. after (update_line e) (quoted ''slot'' @ [CHR '':'', QUOTE]) = Some (ue_target_slot e # r)"
    and "\<exists>r. after (update_line e) (quoted ''ok'' @ '':'') = Some (dec_int (ue_success e) @ r)"
  using assms by (simp_all add: update_line_def quoted_def after_Cons after_skip update_ok_def version_ok_def
      no_key_in_version)

lemma dec_int_not_t: "hd (dec_int i @ r) \<noteq> CHR ''t''"
proof -
  have "hd (dec_int i @ r) \<in> set (dec_int i)" by (simp add: dec_int_def)
  then show ?thesis using dec_int_chars by (force simp: isdigit_def)
qed

lemma update_parse_line:
  assumes "update_ok e"
  shows "update_parse old (update_line e) = e\<lparr>ue_success := 0\<rparr>"
proof -
  note keys = update_line_keys [OF assms]
  obtain r0 r1 r2 r3 r4 where k:
    "after (update_line e) (quoted ''ts'' @ '':'') = Some (dec_nat (unat (ue_timestamp e)) @ CHR '','' # r0)"
    "after (update_line e) (quoted ''from'' @ [CHR '':'', QUOTE]) = Some (ue_from_version e @ QUOTE # r1)"
    "after (update_line e) (quoted ''to'' @ [CHR '':'', QUOTE]) = Some (ue_to_version e @ QUOTE # r2)"
    "after (update_line e) (quoted ''slot'' @ [CHR '':'', QUOTE]) = Some (ue_target_slot e # r3)"
    "after (update_line e) (quoted ''ok'' @ '':'') = Some (dec_int (ue_success e) @ r4)"
    using keys by blast
  have "strtoull (dec_nat (unat (ue_timestamp e)) @ CHR '','' # r) = uint (ue_timestamp e)" for r
    using strtoull_dec_nat [of "unat (ue_timestamp e)" "CHR '','' # r"] unat64 [of "ue_timestamp e"]
    by (simp add: isdigit_def)
  then show ?thesis
    using copy_version_found assms dec_int_not_t [of "ue_success e" "r4 @ [NUL]"]
    by (simp add: update_parse_def k update_ok_def)
qed

lemma update_collect_lines:
  "list_all update_ok es \<Longrightarrow>
    update_collect old (map update_line es) = map (\<lambda>e. e\<lparr>ue_success := 0\<rparr>) (take (length old) es)"
  by (induction es arbitrary: old; case_tac old) (auto simp: update_parse_line)

text \<open>
  The update log gives back every field of what was added but one: each update, successful or not, is
  read as failed, since the writer prints \<open>"ok"\<close> as a number and the reader looks for a \<open>t\<close>.
\<close>

theorem update_log_forgets_success:
  assumes "list_all update_ok es"
  shows "bb_persist_update_log_read old (fold (\<lambda>e f. snd (bb_persist_update_log_add True e f)) es (Some []))
    = map (\<lambda>e. e\<lparr>ue_success := 0\<rparr>) (take (length old) es)"
proof -
  have "fold (\<lambda>e f. snd (bb_persist_update_log_add True e f)) es (Some [])
      = fold (\<lambda>l f. snd (append_line True l f)) (map update_line es) (Some [])"
    by (simp add: fold_map comp_def bb_persist_update_log_add_def)
  moreover have "list_all (is_line 511) (map update_line es)"
    using assms by (auto simp: list_all_iff update_line_is_line)
  ultimately show ?thesis
    using update_collect_lines [OF assms, of old] by (simp add: append_lines bb_persist_update_log_read_def)
qed

theorem update_log_forgets_success_witness:
  "map ue_success (bb_persist_update_log_read [\<lparr>ue_timestamp = 0, ue_from_version = [], ue_to_version = [], ue_target_slot = NUL, ue_success = 0\<rparr>]
     (fold (\<lambda>e f. snd (bb_persist_update_log_add True e f))
      [\<lparr>ue_timestamp = 7, ue_from_version = ''1.0'', ue_to_version = ''1.1'', ue_target_slot = CHR ''b'', ue_success = 1\<rparr>] (Some [])))
    = [0]"
proof -
  have "list_all update_ok [\<lparr>ue_timestamp = 7, ue_from_version = ''1.0'', ue_to_version = ''1.1'', ue_target_slot = CHR ''b'', ue_success = 1\<rparr>]"
    by (simp add: update_ok_def version_ok_def)
  from update_log_forgets_success [OF this] show ?thesis by simp
qed

end
