(* ===== verification/BB_Mfg.thy ===== *)
theory BB_Mfg
  imports BB_Os
begin

text \<open>
  The manufacturing record of \<open>libbb/bb_persist.c\<close>: the packed 192-byte structure with its CRC-32,
  the cached read and the accessors, which pass the cache itself as the buffer to read into.
\<close>

text \<open>The packed structure by the offsets of its members.\<close>

definition BB_MFG_SIZE :: nat where "BB_MFG_SIZE = 192"
definition off_serial :: nat where "off_serial = 0"
definition off_hw_revision :: nat where "off_hw_revision = 32 + 6 + 6"
definition off_part_number :: nat where "off_part_number = off_hw_revision + 32 + 16"
definition off_crc32 :: nat where "off_crc32 = off_part_number + 32 + 64"

record mfg_state =
  g_mfg :: bytes
  g_mfg_loaded :: bool

section \<open>The checksum\<close>

definition crc_shift :: "32 word \<Rightarrow> 32 word" where
  "crc_shift c = (drop_bit 1 c) XOR (if c AND 1 \<noteq> 0 then 0xEDB88320 else 0)"

definition crc_byte :: "32 word \<Rightarrow> 8 word \<Rightarrow> 32 word" where
  "crc_byte c b = (crc_shift ^^ 8) (c XOR ucast b)"

definition crc32 :: "bytes \<Rightarrow> 32 word" where
  "crc32 bs = foldl crc_byte 0 bs"

definition le32 :: "bytes \<Rightarrow> 32 word" where
  "le32 bs = le_word bs"

section \<open>Reading\<close>

text \<open>
  Reading the partition into a buffer: None is a device that does not open, a short or failed read
  is a device with fewer bytes. The buffer is overwritten before it is checked.
\<close>

definition mfg_fetch :: "bytes option \<Rightarrow> bytes \<Rightarrow> int \<times> bytes" where
  "mfg_fetch dev out =
    (case dev of None \<Rightarrow> (-1, out)
     | Some d \<Rightarrow>
        let got = take BB_MFG_SIZE d; out1 = got @ drop (length got) out
        in if length got \<noteq> BB_MFG_SIZE then (-1, out1)
           else if crc32 (take off_crc32 out1) \<noteq> le32 (drop off_crc32 out1) then (-1, out1)
           else (0, out1))"

definition bb_mfg_read :: "bytes option \<Rightarrow> bytes \<Rightarrow> mfg_state \<Rightarrow> int \<times> bytes \<times> mfg_state" where
  "bb_mfg_read dev out s =
    (if g_mfg_loaded s then (0, g_mfg s, s)
     else case mfg_fetch dev out of (r, out1) \<Rightarrow>
       (r, out1, if r = 0 then s\<lparr>g_mfg := out1, g_mfg_loaded := True\<rparr> else s))"

text \<open>\<open>bb_mfg_read(&g_mfg)\<close>: the buffer is the cache, so a failed read leaves its bytes there.\<close>

definition mfg_load :: "bytes option \<Rightarrow> mfg_state \<Rightarrow> mfg_state" where
  "mfg_load dev s =
    (if g_mfg_loaded s then s
     else case mfg_fetch dev (g_mfg s) of (r, out1) \<Rightarrow> \<lparr>g_mfg = out1, g_mfg_loaded = (r = 0)\<rparr>)"

definition bb_mfg_serial :: "bytes option \<Rightarrow> mfg_state \<Rightarrow> string \<times> mfg_state" where
  "bb_mfg_serial dev s = (let s' = mfg_load dev s in (c_string_at off_serial (g_mfg s'), s'))"

definition bb_mfg_hw_revision :: "bytes option \<Rightarrow> mfg_state \<Rightarrow> string \<times> mfg_state" where
  "bb_mfg_hw_revision dev s = (let s' = mfg_load dev s in (c_string_at off_hw_revision (g_mfg s'), s'))"

definition bb_mfg_part_number :: "bytes option \<Rightarrow> mfg_state \<Rightarrow> string \<times> mfg_state" where
  "bb_mfg_part_number dev s = (let s' = mfg_load dev s in (c_string_at off_part_number (g_mfg s'), s'))"

section \<open>The checksum detects a changed byte\<close>

lemma bit_crc_shift:
  "bit (crc_shift c) n \<longleftrightarrow> bit c (Suc n) \<noteq> (odd c \<and> bit (0xEDB88320 :: 32 word) n)"
proof -
  have "c AND 1 \<noteq> 0 \<longleftrightarrow> odd c" by (simp add: and_one_eq odd_iff_mod_2_eq_one)
  then show ?thesis by (simp add: crc_shift_def bit_xor_iff bit_drop_bit_eq)
qed

lemma crc_shift_inj: "crc_shift a = crc_shift b \<Longrightarrow> a = b"
proof -
  assume eq: "crc_shift a = crc_shift b"
  have top: "bit (0xEDB88320 :: 32 word) 31" by simp
  have "\<not> bit a (Suc 31)" "\<not> bit b (Suc 31)" using bit_imp_le_length by fastforce+
  then have par: "odd a = odd b"
    using bit_crc_shift [of a 31] bit_crc_shift [of b 31] eq top by auto
  show "a = b"
  proof (rule bit_word_eqI)
    fix n
    show "bit a n = bit b n"
    proof (cases n)
      case 0
      then show ?thesis using par by (simp add: bit_0)
    next
      case (Suc m)
      then show ?thesis using bit_crc_shift [of a m] bit_crc_shift [of b m] eq par by auto
    qed
  qed
qed

lemma crc_shifts_inj: "(crc_shift ^^ n) a = (crc_shift ^^ n) b \<Longrightarrow> a = b"
  by (induction n arbitrary: a b) (auto dest: crc_shift_inj)

lemma xor_cancel: "(a :: 32 word) XOR c = b XOR c \<Longrightarrow> a = b"
  using bit_word_eqI by (auto simp: bit_eq_iff bit_xor_iff)

lemma crc_byte_inj_crc: "crc_byte a x = crc_byte b x \<Longrightarrow> a = b"
  unfolding crc_byte_def by (blast dest: crc_shifts_inj xor_cancel)

lemma crc_byte_inj_byte: "crc_byte c x = crc_byte c y \<Longrightarrow> x = y"
proof -
  assume "crc_byte c x = crc_byte c y"
  then have "(ucast x :: 32 word) = ucast y"
    unfolding crc_byte_def by (metis crc_shifts_inj xor_cancel xor.commute)
  then have "bit (ucast x :: 32 word) n = bit (ucast y :: 32 word) n" for n by simp
  then have ext: "n < 32 \<and> bit x n \<longleftrightarrow> n < 32 \<and> bit y n" for n by (simp add: bit_ucast_iff)
  show "x = y"
  proof (rule bit_word_eqI)
    fix n assume "n < LENGTH(8)"
    then show "bit x n = bit y n" using ext [of n] by simp
  qed
qed

lemma foldl_crc_inj: "foldl crc_byte a bs = foldl crc_byte b bs \<Longrightarrow> a = b"
  by (induction bs arbitrary: a b) (auto dest: crc_byte_inj_crc)

lemma crc32_detects:
  assumes "i < length bs" and "b \<noteq> bs ! i"
  shows "crc32 (bs[i := b]) \<noteq> crc32 bs"
proof
  assume eq: "crc32 (bs[i := b]) = crc32 bs"
  have new: "bs[i := b] = take i bs @ b # drop (Suc i) bs" using assms(1) by (rule upd_conv_take_nth_drop)
  have old: "bs = take i bs @ bs ! i # drop (Suc i) bs" using assms(1) by (rule id_take_nth_drop)
  let ?c = "foldl crc_byte 0 (take i bs)"
  have "foldl crc_byte (crc_byte ?c b) (drop (Suc i) bs) = foldl crc_byte (crc_byte ?c (bs ! i)) (drop (Suc i) bs)"
    using eq unfolding crc32_def by (subst (asm) new, subst (asm) (2) old) simp
  then show False using assms(2) by (blast dest: foldl_crc_inj crc_byte_inj_byte)
qed

section \<open>The record\<close>

definition crc_good :: "bytes \<Rightarrow> bool" where
  "crc_good d \<longleftrightarrow> crc32 (take off_crc32 d) = le32 (drop off_crc32 d)"

lemma mfg_fetch_full:
  assumes "length out = BB_MFG_SIZE" "length d = BB_MFG_SIZE"
  shows "mfg_fetch (Some d) out = (if crc_good d then 0 else -1, d)"
  using assms by (simp add: mfg_fetch_def crc_good_def)

lemma crc_good_changed:
  assumes "crc_good d" "length d = BB_MFG_SIZE" "i < off_crc32" "b \<noteq> d ! i"
  shows "\<not> crc_good (d[i := b])"
proof -
  have l: "i < length (take off_crc32 d)" using assms
    by (simp add: BB_MFG_SIZE_def off_crc32_def off_part_number_def off_hw_revision_def)
  have "crc32 ((take off_crc32 d)[i := b]) \<noteq> crc32 (take off_crc32 d)"
    using crc32_detects [OF l, of b] assms(3,4) by simp
  moreover have "drop off_crc32 (d[i := b]) = drop off_crc32 d" using assms(3) by simp
  ultimately show ?thesis using assms(1) by (simp add: crc_good_def take_update_swap)
qed

text \<open>
  C22. A read of a valid record succeeds, returns its bytes and fills the cache; the same record with one
  byte before the checksum changed, whatever the byte, is rejected and the cache is left empty.
\<close>

theorem mfg_read_detects_corruption:
  assumes "crc_good d" "length d = BB_MFG_SIZE" "i < off_crc32" "b \<noteq> d ! i"
    and "length out = BB_MFG_SIZE" "\<not> g_mfg_loaded s"
  shows "bb_mfg_read (Some d) out s = (0, d, \<lparr>g_mfg = d, g_mfg_loaded = True\<rparr>)
    \<and> bb_mfg_read (Some (d[i := b])) out s = (-1, d[i := b], s)"
  using assms crc_good_changed [OF assms(1-4)]
  by (cases s) (simp add: bb_mfg_read_def mfg_fetch_full)

lemma crc_blank: "foldl crc_byte 0 (replicate n 0) = 0"
  by (induction n) (simp_all add: crc_byte_def crc_shift_def funpow_swap1 numeral_eq_Suc)

lemma blank_good: "crc_good (replicate BB_MFG_SIZE 0)"
proof -
  have "le32 (replicate n 0) = 0" for n by (induction n) (simp_all add: le32_def le_word_def)
  then show ?thesis using crc_blank by (simp add: crc_good_def crc32_def)
qed

theorem mfg_read_detects_corruption_witness:
  "fst (bb_mfg_read (Some ((replicate BB_MFG_SIZE 0)[7 := 1])) (replicate BB_MFG_SIZE 0)
      \<lparr>g_mfg = [], g_mfg_loaded = False\<rparr>) = -1"
proof -
  have "7 < off_crc32" "7 < BB_MFG_SIZE" "(1 :: 8 word) \<noteq> replicate BB_MFG_SIZE 0 ! 7"
    by (simp_all add: BB_MFG_SIZE_def off_crc32_def off_part_number_def off_hw_revision_def)
  from mfg_read_detects_corruption [OF blank_good _ this(1,3), of "replicate BB_MFG_SIZE 0" "\<lparr>g_mfg = [], g_mfg_loaded = False\<rparr>"]
  show ?thesis by simp
qed

text \<open>
  A partition erased to zeros passes as a manufacturing record: the checksum starts at 0 and is not
  inverted, so that of zeros is 0. The read reports success, and the serial number is the empty text.
\<close>

theorem mfg_blank_accepted:
  assumes "length (g_mfg s) = BB_MFG_SIZE" "\<not> g_mfg_loaded s"
  shows "bb_mfg_serial (Some (replicate BB_MFG_SIZE 0)) s
    = ([], \<lparr>g_mfg = replicate BB_MFG_SIZE 0, g_mfg_loaded = True\<rparr>)"
proof -
  have "mfg_load (Some (replicate BB_MFG_SIZE 0)) s = \<lparr>g_mfg = replicate BB_MFG_SIZE 0, g_mfg_loaded = True\<rparr>"
    using assms blank_good by (simp add: mfg_load_def mfg_fetch_full)
  moreover have "c_string_at 0 (replicate BB_MFG_SIZE 0) = []"
    by (simp add: char_of_def c_string_at_def cstr_def BB_MFG_SIZE_def numeral_eq_Suc)
  ultimately show ?thesis by (simp add: bb_mfg_serial_def off_serial_def Let_def)
qed

theorem mfg_blank_accepted_witness:
  "fst (bb_mfg_serial (Some (replicate BB_MFG_SIZE 0)) \<lparr>g_mfg = replicate BB_MFG_SIZE 1, g_mfg_loaded = False\<rparr>) = []"
  using mfg_blank_accepted [of "\<lparr>g_mfg = replicate BB_MFG_SIZE 1, g_mfg_loaded = False\<rparr>"] by simp

text \<open>
  A record that fails the check is still what the accessors return: the read goes into the cache, and
  its result is not looked at.
\<close>

theorem mfg_serial_of_bad_record:
  assumes "\<not> crc_good d" "length d = BB_MFG_SIZE" "length (g_mfg s) = BB_MFG_SIZE" "\<not> g_mfg_loaded s"
  shows "bb_mfg_serial (Some d) s = (c_string_at off_serial d, \<lparr>g_mfg = d, g_mfg_loaded = False\<rparr>)"
  using assms by (simp add: bb_mfg_serial_def mfg_load_def mfg_fetch_full)

theorem mfg_serial_of_bad_record_witness:
  "bb_mfg_serial (Some ((replicate BB_MFG_SIZE 0)[7 := 1])) \<lparr>g_mfg = replicate BB_MFG_SIZE 0, g_mfg_loaded = False\<rparr>
    = (c_string_at off_serial ((replicate BB_MFG_SIZE 0)[7 := 1]), \<lparr>g_mfg = (replicate BB_MFG_SIZE 0)[7 := 1], g_mfg_loaded = False\<rparr>)"
proof -
  have "7 < off_crc32" "7 < BB_MFG_SIZE" "(1 :: 8 word) \<noteq> replicate BB_MFG_SIZE 0 ! 7"
    by (simp_all add: BB_MFG_SIZE_def off_crc32_def off_part_number_def off_hw_revision_def)
  from crc_good_changed [OF blank_good _ this(1,3)]
  show ?thesis by (intro mfg_serial_of_bad_record) simp_all
qed

end
