(* ===== verification/BB_Board.thy ===== *)
theory BB_Board
  imports BB_Os
begin

text \<open>
  The two boards of \<open>libbb/bb_board.h\<close>: the names, devices and partition numbers the tools and the
  library take from it; labels that are only printed are left out.
\<close>

record board =
  product_name :: string
  dtb_file :: string
  console_dev :: string
  console_baud :: nat
  led_heartbeat :: string
  led1 :: string
  led2 :: string
  spi_dev :: string
  i2c_buses :: "int list"
  gpio_test_pin :: int
  uart_devs :: "string list"
  pwm_test_chips :: "int list"
  rtc_dev :: string
  wdg_dev :: string
  root_dev :: string
  part_boot_a :: nat
  part_boot_b :: nat
  part_rootfs_a :: nat
  part_rootfs_b :: nat
  part_recovery :: nat
  part_persist :: nat
  part_mfg :: nat
  part_log :: nat
  deploy_host :: string
  deploy_user :: string
  install_prefix :: string

definition nxp_imx8mp_evk :: board where
  "nxp_imx8mp_evk = \<lparr>product_name = ''NXP i.MX8MP EVK'', dtb_file = ''imx8mp-evk.dtb'', console_dev = ''/dev/ttymxc1'',
     console_baud = 115200, led_heartbeat = ''yellow:status'', led1 = ''yellow:status'', led2 = [],
     spi_dev = ''/dev/spidev1.0'', i2c_buses = [0, 1, 2, 6], gpio_test_pin = 13,
     uart_devs = [''/dev/ttymxc1'', ''/dev/ttymxc2''], pwm_test_chips = [0, 1, 2], rtc_dev = ''/dev/rtc0'',
     wdg_dev = ''/dev/watchdog0'', root_dev = ''/dev/mmcblk1'', part_boot_a = 1, part_boot_b = 2, part_rootfs_a = 3,
     part_rootfs_b = 4, part_recovery = 5, part_persist = 6, part_mfg = 7, part_log = 8,
     deploy_host = ''192.168.1.100'', deploy_user = ''root'', install_prefix = ''/opt/building-blocks''\<rparr>"

definition forlinx_ok8mpc :: board where
  "forlinx_ok8mpc = \<lparr>product_name = ''Forlinx OK8MPlus-C'', dtb_file = ''imx8mp-ok8mplus-c.dtb'', console_dev = ''/dev/ttymxc0'',
     console_baud = 115200, led_heartbeat = ''heartbeat'', led1 = ''led1'', led2 = ''led2'',
     spi_dev = ''/dev/spidev1.0'', i2c_buses = [0, 1, 2, 3, 4], gpio_test_pin = 15,
     uart_devs = [''/dev/ttymxc0'', ''/dev/ttymxc1'', ''/dev/ttymxc2''], pwm_test_chips = [0, 1], rtc_dev = ''/dev/rtc0'',
     wdg_dev = ''/dev/watchdog0'', root_dev = ''/dev/mmcblk0'', part_boot_a = 4, part_boot_b = 5, part_rootfs_a = 6,
     part_rootfs_b = 7, part_recovery = 8, part_persist = 9, part_mfg = 10, part_log = 11,
     deploy_host = ''192.168.0.232'', deploy_user = ''root'', install_prefix = ''/opt/building-blocks''\<rparr>"

text \<open>\<open>snprintf(part, 32, BB_ROOT_DEV "p%d", n)\<close>\<close>

definition part_dev :: "board \<Rightarrow> nat \<Rightarrow> string" where
  "part_dev b n = snprintf 32 (root_dev b @ ''p'' @ dec_nat n)"

definition known_board :: "board \<Rightarrow> bool" where
  "known_board b \<longleftrightarrow> b = nxp_imx8mp_evk \<or> b = forlinx_ok8mpc"

lemma dec_nat_small: "n < 10 \<Longrightarrow> dec_nat n = [digit_char n]"
  by (subst dec_nat.simps) simp

lemma dec_nat_10_11: "dec_nat 10 = ''10''" "dec_nat 11 = ''11''"
  by code_simp+

lemma part_dev_known:
  "known_board b \<Longrightarrow> n < 10 \<Longrightarrow> part_dev b n = root_dev b @ ''p'' @ [digit_char n]"
  by (auto simp: known_board_def part_dev_def dec_nat_small nxp_imx8mp_evk_def forlinx_ok8mpc_def)

lemma digit_char_inj: "m < 10 \<Longrightarrow> n < 10 \<Longrightarrow> digit_char m = digit_char n \<longleftrightarrow> m = n"
  by (metis digit_char_props(2))

lemma board_slots:
  "part_boot_a nxp_imx8mp_evk = 1" "part_boot_b nxp_imx8mp_evk = 2" "part_rootfs_a nxp_imx8mp_evk = 3" "part_rootfs_b nxp_imx8mp_evk = 4"
  "part_boot_a forlinx_ok8mpc = 4" "part_boot_b forlinx_ok8mpc = 5" "part_rootfs_a forlinx_ok8mpc = 6" "part_rootfs_b forlinx_ok8mpc = 7"
  by (simp_all add: nxp_imx8mp_evk_def forlinx_ok8mpc_def)

lemma digit_chars:
  "digit_char 1 = CHR ''1''" "digit_char 2 = CHR ''2''" "digit_char 3 = CHR ''3''" "digit_char 4 = CHR ''4''"
  "digit_char 5 = CHR ''5''" "digit_char 6 = CHR ''6''" "digit_char 7 = CHR ''7''" "digit_char 8 = CHR ''8''"
  "digit_char 9 = CHR ''9''"
  by code_simp+

lemmas part_dev_simps = part_dev_def nxp_imx8mp_evk_def forlinx_ok8mpc_def dec_nat_small dec_nat_10_11 digit_chars
  digit_chars(1) [simplified]

section \<open>Well-formed boards\<close>

text \<open>
  What the code that reads the board relies on: eight different partitions, numbered from 1, whose device
  names fit their 32 bytes, I2C device names that fit theirs, and serial port names that fit the 64
  bytes of a handle.
\<close>

definition partitions :: "board \<Rightarrow> nat list" where
  "partitions b = [part_boot_a b, part_boot_b b, part_rootfs_a b, part_rootfs_b b, part_recovery b, part_persist b, part_mfg b, part_log b]"

definition wf_board :: "board \<Rightarrow> bool" where
  "wf_board b \<longleftrightarrow> distinct (partitions b) \<and> (\<forall>n \<in> set (partitions b). 0 < n \<and> part_dev b n = root_dev b @ ''p'' @ dec_nat n)
     \<and> distinct (i2c_buses b) \<and> (\<forall>n \<in> set (i2c_buses b). snprintf 32 (''/dev/i2c-'' @ dec_int n) = ''/dev/i2c-'' @ dec_int n)
     \<and> distinct (uart_devs b) \<and> (\<forall>d \<in> set (uart_devs b). length d < 64) \<and> length (spi_dev b) < 64 \<and> length (rtc_dev b) < 64
     \<and> length (led1 b) < 64 \<and> length (led2 b) < 64"

text \<open>
  Both boards are well-formed: their partitions are eight different ones, and every device name built
  from them is the whole name, not one cut off by the array it is printed into.
\<close>

theorem boards_well_formed: "wf_board nxp_imx8mp_evk \<and> wf_board forlinx_ok8mpc"
  by (simp add: wf_board_def partitions_def part_dev_def nxp_imx8mp_evk_def forlinx_ok8mpc_def dec_int_def dec_nat_small dec_nat_10_11)

end
