(* ===== verification/BB_Update.thy ===== *)
theory BB_Update
  imports BB_Board
begin

text \<open>
  The A/B update of \<open>tools/bb-update\<close>: the package header and manifest, its verification, the
  choice of the slot, the installation as the sequence of commands it runs, the creation of a package
  and the command line. The package is its bytes; what the shell commands do is the oracle's.
\<close>

section \<open>The package\<close>

definition BB_UPDATE_MAGIC :: "32 word" where "BB_UPDATE_MAGIC = 0x42554842"
definition BB_UPDATE_VERSION :: "32 word" where "BB_UPDATE_VERSION = 1"

record bb_update_manifest_t =
  um_from_version :: string
  um_to_version :: string
  um_target_slot :: char
  um_product :: string
  um_timestamp :: "64 word"
  um_boot_sha256 :: string
  um_rootfs_sha256 :: string
  um_postinstall_sha256 :: string

text \<open>The structure in memory on the 64-bit target: 7 bytes of padding before the time, 5 at the end.\<close>

definition MANIFEST_SIZE :: nat where "MANIFEST_SIZE = 344"

definition manifest_bytes :: "bb_update_manifest_t \<Rightarrow> bytes" where
  "manifest_bytes m =
    char_array 32 (um_from_version m) @ char_array 32 (um_to_version m) @ [byte_of (um_target_slot m)]
    @ char_array 64 (um_product m) @ replicate 7 0 @ le_bytes 8 (um_timestamp m)
    @ char_array 65 (um_boot_sha256 m) @ char_array 65 (um_rootfs_sha256 m)
    @ char_array 65 (um_postinstall_sha256 m) @ replicate 5 0"

definition manifest_of :: "bytes \<Rightarrow> bb_update_manifest_t" where
  "manifest_of bs =
    \<lparr>um_from_version = c_string_at 0 bs, um_to_version = c_string_at 32 bs,
     um_target_slot = char_of (unat (bs ! 64)), um_product = c_string_at 65 bs,
     um_timestamp = le_word (take 8 (drop 136 bs)), um_boot_sha256 = c_string_at 144 bs,
     um_rootfs_sha256 = c_string_at 209 bs, um_postinstall_sha256 = c_string_at 274 bs\<rparr>"

definition magic_ok :: "bytes \<Rightarrow> bool" where
  "magic_ok p \<longleftrightarrow> 4 \<le> length p \<and> le_word (take 4 p) = BB_UPDATE_MAGIC"

text \<open>Verification looks at the magic number; the version and the manifest are read and not checked.\<close>

definition bb_update_verify :: "bytes option \<Rightarrow> int" where
  "bb_update_verify pkg = (case pkg of None \<Rightarrow> -1 | Some p \<Rightarrow> if magic_ok p then 0 else -1)"

text \<open>A short package fills a part of the caller's structure, and the result is still 0.\<close>

definition bb_update_read_manifest :: "bytes option \<Rightarrow> bytes \<Rightarrow> int \<times> bytes" where
  "bb_update_read_manifest pkg out =
    (case pkg of None \<Rightarrow> (-1, out)
     | Some p \<Rightarrow> if \<not> magic_ok p then (-1, out)
                else let got = take MANIFEST_SIZE (drop 8 p) in (0, got @ drop (length got) out))"

section \<open>The running system\<close>

definition bb_update_current_slot :: "string option \<Rightarrow> char" where
  "bb_update_current_slot cmdline =
    (case cmdline of None \<Rightarrow> CHR ''a''
     | Some t \<Rightarrow> if t = [] then CHR ''a''
        else let l = cstr (fst (fgets 511 t)) in
          (case strstr l ''boot_slot='' of None \<Rightarrow> CHR ''a'' | Some i \<Rightarrow> (l @ [NUL]) ! (i + 10)))"

definition version_value :: "nat \<Rightarrow> string \<Rightarrow> string" where
  "version_value len line =
    snprintf len (rev (dropWhile (\<lambda>c. c = NL \<or> c = QUOTE) (rev (drop 24 line))))"

definition bb_update_current_version :: "nat \<Rightarrow> string option \<Rightarrow> string" where
  "bb_update_current_version len release =
    (case release of None \<Rightarrow> snprintf len ''unknown''
     | Some t \<Rightarrow>
        (case find_index (prefix ''BUILDING_BLOCKS_VERSION='') (file_lines 255 t) of
           None \<Rightarrow> snprintf len ''unknown''
         | Some i \<Rightarrow> let v = version_value len (file_lines 255 t ! i)
                     in if v = [] then snprintf len ''unknown'' else v))"

section \<open>Installation\<close>

definition target_slot :: "char \<Rightarrow> char \<Rightarrow> char" where
  "target_slot current wanted =
    (if wanted = CHR ''='' then (if current = CHR ''a'' then CHR ''b'' else CHR ''a'') else wanted)"

definition boot_part :: "board \<Rightarrow> char \<Rightarrow> string" where
  "boot_part b target = part_dev b (if target = CHR ''a'' then part_boot_a b else part_boot_b b)"

definition rootfs_part :: "board \<Rightarrow> char \<Rightarrow> string" where
  "rootfs_part b target = part_dev b (if target = CHR ''a'' then part_rootfs_a b else part_rootfs_b b)"

definition mkfs_boot :: "board \<Rightarrow> char \<Rightarrow> string" where
  "mkfs_boot b target = snprintf 512 (''mkfs.vfat -F 32 '' @ boot_part b target @ '' 2>/dev/null'')"

definition mkfs_rootfs :: "board \<Rightarrow> char \<Rightarrow> string" where
  "mkfs_rootfs b target = snprintf 512 (''mkfs.ext4 -F '' @ rootfs_part b target @ '' 2>/dev/null'')"

text \<open>The archive is what \<open>tail -c +N\<close> prints of the package, N the size of the header and the manifest.\<close>

definition TAIL_FROM :: nat where "TAIL_FROM = 4 * 2 + MANIFEST_SIZE"

definition extract_cmd :: "string \<Rightarrow> string \<Rightarrow> string" where
  "extract_cmd path tmpdir = snprintf 512
    (''tail -c +'' @ dec_nat TAIL_FROM @ '' '' @ path @ '' | tar xzf - -C '' @ tmpdir @ '' 2>/dev/null'')"

definition mount_cmd :: "string \<Rightarrow> string \<Rightarrow> string" where
  "mount_cmd part mnt = snprintf 512 (''mount '' @ part @ '' '' @ mnt)"

definition untar_cmd :: "string \<Rightarrow> string \<Rightarrow> string" where
  "untar_cmd tarball mnt = snprintf 512 (''tar xzf '' @ tarball @ '' -C '' @ mnt)"

definition setenv_cmd :: "char \<Rightarrow> string" where
  "setenv_cmd target = snprintf 256
    (''fw_setenv boot_slot '' @ [target] @ '' && fw_setenv boot_attempt 3 && fw_setenv boot_ok 0'')"

definition write_boot :: "os \<Rightarrow> board \<Rightarrow> char \<Rightarrow> string \<Rightarrow> unit io" where
  "write_boot os b target tmpdir = do {
     let boot_tar = snprintf 256 (tmpdir @ ''/boot.tar.gz'');
     st \<leftarrow> call os (StatFile boot_tar);
     if st \<noteq> 0 then ret () else do {
       dir \<leftarrow> mkdtemp os ''/tmp/bb-boot-XXXXXX'';
       case dir of None \<Rightarrow> ret ()
       | Some mnt \<Rightarrow> do {
           _ \<leftarrow> system os (mount_cmd (boot_part b target) mnt);
           _ \<leftarrow> system os (untar_cmd boot_tar mnt);
           _ \<leftarrow> system os (snprintf 512 (''umount '' @ mnt));
           _ \<leftarrow> call os (Rmdir mnt);
           ret () } } }"

definition write_rootfs :: "os \<Rightarrow> board \<Rightarrow> char \<Rightarrow> string \<Rightarrow> unit io" where
  "write_rootfs os b target tmpdir = do {
     let rootfs_tar = snprintf 256 (tmpdir @ ''/rootfs.tar.gz'');
     dir \<leftarrow> mkdtemp os ''/tmp/bb-rootfs-XXXXXX'';
     case dir of None \<Rightarrow> ret ()
     | Some mnt \<Rightarrow> do {
         _ \<leftarrow> system os (mount_cmd (rootfs_part b target) mnt);
         _ \<leftarrow> system os (untar_cmd rootfs_tar mnt);
         let postinstall = snprintf 256 (mnt @ ''/post-install.sh'');
         x \<leftarrow> call os (AccessX postinstall);
         _ \<leftarrow> (if x = 0 then system os (snprintf 512 (''sh '' @ postinstall)) else ret 0);
         _ \<leftarrow> system os (snprintf 512 (''umount '' @ mnt));
         _ \<leftarrow> call os (Rmdir mnt);
         ret () } }"

definition log_update :: "os \<Rightarrow> nat \<Rightarrow> bb_update_manifest_t \<Rightarrow> char \<Rightarrow> unit io" where
  "log_update os now m target = do {
     f \<leftarrow> call os (OpenAppend ''/persist/update-log.json'');
     if f \<noteq> 0 then ret () else do {
       _ \<leftarrow> call os (Put ''/persist/update-log.json''
         ([CHR ''{''] @ quoted ''ts'' @ '':'' @ dec_nat now @ '','' @ quoted ''from'' @ '':'' @ quoted (um_from_version m)
          @ '','' @ quoted ''to'' @ '':'' @ quoted (um_to_version m) @ '','' @ quoted ''slot'' @ '':'' @ quoted [target]
          @ '','' @ quoted ''ok'' @ '':false}'' @ [NL]));
       ret () } }"

text \<open>From the choice of the slot on.\<close>

definition install_to :: "os \<Rightarrow> board \<Rightarrow> nat \<Rightarrow> string \<Rightarrow> bb_update_manifest_t \<Rightarrow> char \<Rightarrow> int io" where
  "install_to os b now path m target = do {
     _ \<leftarrow> system os (mkfs_boot b target);
     _ \<leftarrow> system os (mkfs_rootfs b target);
     dir \<leftarrow> mkdtemp os ''/tmp/bb-update-XXXXXX'';
     case dir of None \<Rightarrow> ret (-1)
     | Some tmpdir \<Rightarrow> do {
         x \<leftarrow> system os (extract_cmd path tmpdir);
         if x \<noteq> 0 then ret (-1) else do {
           _ \<leftarrow> write_boot os b target tmpdir;
           _ \<leftarrow> write_rootfs os b target tmpdir;
           _ \<leftarrow> system os (snprintf 512 (''rm -rf '' @ tmpdir));
           _ \<leftarrow> system os (setenv_cmd target);
           _ \<leftarrow> log_update os now m target;
           ret 0 } } }"

text \<open>The manifest structure is a local variable, so its old bytes are an argument.\<close>

definition bb_update_install :: "os \<Rightarrow> board \<Rightarrow> string option \<Rightarrow> nat \<Rightarrow> bytes \<Rightarrow> bytes option \<Rightarrow> string \<Rightarrow> int io" where
  "bb_update_install os b cmdline now old pkg path =
    (if bb_update_verify pkg \<noteq> 0 then ret (-1)
     else case bb_update_read_manifest pkg old of (r, bs) \<Rightarrow>
       if r \<noteq> 0 then ret (-1)
       else let m = manifest_of bs in
            install_to os b now path m (target_slot (bb_update_current_slot cmdline) (um_target_slot m)))"

section \<open>Creation\<close>

text \<open>
  The output stream: the header and the manifest stay in the buffer of stdio until \<open>fclose\<close>, which
  writes them at the stream's position, the start of the file; the shell's \<open>>>\<close> appends to the file
  as it is at that moment.
\<close>

record stream =
  st_file :: bytes
  st_buffer :: bytes

definition stream_write :: "bytes \<Rightarrow> stream \<Rightarrow> stream" where
  "stream_write xs s = s\<lparr>st_buffer := st_buffer s @ xs\<rparr>"

definition shell_append :: "bytes \<Rightarrow> stream \<Rightarrow> stream" where
  "shell_append xs s = s\<lparr>st_file := st_file s @ xs\<rparr>"

definition stream_close :: "stream \<Rightarrow> bytes" where
  "stream_close s = st_buffer s @ drop (length (st_buffer s)) (st_file s)"

definition package_header :: "bb_update_manifest_t \<Rightarrow> bytes" where
  "package_header m = le_bytes 4 BB_UPDATE_MAGIC @ le_bytes 4 BB_UPDATE_VERSION @ manifest_bytes m"

definition copy_payload :: "os \<Rightarrow> string \<Rightarrow> string \<Rightarrow> string \<Rightarrow> int io" where
  "copy_payload os src tmpdir name = system os (snprintf 512 (''cp '' @ src @ '' '' @ tmpdir @ ''/'' @ name))"

text \<open>The bytes of the archive that tar prints are an argument; the result has the final file.\<close>

definition bb_update_create :: "os \<Rightarrow> bytes \<Rightarrow> string \<Rightarrow> bb_update_manifest_t \<Rightarrow> string option \<Rightarrow> string \<Rightarrow> string option
    \<Rightarrow> (int \<times> bytes) io" where
  "bb_update_create os archive output m boot_tar rootfs_tar postinstall = do {
     f \<leftarrow> call os (OpenWrite output);
     if f \<noteq> 0 then ret (-1, []) else do {
       let s = stream_write (package_header m) \<lparr>st_file = [], st_buffer = []\<rparr>;
       dir \<leftarrow> mkdtemp os ''/tmp/bb-update-create-XXXXXX'';
       case dir of None \<Rightarrow> ret (-1, stream_close s)
       | Some tmpdir \<Rightarrow> do {
           _ \<leftarrow> (case boot_tar of None \<Rightarrow> ret 0 | Some t \<Rightarrow> copy_payload os t tmpdir ''boot.tar.gz'');
           _ \<leftarrow> copy_payload os rootfs_tar tmpdir ''rootfs.tar.gz'';
           _ \<leftarrow> (case postinstall of None \<Rightarrow> ret 0
                 | Some t \<Rightarrow> do { a \<leftarrow> call os (AccessR t);
                                  if a = 0 then copy_payload os t tmpdir ''post-install.sh'' else ret 0 });
           _ \<leftarrow> system os (snprintf 512 (''tar czf - -C '' @ tmpdir @ '' . >> '' @ output @ '' 2>/dev/null''));
           let s1 = shell_append archive s;
           _ \<leftarrow> system os (snprintf 512 (''rm -rf '' @ tmpdir));
           ret (0, stream_close s1) } } }"

section \<open>Command line\<close>

record create_opts =
  co_m :: bb_update_manifest_t
  co_boot :: "string option"
  co_rootfs :: "string option"
  co_post :: "string option"
  co_key :: "string option"
  co_output :: "string option"

definition co_init :: "64 word \<Rightarrow> create_opts" where
  "co_init now = \<lparr>co_m = \<lparr>um_from_version = [], um_to_version = [], um_target_slot = CHR ''='', um_product = [],
      um_timestamp = now, um_boot_sha256 = [], um_rootfs_sha256 = [], um_postinstall_sha256 = []\<rparr>,
    co_boot = None, co_rootfs = None, co_post = None, co_key = None, co_output = None\<rparr>"

text \<open>An option with a value; None for anything else.\<close>

definition create_option :: "string \<Rightarrow> string \<Rightarrow> create_opts \<Rightarrow> create_opts option" where
  "create_option a v opts =
    (if a = ''--from'' then Some (opts\<lparr>co_m := (co_m opts)\<lparr>um_from_version := snprintf 32 v\<rparr>\<rparr>)
     else if a = ''--to'' then Some (opts\<lparr>co_m := (co_m opts)\<lparr>um_to_version := snprintf 32 v\<rparr>\<rparr>)
     else if a = ''--slot'' then Some (opts\<lparr>co_m := (co_m opts)\<lparr>um_target_slot := hd (v @ [NUL])\<rparr>\<rparr>)
     else if a = ''--product'' then Some (opts\<lparr>co_m := (co_m opts)\<lparr>um_product := snprintf 64 v\<rparr>\<rparr>)
     else if a = ''--boot'' then Some (opts\<lparr>co_boot := Some v\<rparr>)
     else if a = ''--rootfs'' then Some (opts\<lparr>co_rootfs := Some v\<rparr>)
     else if a = ''--post'' then Some (opts\<lparr>co_post := Some v\<rparr>)
     else if a = ''--sign'' then Some (opts\<lparr>co_key := Some v\<rparr>)
     else None)"

definition create_word :: "string \<Rightarrow> create_opts \<Rightarrow> create_opts" where
  "create_word a opts = (if hd (a @ [NUL]) \<noteq> CHR ''-'' then opts\<lparr>co_output := Some a\<rparr> else opts)"

fun create_args :: "string list \<Rightarrow> create_opts \<Rightarrow> create_opts" where
  "create_args [] opts = opts"
| "create_args [a] opts = create_word a opts"
| "create_args (a # v # args) opts =
    (case create_option a v opts of Some opts' \<Rightarrow> create_args args opts'
     | None \<Rightarrow> create_args (v # args) (create_word a opts))"

definition create_main :: "os \<Rightarrow> bytes \<Rightarrow> create_opts \<Rightarrow> int io" where
  "create_main os archive opts =
    (case (co_output opts, co_rootfs opts) of
       (Some out, Some rootfs) \<Rightarrow>
         if um_from_version (co_m opts) = [] \<or> um_to_version (co_m opts) = [] then ret 1
         else do { (r, _) \<leftarrow> bb_update_create os archive out (co_m opts) (co_boot opts) rootfs (co_post opts);
                   ret (if r = 0 then 0 else 1) }
     | _ \<Rightarrow> ret 1)"

text \<open>The exit status and what is printed, with the package, the command line and os-release as read.\<close>

definition update_main :: "os \<Rightarrow> board \<Rightarrow> (string \<Rightarrow> bytes option) \<Rightarrow> string option \<Rightarrow> string option \<Rightarrow> nat \<Rightarrow> bytes \<Rightarrow> bytes
    \<Rightarrow> string list \<Rightarrow> (int \<times> string) io" where
  "update_main os b file cmdline release now old archive args =
    (case args of [] \<Rightarrow> ret (1, [])
     | cmd # rest \<Rightarrow>
        if cmd = ''verify'' then
          ret (if rest = [] then 1 else if bb_update_verify (file (hd rest)) = 0 then 0 else 1, [])
        else if cmd = ''install'' then
          (if rest = [] then ret (1, [])
           else do { r \<leftarrow> bb_update_install os b cmdline now old (file (hd rest)) (hd rest);
                     ret (if r = 0 then 0 else 1, []) })
        else if cmd = ''slot'' then ret (0, [bb_update_current_slot cmdline, NL])
        else if cmd = ''version'' then ret (0, bb_update_current_version 64 release @ [NL])
        else if cmd = ''create'' then
          do { r \<leftarrow> create_main os archive (create_args rest (co_init (word_of_nat now))); ret (r, []) }
        else ret (1, []))"

section \<open>The manifest\<close>

definition manifest_ok :: "bb_update_manifest_t \<Rightarrow> bool" where
  "manifest_ok m \<longleftrightarrow>
    length (um_from_version m) < 32 \<and> length (um_to_version m) < 32 \<and> length (um_product m) < 64
    \<and> length (um_boot_sha256 m) < 65 \<and> length (um_rootfs_sha256 m) < 65 \<and> length (um_postinstall_sha256 m) < 65
    \<and> NUL \<notin> set (um_from_version m) \<and> NUL \<notin> set (um_to_version m) \<and> NUL \<notin> set (um_product m)
    \<and> NUL \<notin> set (um_boot_sha256 m) \<and> NUL \<notin> set (um_rootfs_sha256 m) \<and> NUL \<notin> set (um_postinstall_sha256 m)"

lemma manifest_length: "manifest_ok m \<Longrightarrow> length (manifest_bytes m) = MANIFEST_SIZE"
  by (simp add: manifest_bytes_def manifest_ok_def MANIFEST_SIZE_def)

lemma field_at:
  assumes "length a = off" "length s < n" "NUL \<notin> set s"
  shows "c_string_at off (a @ char_array n s @ r) = s"
  using c_string_at_drop [of off 0 "a @ char_array n s @ r"] c_string_char_array [OF assms(2,3), of r] assms(1)
  by simp

lemma manifest_of_bytes:
  assumes ok: "manifest_ok m"
  shows "manifest_of (manifest_bytes m @ r) = m"
proof -
  note k = ok [unfolded manifest_ok_def]
  let ?f = "char_array 32 (um_from_version m)" and ?t = "char_array 32 (um_to_version m)"
  let ?p = "char_array 64 (um_product m)" and ?l = "le_bytes 8 (um_timestamp m)"
  let ?b = "char_array 65 (um_boot_sha256 m)" and ?s = "char_array 65 (um_rootfs_sha256 m)"
  let ?q = "char_array 65 (um_postinstall_sha256 m)" and ?z = "replicate 5 0 @ r :: bytes"
  let ?c = "[byte_of (um_target_slot m)]" and ?g = "replicate 7 0 :: bytes"
  have all: "manifest_bytes m @ r = ?f @ ?t @ ?c @ ?p @ ?g @ ?l @ ?b @ ?s @ ?q @ ?z"
    by (simp add: manifest_bytes_def)
  have len: "length ?f = 32" "length ?t = 32" "length ?p = 64" "length ?b = 65" "length ?s = 65" "length ?q = 65"
    using k by simp_all
  have v_from: "c_string_at 0 (manifest_bytes m @ r) = um_from_version m"
    using field_at [of "[]" 0 "um_from_version m" 32] k all by simp
  have v_to: "c_string_at 32 (manifest_bytes m @ r) = um_to_version m"
    using field_at [OF len(1), of "um_to_version m" 32] k all by simp
  have v_prod: "c_string_at 65 (manifest_bytes m @ r) = um_product m"
    using field_at [of "?f @ ?t @ ?c" 65 "um_product m" 64] k all len by simp
  have v_boot: "c_string_at 144 (manifest_bytes m @ r) = um_boot_sha256 m"
    using field_at [of "?f @ ?t @ ?c @ ?p @ ?g @ ?l" 144 "um_boot_sha256 m" 65] k all len by simp
  have v_rootfs: "c_string_at 209 (manifest_bytes m @ r) = um_rootfs_sha256 m"
    using field_at [of "?f @ ?t @ ?c @ ?p @ ?g @ ?l @ ?b" 209 "um_rootfs_sha256 m" 65] k all len by simp
  have v_post: "c_string_at 274 (manifest_bytes m @ r) = um_postinstall_sha256 m"
    using field_at [of "?f @ ?t @ ?c @ ?p @ ?g @ ?l @ ?b @ ?s" 274 "um_postinstall_sha256 m" 65] k all len by simp
  have v_slot: "(manifest_bytes m @ r) ! 64 = byte_of (um_target_slot m)"
    using all len by (simp add: nth_append)
  have "take 8 (drop 136 (manifest_bytes m @ r)) = ?l"
    using all len by simp
  then have v_time: "le_word (take 8 (drop 136 (manifest_bytes m @ r))) = um_timestamp m"
    using le_word_bytes [of 8 "um_timestamp m"] by (simp only:) (simp add: take_bit_word_eq_self)
  show ?thesis
    unfolding manifest_of_def v_from v_to v_prod v_boot v_rootfs v_post v_slot v_time by simp
qed

lemma header_magic: "magic_ok (package_header m @ r)"
proof -
  have "le_word (le_bytes 4 BB_UPDATE_MAGIC) = BB_UPDATE_MAGIC"
    using le_word_bytes [of 4 BB_UPDATE_MAGIC] by (simp add: take_bit_word_eq_self)
  then show ?thesis by (simp add: magic_ok_def package_header_def)
qed

lemma header_length: "manifest_ok m \<Longrightarrow> length (package_header m) = TAIL_FROM"
  by (simp add: package_header_def manifest_length TAIL_FROM_def)

lemma read_created:
  assumes "manifest_ok m"
  shows "bb_update_read_manifest (Some (package_header m @ r)) old = (0, manifest_bytes m @ drop MANIFEST_SIZE old)"
  using header_magic [of m r] manifest_length [OF assms]
  by (simp add: bb_update_read_manifest_def package_header_def Let_def)

lemma created_file:
  assumes "run_state (bb_update_create os archive output m boot rootfs post) [] = ((r, pkg), tr)" and "manifest_ok m"
  shows "pkg = [] \<and> r = -1 \<or> pkg = package_header m @ drop TAIL_FROM (if r = 0 then archive else []) \<and> r \<in> {0, -1}"
  using assms header_length [OF assms(2)]
  by (auto simp: bb_update_create_def stream_write_def shell_append_def stream_close_def Let_def
      split: if_splits option.splits prod.splits)

text \<open>
  C26. The manifest of a created package is what verification accepts and reading it returns, field by
  field, whatever the structure it is read into held before.
\<close>

theorem manifest_round_trip:
  assumes "run_state (bb_update_create os archive output m boot rootfs post) [] = ((0, pkg), tr)" and "manifest_ok m"
  shows "bb_update_verify (Some pkg) = 0
    \<and> (\<exists>bs. bb_update_read_manifest (Some pkg) old = (0, bs) \<and> manifest_of bs = m)"
proof -
  have pkg: "pkg = package_header m @ drop TAIL_FROM archive" using created_file [OF assms] by simp
  then show ?thesis
    using header_magic read_created [OF assms(2)] manifest_of_bytes [OF assms(2)]
    by (simp add: bb_update_verify_def)
qed

definition demo_manifest :: bb_update_manifest_t where
  "demo_manifest = \<lparr>um_from_version = ''1.0'', um_to_version = ''1.1'', um_target_slot = CHR ''='', um_product = ''imx8mp'',
     um_timestamp = 1700000000, um_boot_sha256 = [], um_rootfs_sha256 = [], um_postinstall_sha256 = []\<rparr>"

definition demo_os :: os where
  "demo_os = \<lparr>os_result = (\<lambda>_ _. 0), os_temp = (\<lambda>_ t. Some t)\<rparr>"

lemma demo_manifest_ok: "manifest_ok demo_manifest"
  by (simp add: manifest_ok_def demo_manifest_def)

lemma demo_created:
  "\<exists>tr. run_state (bb_update_create demo_os [0x1f, 0x8b] ''o.bbu'' demo_manifest None ''r.tgz'' None) []
    = ((0, package_header demo_manifest), tr)"
  by (simp add: bb_update_create_def demo_os_def copy_payload_def system_def stream_write_def shell_append_def
      stream_close_def header_length [OF demo_manifest_ok] TAIL_FROM_def)

theorem manifest_round_trip_witness:
  "\<exists>bs. bb_update_read_manifest (Some (package_header demo_manifest)) [] = (0, bs) \<and> manifest_of bs = demo_manifest"
  using manifest_round_trip [OF _ demo_manifest_ok] demo_created by blast

section \<open>What an installation touches\<close>

text \<open>
  The two devices of a slot as the board's header names them, boot and root file system, and the calls that
  write to no other: every command is one of the list, formats and mounts only those two devices, and
  makes no other slot the next one.
\<close>

definition slot_devs :: "board \<Rightarrow> char \<Rightarrow> string \<times> string" where
  "slot_devs b c = (if c = CHR ''a''
     then (root_dev b @ ''p'' @ dec_nat (part_boot_a b), root_dev b @ ''p'' @ dec_nat (part_rootfs_a b))
     else (root_dev b @ ''p'' @ dec_nat (part_boot_b b), root_dev b @ ''p'' @ dec_nat (part_rootfs_b b)))"

fun spares :: "board \<Rightarrow> char \<Rightarrow> os_call \<Rightarrow> bool" where
  "spares b t (Sys s) = (case slot_devs b t of (boot, root) \<Rightarrow>
     s = ''mkfs.vfat -F 32 '' @ boot @ '' 2>/dev/null'' \<or> s = ''mkfs.ext4 -F '' @ root @ '' 2>/dev/null''
     \<or> prefix (''mount '' @ boot @ '' '') s \<or> prefix (''mount '' @ root @ '' '') s
     \<or> s = ''fw_setenv boot_slot '' @ [t] @ '' && fw_setenv boot_attempt 3 && fw_setenv boot_ok 0''
     \<or> list_ex (\<lambda>c. prefix c s) [''tail -c +'', ''tar xzf '', ''umount '', ''rm -rf '', ''sh ''])"
| "spares b t _ = True"

lemma known_devs:
  assumes "known_board b"
  shows "slot_devs b t = (boot_part b t, rootfs_part b t)" "length (boot_part b t) < 20" "length (rootfs_part b t) < 20"
  using assms part_dev_known [OF assms]
  by (auto simp: known_board_def slot_devs_def boot_part_def rootfs_part_def board_slots dec_nat_small,
      simp_all add: nxp_imx8mp_evk_def forlinx_ok8mpc_def)

lemma spares_cmds:
  assumes "known_board b"
  shows "spares b t (Sys (mkfs_boot b t))" "spares b t (Sys (mkfs_rootfs b t))" "spares b t (Sys (setenv_cmd t))"
    "spares b t (Sys (mount_cmd (boot_part b t) mnt))" "spares b t (Sys (mount_cmd (rootfs_part b t) mnt))"
  using known_devs(2,3) [OF assms, of t]
  by (simp_all add: known_devs(1) [OF assms] mkfs_boot_def mkfs_rootfs_def setenv_cmd_def mount_cmd_def prefix_snprintf)

lemma spares_rest [only_rules]:
  "spares b t (Sys (extract_cmd path tmpdir))" "spares b t (Sys (untar_cmd tarball mnt))"
  "spares b t (Sys (snprintf 512 (''umount '' @ mnt)))" "spares b t (Sys (snprintf 512 (''rm -rf '' @ tmpdir)))"
  "spares b t (Sys (snprintf 512 (''sh '' @ script)))"
  "spares b t (Rmdir x)" "spares b t (StatFile x)" "spares b t (Mkdtemp x)" "spares b t (AccessX x)"
  "spares b t (OpenAppend x)" "spares b t (Put x y)"
  by (auto simp: extract_cmd_def untar_cmd_def prefix_snprintf split: prod.splits)

lemma install_to_spares: "known_board b \<Longrightarrow> only (spares b t) (install_to os b now path m t)"
  unfolding install_to_def write_boot_def write_rootfs_def log_update_def Let_def by (intro only_rules spares_cmds)

lemma install_spares:
  assumes "known_board b"
    and "t = target_slot (bb_update_current_slot cmdline) (um_target_slot (manifest_of (snd (bb_update_read_manifest pkg old))))"
  shows "only (spares b t) (bb_update_install os b cmdline now old pkg path)"
  using assms
  by (cases "bb_update_read_manifest pkg old") (simp add: bb_update_install_def Let_def install_to_spares only_ret)

definition other_slot :: "char \<Rightarrow> char" where
  "other_slot c = (if c = CHR ''a'' then CHR ''b'' else CHR ''a'')"

lemma slot_devs_differ:
  assumes "known_board b" "c = CHR ''a'' \<or> c = CHR ''b''"
  shows "{fst (slot_devs b (other_slot c)), snd (slot_devs b (other_slot c))} \<inter> {fst (slot_devs b c), snd (slot_devs b c)} = {}"
  using assms by (auto simp: known_board_def slot_devs_def other_slot_def dec_nat_small digit_char_inj board_slots)

text \<open>
  C5. A package made for the inactive slot never touches the running system: whatever the commands answer,
  every command is one of a fixed list, formats or mounts nothing but the boot and the root device that the
  board's header gives to the slot that is not running, by their names, and makes no other slot the next
  one; and these two devices are not among the two of the running slot. (What the package's own post-install
  script does is not the updater's.)
\<close>

theorem update_spares_active_slot:
  assumes "known_board b" and "c = bb_update_current_slot cmdline" "c = CHR ''a'' \<or> c = CHR ''b''"
    and "um_target_slot (manifest_of (snd (bb_update_read_manifest pkg old))) \<in> {CHR ''='', other_slot c}"
    and "run_state (bb_update_install os b cmdline now old pkg path) [] = (r, tr)"
  shows "list_all (spares b (other_slot c)) tr
    \<and> {fst (slot_devs b (other_slot c)), snd (slot_devs b (other_slot c))} \<inter> {fst (slot_devs b c), snd (slot_devs b c)} = {}"
proof -
  have "other_slot c = target_slot (bb_update_current_slot cmdline)
      (um_target_slot (manifest_of (snd (bb_update_read_manifest pkg old))))"
    using assms(2-4) by (auto simp: target_slot_def other_slot_def)
  from onlyD [OF install_spares [OF assms(1) this] assms(5)] slot_devs_differ [OF assms(1,3)]
  show ?thesis by blast
qed

lemma demo_manifest_read:
  "um_target_slot (manifest_of (snd (bb_update_read_manifest (Some (package_header demo_manifest)) []))) = CHR ''=''"
  using read_created [OF demo_manifest_ok, of "[]" "[]"] manifest_of_bytes [OF demo_manifest_ok, of "[]"]
  by (simp add: demo_manifest_def)

theorem update_spares_active_slot_witness:
  "list_all (spares forlinx_ok8mpc (CHR ''b''))
    (snd (run_state (bb_update_install demo_os forlinx_ok8mpc None 0 [] (Some (package_header demo_manifest)) ''u.bbu'') []))"
proof -
  obtain r tr where run: "run_state (bb_update_install demo_os forlinx_ok8mpc None 0 []
      (Some (package_header demo_manifest)) ''u.bbu'') [] = (r, tr)" by fastforce
  have "known_board forlinx_ok8mpc" "CHR ''a'' = bb_update_current_slot None" "CHR ''a'' = CHR ''a'' \<or> CHR ''a'' = CHR ''b''"
    by (simp_all add: known_board_def bb_update_current_slot_def)
  moreover have "um_target_slot (manifest_of (snd (bb_update_read_manifest (Some (package_header demo_manifest)) []))) \<in> {CHR ''='', other_slot (CHR ''a'')}"
    by (simp only: demo_manifest_read insert_iff simp_thms)
  ultimately have "list_all (spares forlinx_ok8mpc (other_slot (CHR ''a''))) tr"
    using update_spares_active_slot [OF _ _ _ _ run] by blast
  then show ?thesis by (simp add: run other_slot_def)
qed

section \<open>When an installation succeeds\<close>

lemma run_system [simp]: "run_state (system os c) tr = (os_result os tr (Sys c), tr @ [Sys c])"
  by (simp add: system_def)

lemma read_manifest_ok:
  "magic_ok p \<Longrightarrow> \<exists>bs. bb_update_read_manifest (Some p) old = (0, bs)"
  by (simp add: bb_update_read_manifest_def Let_def)

definition sets_env :: "os_call \<Rightarrow> bool" where
  "sets_env c \<longleftrightarrow> (\<exists>s. c = Sys s \<and> prefix ''fw_setenv'' s)"

lemma install_to_cases:
  fixes b t
  defines "fmt \<equiv> [Sys (mkfs_boot b t), Sys (mkfs_rootfs b t)]"
  shows "os_temp os fmt ''/tmp/bb-update-XXXXXX'' = None \<Longrightarrow>
      run_state (install_to os b now path m t) [] = (-1, fmt @ [Mkdtemp ''/tmp/bb-update-XXXXXX''])"
    and "os_temp os fmt ''/tmp/bb-update-XXXXXX'' = Some d \<Longrightarrow>
      os_result os (fmt @ [Mkdtemp ''/tmp/bb-update-XXXXXX'']) (Sys (extract_cmd path d)) \<noteq> 0 \<Longrightarrow>
      run_state (install_to os b now path m t) [] = (-1, fmt @ [Mkdtemp ''/tmp/bb-update-XXXXXX'', Sys (extract_cmd path d)])"
    and "os_temp os fmt ''/tmp/bb-update-XXXXXX'' = Some d \<Longrightarrow>
      os_result os (fmt @ [Mkdtemp ''/tmp/bb-update-XXXXXX'']) (Sys (extract_cmd path d)) = 0 \<Longrightarrow>
      \<exists>cs. run_state (install_to os b now path m t) [] = (0, fmt @ cs) \<and> Sys (setenv_cmd t) \<in> set cs"
proof -
  have app: "\<exists>cs. snd (run_state n tr) = tr @ cs" if "only P n" for P and n :: "'a io" and tr
    using that unfolding only_def by blast
  have triv: "only (\<lambda>_. True) (write_boot os b t tmpdir)" "only (\<lambda>_. True) (write_rootfs os b t tmpdir)"
    "only (\<lambda>_. True) (log_update os now m t)" for tmpdir
    unfolding write_boot_def write_rootfs_def log_update_def Let_def by (intro only_rules TrueI)+
  show "os_temp os fmt ''/tmp/bb-update-XXXXXX'' = None \<Longrightarrow>
      run_state (install_to os b now path m t) [] = (-1, fmt @ [Mkdtemp ''/tmp/bb-update-XXXXXX''])"
    by (simp add: install_to_def fmt_def)
  show "os_temp os fmt ''/tmp/bb-update-XXXXXX'' = Some d \<Longrightarrow>
      os_result os (fmt @ [Mkdtemp ''/tmp/bb-update-XXXXXX'']) (Sys (extract_cmd path d)) \<noteq> 0 \<Longrightarrow>
      run_state (install_to os b now path m t) [] = (-1, fmt @ [Mkdtemp ''/tmp/bb-update-XXXXXX'', Sys (extract_cmd path d)])"
    by (simp add: install_to_def fmt_def)
  assume d: "os_temp os fmt ''/tmp/bb-update-XXXXXX'' = Some d"
    "os_result os (fmt @ [Mkdtemp ''/tmp/bb-update-XXXXXX'']) (Sys (extract_cmd path d)) = 0"
  let ?x = "fmt @ [Mkdtemp ''/tmp/bb-update-XXXXXX'', Sys (extract_cmd path d)]"
  obtain u1 a where 1: "run_state (write_boot os b t d) ?x = (u1, ?x @ a)"
    using app [OF triv(1)] by (metis prod.collapse)
  obtain u2 a' where 2: "run_state (write_rootfs os b t d) (?x @ a) = (u2, (?x @ a) @ a')"
    using app [OF triv(2)] by (metis prod.collapse)
  let ?y = "?x @ a @ a' @ [Sys (snprintf 512 (''rm -rf '' @ d)), Sys (setenv_cmd t)]"
  obtain u3 e where 3: "run_state (log_update os now m t) ?y = (u3, ?y @ e)"
    using app [OF triv(3)] by (metis prod.collapse)
  have "run_state (install_to os b now path m t) [] = (0, ?y @ e)"
    using d 1 2 3 by (simp add: install_to_def fmt_def)
  then show "\<exists>cs. run_state (install_to os b now path m t) [] = (0, fmt @ cs) \<and> Sys (setenv_cmd t) \<in> set cs"
    by simp
qed

text \<open>
  C16. The target partitions are formatted before anything of the package but its manifest was read. The
  result is 0, and the boot environment is switched, exactly when a directory could be made and the
  archive was extracted: no other failure, of a mount, of writing the root file system, of the
  environment itself, is noticed.
\<close>

theorem update_install_result:
  assumes "magic_ok p" and "bb_update_read_manifest (Some p) old = (0, bs)"
    and "t = target_slot (bb_update_current_slot cmdline) (um_target_slot (manifest_of bs))"
    and "fmt = [Sys (mkfs_boot b t), Sys (mkfs_rootfs b t)]"
    and "run_state (bb_update_install os b cmdline now old (Some p) path) [] = (r, tr)"
  shows "prefix fmt tr \<and> r \<in> {0, -1}
    \<and> (r = 0 \<longleftrightarrow> (\<exists>d. os_temp os fmt ''/tmp/bb-update-XXXXXX'' = Some d
          \<and> os_result os (fmt @ [Mkdtemp ''/tmp/bb-update-XXXXXX'']) (Sys (extract_cmd path d)) = 0))
    \<and> (r = 0 \<longleftrightarrow> Sys (setenv_cmd t) \<in> set tr)"
proof -
  have run: "run_state (install_to os b now path (manifest_of bs) t) [] = (r, tr)"
    using assms by (simp add: bb_update_install_def bb_update_verify_def Let_def)
  have ne: "setenv_cmd t \<noteq> mkfs_boot b t" "setenv_cmd t \<noteq> mkfs_rootfs b t" "setenv_cmd t \<noteq> extract_cmd path d" for d
    by (simp_all add: setenv_cmd_def mkfs_boot_def mkfs_rootfs_def extract_cmd_def snprintf_def)
  note c = install_to_cases [of os b t, folded assms(4)]
  show ?thesis
  proof (cases "os_temp os fmt ''/tmp/bb-update-XXXXXX''")
    case None
    then show ?thesis using run c(1) [OF None, of now path "manifest_of bs"] ne by (auto simp: assms(4))
  next
    case (Some d)
    then show ?thesis
      using run c(2,3) [OF Some, of path now "manifest_of bs"] ne assms(4) by fastforce
  qed
qed

theorem update_install_result_witness:
  "fst (run_state (bb_update_install demo_os forlinx_ok8mpc None 0 [] (Some (package_header demo_manifest)) ''u.bbu'') []) = 0"
proof -
  obtain r tr where run: "run_state (bb_update_install demo_os forlinx_ok8mpc None 0 []
      (Some (package_header demo_manifest)) ''u.bbu'') [] = (r, tr)" by fastforce
  have m: "magic_ok (package_header demo_manifest)" using header_magic [of demo_manifest "[]"] by simp
  obtain bs where bs: "bb_update_read_manifest (Some (package_header demo_manifest)) [] = (0, bs)"
    using read_manifest_ok [OF m] by blast
  have "r = 0" using update_install_result [OF m bs refl refl run] by (simp add: demo_os_def)
  then show ?thesis by (simp add: run)
qed

section \<open>Created packages cannot be installed\<close>

text \<open>
  What \<open>tail -c +N\<close> prints, from byte N counting from 1, and the first bytes of a gzip file.
\<close>

definition tail_from :: "nat \<Rightarrow> bytes \<Rightarrow> bytes" where
  "tail_from n p = drop (n - 1) p"

definition gzip_file :: "bytes \<Rightarrow> bool" where
  "gzip_file p \<longleftrightarrow> take 2 p = [0x1f, 0x8b]"

lemma tail_of_created: "manifest_ok m \<Longrightarrow> \<not> gzip_file (tail_from TAIL_FROM (package_header m @ r))"
proof -
  assume ok: "manifest_ok m"
  obtain h where h: "package_header m = h @ [0]"
    by (auto simp: package_header_def manifest_bytes_def numeral_eq_Suc replicate_append_same [symmetric])
  then have "length h = TAIL_FROM - 1" using header_length [OF ok] by simp
  then show ?thesis using h by (simp add: tail_from_def gzip_file_def)
qed

text \<open>
  C13. No package made by bb_update_create can be installed, given that tar fails on what is not a gzip
  file: the archive is looked for one byte too early, where the manifest's last padding byte is, and
  its first bytes were overwritten by the header when the buffered stream was closed. By the time this
  shows, the two partitions of the slot that the manifest asks for have been formatted.
\<close>

theorem created_package_not_installable:
  assumes "run_state (bb_update_create os archive output m boot rootfs post) [] = ((0, pkg), tr)" and "manifest_ok m"
    and tar: "\<And>tr d. os_result os' tr (Sys (extract_cmd path d)) = 0 \<Longrightarrow> gzip_file (tail_from TAIL_FROM pkg)"
    and "run_state (bb_update_install os' b cmdline now old (Some pkg) path) [] = (r, tr')"
    and "t = target_slot (bb_update_current_slot cmdline) (um_target_slot m)"
  shows "r = -1 \<and> prefix [Sys (mkfs_boot b t), Sys (mkfs_rootfs b t)] tr'"
proof -
  have pkg: "pkg = package_header m @ drop TAIL_FROM archive" using created_file [OF assms(1,2)] by simp
  have bad: "os_result os' tr (Sys (extract_cmd path d)) \<noteq> 0" for tr d
    using tar [of tr d] tail_of_created [OF assms(2)] pkg by blast
  have v: "bb_update_verify (Some pkg) = 0" using header_magic by (simp add: pkg bb_update_verify_def)
  obtain bs where bs: "bb_update_read_manifest (Some pkg) old = (0, bs)" "manifest_of bs = m"
    using read_created [OF assms(2)] manifest_of_bytes [OF assms(2)] pkg by blast
  have run: "run_state (install_to os' b now path m t) [] = (r, tr')"
    using assms(4,5) v bs by (simp add: bb_update_install_def Let_def)
  show ?thesis
    using run bad install_to_cases(1) [of os' b t now path m] install_to_cases(2) [of os' b t _ path now m]
    by (cases "os_temp os' [Sys (mkfs_boot b t), Sys (mkfs_rootfs b t)] ''/tmp/bb-update-XXXXXX''") auto
qed

text \<open>A system with the package p, on which the extraction succeeds when what tail prints is a gzip file.\<close>

definition strict_os :: "bytes \<Rightarrow> os" where
  "strict_os p = \<lparr>os_result = (\<lambda>tr c. case c of Sys s \<Rightarrow>
      if prefix ''tail'' s \<and> \<not> gzip_file (tail_from TAIL_FROM p) then 2 else 0 | _ \<Rightarrow> 0), os_temp = (\<lambda>_ t. Some t)\<rparr>"

theorem created_package_not_installable_witness:
  "fst (run_state (bb_update_install (strict_os (package_header demo_manifest)) forlinx_ok8mpc None 0 [] (Some (package_header demo_manifest)) ''u.bbu'') []) = -1"
proof -
  obtain r tr where run: "run_state (bb_update_install (strict_os (package_header demo_manifest)) forlinx_ok8mpc None 0 []
      (Some (package_header demo_manifest)) ''u.bbu'') [] = (r, tr)" by fastforce
  obtain tr' where c: "run_state (bb_update_create demo_os [0x1f, 0x8b] ''o.bbu'' demo_manifest None ''r.tgz'' None) []
    = ((0, package_header demo_manifest), tr')" using demo_created by blast
  have "gzip_file (tail_from TAIL_FROM (package_header demo_manifest))"
    if "os_result (strict_os (package_header demo_manifest)) tr (Sys (extract_cmd ''u.bbu'' d)) = 0" for tr d
    using that by (simp add: strict_os_def extract_cmd_def prefix_snprintf split: if_splits)
  then have "r = -1" by (rule created_package_not_installable [OF c demo_manifest_ok _ run refl, THEN conjunct1])
  then show ?thesis by (simp add: run)
qed

end
