(* ===== verification/BB_Recovery.thy ===== *)
theory BB_Recovery
  imports BB_Board
begin

text \<open>
  Recovery and snapshots, \<open>libbb/bb_recovery.c\<close>: every routine is the sequence of file system calls
  and shell commands it makes, with the oracle's answers; contents of files it reads are arguments.
\<close>

section \<open>Requesting recovery\<close>

datatype bb_recovery_reason_t = BB_RECOVERY_NONE | BB_RECOVERY_REQUESTED | BB_RECOVERY_SLOT_FAIL
  | BB_RECOVERY_WATCHDOG | BB_RECOVERY_FACTORY

fun reason_code :: "bb_recovery_reason_t \<Rightarrow> int" where
  "reason_code BB_RECOVERY_NONE = 0"
| "reason_code BB_RECOVERY_REQUESTED = 1"
| "reason_code BB_RECOVERY_SLOT_FAIL = 2"
| "reason_code BB_RECOVERY_WATCHDOG = 3"
| "reason_code BB_RECOVERY_FACTORY = 4"

text \<open>The result of a popen is that of pclose, or negative when there is no stream.\<close>

definition bb_recovery_request :: "os \<Rightarrow> bb_recovery_reason_t \<Rightarrow> int io" where
  "bb_recovery_request os reason = do {
     rc \<leftarrow> call os (Popen ''fw_setenv recovery_mode 1'');
     ret (if rc = 0 then 0 else -1) }"

definition recovery_dev :: "board \<Rightarrow> string" where
  "recovery_dev b = root_dev b @ ''p'' @ dec_nat (part_recovery b)"

definition bb_recovery_is_active :: "board \<Rightarrow> bool \<Rightarrow> string option \<Rightarrow> bool" where
  "bb_recovery_is_active b root_ok cmdline =
    (if \<not> root_ok then False
     else case cmdline of None \<Rightarrow> False
     | Some t \<Rightarrow> t \<noteq> [] \<and> strstr (cstr (fst (fgets 511 t))) (''root='' @ recovery_dev b) \<noteq> None)"

text \<open>The number is cast to the enumeration whatever it is.\<close>

definition bb_recovery_reason :: "string option \<Rightarrow> int cres" where
  "bb_recovery_reason f =
    (case f of None \<Rightarrow> Inr (reason_code BB_RECOVERY_NONE)
     | Some t \<Rightarrow> map_sum id (\<lambda>x. case x of None \<Rightarrow> reason_code BB_RECOVERY_NONE | Some (r, _) \<Rightarrow> r) (scan_int t))"

section \<open>The recovery agent\<close>

definition checked_parts :: "board \<Rightarrow> string list" where
  "checked_parts b = map (part_dev b)
    [part_boot_a b, part_boot_b b, part_rootfs_a b, part_rootfs_b b, part_persist b, part_log b]"

definition fsck_cmd :: "string \<Rightarrow> string" where
  "fsck_cmd part = snprintf 256
    ((if strstr part ''p4'' \<noteq> None \<or> strstr part ''p5'' \<noteq> None then ''fsck.vfat -n '' else ''fsck.ext4 -n '')
      @ part @ '' >/dev/null 2>&1'')"

fun check_parts :: "os \<Rightarrow> int \<Rightarrow> string list \<Rightarrow> int io" where
  "check_parts os failures [] = ret failures"
| "check_parts os failures (p # ps) = do {
     rc \<leftarrow> system os (fsck_cmd p);
     check_parts os (if rc \<noteq> 0 then failures + 1 else failures) ps }"

definition bb_recovery_verify_partitions :: "os \<Rightarrow> board \<Rightarrow> int io" where
  "bb_recovery_verify_partitions os b = check_parts os 0 (checked_parts b)"

definition reimage_cmd :: "string \<Rightarrow> string \<Rightarrow> string" where
  "reimage_cmd part img =
    (if strstr img ''.tar'' \<noteq> None \<or> strstr img ''.tgz'' \<noteq> None then
       snprintf 512 (''mkfs.ext4 -F '' @ part @ '' && mkdir -p /tmp/reimage && mount '' @ part
         @ '' /tmp/reimage && tar xzf '' @ img @ '' -C /tmp/reimage && umount /tmp/reimage'')
     else snprintf 512 (''dd if='' @ img @ '' of='' @ part @ '' bs=4M status=progress''))"

definition bb_recovery_reimage :: "os \<Rightarrow> string \<Rightarrow> string \<Rightarrow> int io" where
  "bb_recovery_reimage os part img = system os (reimage_cmd part img)"

section \<open>Snapshots\<close>

definition snapshot_path :: "string \<Rightarrow> string" where
  "snapshot_path label = snprintf 256 (''/recovery/snapshots/'' @ label)"

definition mount_recovery :: "os \<Rightarrow> board \<Rightarrow> int io" where
  "mount_recovery os b = do {
     _ \<leftarrow> call os (Mkdir ''/recovery'');
     call os (Mount (recovery_dev b) ''/recovery'' ''ext4'') }"



text \<open>What the pipe prints is an argument, at most 4095 bytes of it are read.\<close>

definition list_cmd :: string where
  "list_cmd = ''ls -1 /recovery/snapshots 2>/dev/null | sed '' @ [CHR 0x27] @ ''s/.*/'' @ quoted ''&'' @ ''/''
     @ [CHR 0x27] @ '' | paste -sd, -''"

definition bb_recovery_list_snapshots :: "os \<Rightarrow> board \<Rightarrow> string \<Rightarrow> string io" where
  "bb_recovery_list_snapshots os b output = do {
     _ \<leftarrow> mount_recovery os b;
     rc \<leftarrow> call os (Popen list_cmd);
     let buf = take 4095 output;
     if rc < 0 \<or> buf = [] then ret ''[]''
     else ret (''['' @ cstr (if last buf = NL then butlast buf else buf) @ '']'') }"

definition bb_recovery_factory_reset :: "os \<Rightarrow> int io" where
  "bb_recovery_factory_reset os = do {
     _ \<leftarrow> bb_recovery_reimage os ''/dev/mmcblk0p6'' ''/recovery/factory/rootfs-a.img'';
     _ \<leftarrow> bb_recovery_reimage os ''/dev/mmcblk0p7'' ''/recovery/factory/rootfs-b.img'';
     _ \<leftarrow> system os ''fw_setenv boot_slot a'';
     _ \<leftarrow> system os ''fw_setenv boot_attempt 3'';
     _ \<leftarrow> system os ''fw_setenv boot_ok 0'';
     _ \<leftarrow> system os ''fw_setenv recovery_mode 0'';
     _ \<leftarrow> system os ''mkfs.ext4 -F /dev/mmcblk0p9'';
     _ \<leftarrow> system os ''mkfs.ext4 -F /dev/mmcblk0p11'';
     ret 0 }"



definition bb_snapshot_delete :: "os \<Rightarrow> board \<Rightarrow> string \<Rightarrow> int io" where
  "bb_snapshot_delete os b label = do {
     _ \<leftarrow> mount_recovery os b;
     system os (snprintf 256 (''rm -rf '' @ snapshot_path label)) }"

section \<open>Checking the partitions\<close>

lemma check_parts_result:
  "run_state (check_parts os n ps) tr =
    (n + int (length (filter (\<lambda>i. os_result os (tr @ map (\<lambda>p. Sys (fsck_cmd p)) (take i ps)) (Sys (fsck_cmd (ps ! i))) \<noteq> 0) [0..<length ps])),
     tr @ map (\<lambda>p. Sys (fsck_cmd p)) ps)"
proof (induction ps arbitrary: n tr)
  case (Cons p ps)
  have shift: "length (filter P [0..<Suc k]) = (if P 0 then 1 else 0) + length (filter (\<lambda>i. P (Suc i)) [0..<k])" for P k
    by (subst upt_conv_Cons) (simp_all add: map_Suc_upt [symmetric] filter_map comp_def del: upt_Suc)
  show ?case
    using Cons.IH shift [of "\<lambda>i. os_result os (tr @ map (\<lambda>p. Sys (fsck_cmd p)) (take i (p # ps))) (Sys (fsck_cmd ((p # ps) ! i))) \<noteq> 0" "length ps"]
    by (simp add: system_def del: upt_Suc)
qed simp

lemma checked_parts_boards:
  "checked_parts forlinx_ok8mpc = [''/dev/mmcblk0p4'', ''/dev/mmcblk0p5'', ''/dev/mmcblk0p6'', ''/dev/mmcblk0p7'', ''/dev/mmcblk0p9'', ''/dev/mmcblk0p11'']"
  "checked_parts nxp_imx8mp_evk = [''/dev/mmcblk1p1'', ''/dev/mmcblk1p2'', ''/dev/mmcblk1p3'', ''/dev/mmcblk1p4'', ''/dev/mmcblk1p6'', ''/dev/mmcblk1p8'']"
  by (simp_all add: checked_parts_def part_dev_simps)

definition fsck :: "string \<Rightarrow> string \<Rightarrow> os_call" where
  "fsck fstype part = Sys (''fsck.'' @ fstype @ '' -n '' @ part @ '' >/dev/null 2>&1'')"

lemma fsck_calls:
  "map (\<lambda>p. Sys (fsck_cmd p)) (checked_parts forlinx_ok8mpc) =
    map (fsck ''vfat'') [''/dev/mmcblk0p4'', ''/dev/mmcblk0p5'']
    @ map (fsck ''ext4'') [''/dev/mmcblk0p6'', ''/dev/mmcblk0p7'', ''/dev/mmcblk0p9'', ''/dev/mmcblk0p11'']"
  "map (\<lambda>p. Sys (fsck_cmd p)) (checked_parts nxp_imx8mp_evk) =
    map (fsck ''ext4'') [''/dev/mmcblk1p1'', ''/dev/mmcblk1p2'', ''/dev/mmcblk1p3''] @ [fsck ''vfat'' ''/dev/mmcblk1p4'']
    @ map (fsck ''ext4'') [''/dev/mmcblk1p6'', ''/dev/mmcblk1p8'']"
  by (simp_all add: checked_parts_boards fsck_cmd_def fsck_def)

text \<open>
  The check runs one fsck on each of the six partitions, in order, and counts those that failed. On the
  Forlinx board each runs with the file system the update makes there; on the NXP board, where the same
  partition numbers are tested, both boot partitions and the second root file system get the wrong tool.
\<close>

theorem verify_partitions_checks:
  "(let (n, tr) = run_state (bb_recovery_verify_partitions os forlinx_ok8mpc) [] in
      tr = map (fsck ''vfat'') [''/dev/mmcblk0p4'', ''/dev/mmcblk0p5'']
        @ map (fsck ''ext4'') [''/dev/mmcblk0p6'', ''/dev/mmcblk0p7'', ''/dev/mmcblk0p9'', ''/dev/mmcblk0p11'']
      \<and> n = int (length (filter (\<lambda>i. os_result os (take i tr) (tr ! i) \<noteq> 0) [0..<6])))
    \<and> {fsck ''ext4'' (part_dev nxp_imx8mp_evk (part_boot_a nxp_imx8mp_evk)),
       fsck ''ext4'' (part_dev nxp_imx8mp_evk (part_boot_b nxp_imx8mp_evk)),
       fsck ''vfat'' (part_dev nxp_imx8mp_evk (part_rootfs_b nxp_imx8mp_evk))}
      \<subseteq> set (snd (run_state (bb_recovery_verify_partitions os nxp_imx8mp_evk) []))"
proof
  define ps where "ps = checked_parts forlinx_ok8mpc"
  define f where "f = (\<lambda>p. Sys (fsck_cmd p))"
  have len: "length ps = 6" by (simp add: ps_def checked_parts_boards)
  have nth: "f (ps ! i) = map f ps ! i" "map f (take i ps) = take i (map f ps)" if "i < 6" for i
    using that len by (simp_all add: take_map)
  have "run_state (bb_recovery_verify_partitions os forlinx_ok8mpc) []
      = (int (length (filter (\<lambda>i. os_result os (take i (map f ps)) (map f ps ! i) \<noteq> 0) [0..<6])), map f ps)"
    unfolding bb_recovery_verify_partitions_def ps_def [symmetric] check_parts_result f_def [symmetric]
    using len nth by (auto intro!: arg_cong [where f = length] filter_cong simp: f_def)
  then show "let (n, tr) = run_state (bb_recovery_verify_partitions os forlinx_ok8mpc) [] in
      tr = map (fsck ''vfat'') [''/dev/mmcblk0p4'', ''/dev/mmcblk0p5'']
        @ map (fsck ''ext4'') [''/dev/mmcblk0p6'', ''/dev/mmcblk0p7'', ''/dev/mmcblk0p9'', ''/dev/mmcblk0p11'']
      \<and> n = int (length (filter (\<lambda>i. os_result os (take i tr) (tr ! i) \<noteq> 0) [0..<6]))"
    using fsck_calls(1) by (simp add: ps_def f_def)
  have "snd (run_state (bb_recovery_verify_partitions os nxp_imx8mp_evk) [])
      = map (\<lambda>p. Sys (fsck_cmd p)) (checked_parts nxp_imx8mp_evk)"
    by (simp add: bb_recovery_verify_partitions_def check_parts_result)
  moreover have "part_dev nxp_imx8mp_evk (part_boot_a nxp_imx8mp_evk) = ''/dev/mmcblk1p1''"
    "part_dev nxp_imx8mp_evk (part_boot_b nxp_imx8mp_evk) = ''/dev/mmcblk1p2''"
    "part_dev nxp_imx8mp_evk (part_rootfs_b nxp_imx8mp_evk) = ''/dev/mmcblk1p4''"
    by (simp_all add: part_dev_simps)
  ultimately show "{fsck ''ext4'' (part_dev nxp_imx8mp_evk (part_boot_a nxp_imx8mp_evk)),
       fsck ''ext4'' (part_dev nxp_imx8mp_evk (part_boot_b nxp_imx8mp_evk)),
       fsck ''vfat'' (part_dev nxp_imx8mp_evk (part_rootfs_b nxp_imx8mp_evk))}
      \<subseteq> set (snd (run_state (bb_recovery_verify_partitions os nxp_imx8mp_evk) []))"
    unfolding fsck_calls(2) by simp
qed

section \<open>Restoring a snapshot\<close>
















section \<open>Factory reset\<close>

text \<open>
  A factory reset returns 0 whatever its commands answer, and none of them names the root device of the
  NXP board, whose partitions it should restore: it writes to the other storage of the board.
\<close>

definition names_device :: "string \<Rightarrow> os_call \<Rightarrow> bool" where
  "names_device dev c = (case c of Sys s \<Rightarrow> strstr s dev \<noteq> None | _ \<Rightarrow> False)"

theorem factory_reset_devices:
  "let (r, tr) = run_state (bb_recovery_factory_reset os) [] in
     r = 0 \<and> length tr = 8 \<and> length (filter (names_device (root_dev forlinx_ok8mpc)) tr) = 4
     \<and> filter (names_device (root_dev nxp_imx8mp_evk)) tr = []"
  by (simp add: bb_recovery_factory_reset_def bb_recovery_reimage_def system_def reimage_cmd_def snprintf_def
      names_device_def forlinx_ok8mpc_def nxp_imx8mp_evk_def)

end
