(* ===== verification/BB_Log.thy ===== *)
theory BB_Log
  imports BB_Os
begin

text \<open>
  The logger of \<open>libbb/bb_log.c\<close>: levels and destinations, the assembled line, the rotation of the
  file, the crash report and the diagnostics. The file is its contents, as appends and truncations
  leave it; the time, the formatted message and the results of opening are arguments.
\<close>

datatype bb_log_level_t = BB_LOG_FATAL | BB_LOG_ERROR | BB_LOG_WARN | BB_LOG_INFO | BB_LOG_DEBUG | BB_LOG_TRACE

fun level_no :: "bb_log_level_t \<Rightarrow> nat" where
  "level_no BB_LOG_FATAL = 0"
| "level_no BB_LOG_ERROR = 1"
| "level_no BB_LOG_WARN = 2"
| "level_no BB_LOG_INFO = 3"
| "level_no BB_LOG_DEBUG = 4"
| "level_no BB_LOG_TRACE = 5"

fun level_str :: "bb_log_level_t \<Rightarrow> string" where
  "level_str BB_LOG_FATAL = ''FATAL''"
| "level_str BB_LOG_ERROR = ''ERROR''"
| "level_str BB_LOG_WARN = ''WARN''"
| "level_str BB_LOG_INFO = ''INFO''"
| "level_str BB_LOG_DEBUG = ''DEBUG''"
| "level_str BB_LOG_TRACE = ''TRACE''"

text \<open>The destination bits of the mask.\<close>

record log_dest =
  to_journal :: bool
  to_file :: bool
  to_stderr :: bool
  to_crash :: bool

record g_log =
  ident :: string
  dest_mask :: log_dest
  log_fd :: int
  max_size :: nat
  current_size :: nat
  log_level :: bb_log_level_t
  crash_count :: int
  log_file :: string

definition g_log_initial :: g_log where
  "g_log_initial = \<lparr>ident = ''unknown'', dest_mask = \<lparr>to_journal = False, to_file = False, to_stderr = True, to_crash = False\<rparr>,
     log_fd = -1, max_size = 1024 * 1024, current_size = 0, log_level = BB_LOG_INFO, crash_count = 0, log_file = []\<rparr>"

text \<open>fd is what opening the file returned, old its contents.\<close>

definition bb_log_init :: "string \<Rightarrow> log_dest \<Rightarrow> int \<Rightarrow> string \<Rightarrow> nat \<Rightarrow> g_log \<Rightarrow> int \<times> g_log" where
  "bb_log_init name dest fd old lim g =
    (let g1 = g\<lparr>ident := take 63 name, dest_mask := dest, max_size := (if lim > 0 then lim else max_size g)\<rparr> in
     (0, if to_file dest then
           (if fd < 0 then g1\<lparr>log_fd := fd, dest_mask := dest\<lparr>to_file := False\<rparr>\<rparr>
            else g1\<lparr>log_fd := fd, current_size := length old, log_file := old\<rparr>)
         else g1))"

definition bb_log_set_level :: "bb_log_level_t \<Rightarrow> g_log \<Rightarrow> g_log" where
  "bb_log_set_level l g = g\<lparr>log_level := l\<rparr>"

definition bb_log_get_level :: "g_log \<Rightarrow> bb_log_level_t" where
  "bb_log_get_level g = log_level g"

text \<open>\<open>%03ld\<close>\<close>

definition dec_pad3 :: "nat \<Rightarrow> string" where
  "dec_pad3 n = replicate (3 - length (dec_nat n)) (CHR ''0'') @ dec_nat n"

record log_call =
  lc_time :: string
  lc_msec :: nat
  lc_file :: string
  lc_line :: int
  lc_msg :: string

definition log_text :: "bb_log_level_t \<Rightarrow> log_call \<Rightarrow> g_log \<Rightarrow> string" where
  "log_text level c g =
    lc_time c @ ''.'' @ dec_pad3 (lc_msec c) @ '' ['' @ level_str level @ ''] '' @ ident g @ '' ''
      @ lc_file c @ '':'' @ dec_int (lc_line c) @ '' '' @ snprintf 4096 (lc_msg c) @ [NL]"

text \<open>\<open>ftruncate(fd, n)\<close> keeps the first n bytes, or pads with zero bytes.\<close>

definition ftruncate :: "nat \<Rightarrow> string \<Rightarrow> string" where
  "ftruncate n f = take n f @ replicate (n - length f) NUL"

definition log_append :: "string \<Rightarrow> g_log \<Rightarrow> g_log" where
  "log_append line g =
    (let g1 = g\<lparr>log_file := log_file g @ line, current_size := current_size g + length line\<rparr> in
     if current_size g1 > max_size g1
     then g1\<lparr>log_file := ftruncate (max_size g1 div 2) (log_file g1), current_size := max_size g1 div 2\<rparr>
     else g1)"

text \<open>
  The state, what is written to stderr, and the identity and reason of a crash report. The line is
  printed into 4608 bytes, and \<open>write\<close> is given the length snprintf reports: a longer line is read
  outside the array.
\<close>

definition bb_log_write :: "bb_log_level_t \<Rightarrow> log_call \<Rightarrow> g_log \<Rightarrow> (g_log \<times> string option \<times> (string \<times> string) option) cres" where
  "bb_log_write level c g =
    (if level_no level > level_no (log_level g) then Inr (g, None, None)
     else if \<not> (to_file (dest_mask g) \<or> to_stderr (dest_mask g) \<or> to_journal (dest_mask g)) then Inr (g, None, None)
     else let line = log_text level c g; use_file = to_file (dest_mask g) \<and> log_fd g \<ge> 0 in
       if length line > 4608 \<and> (use_file \<or> to_stderr (dest_mask g)) then Inl OutOfBounds
       else Inr (if use_file then log_append line g else g,
                 if to_stderr (dest_mask g) then Some line else None,
                 if level = BB_LOG_FATAL then Some (ident g, snprintf 4096 (lc_msg c)) else None))"

text \<open>The crash report, with the seconds and nanoseconds of the clock and the printed backtrace.\<close>

definition dec_pad9 :: "nat \<Rightarrow> string" where
  "dec_pad9 n = replicate (9 - length (dec_nat n)) (CHR ''0'') @ dec_nat n"

definition bb_log_crash :: "os \<Rightarrow> string \<Rightarrow> string \<Rightarrow> int \<Rightarrow> nat \<Rightarrow> int \<Rightarrow> string \<Rightarrow> unit io" where
  "bb_log_crash os name reason sec nsec frames bt = do {
     _ \<leftarrow> call os (Mkdir ''/persist/crash'');
     let path = snprintf 256 (''/persist/crash/crash-'' @ dec_int sec @ ''.log'');
     fd \<leftarrow> call os (OpenWrite path);
     if fd < 0 then ret () else do {
       _ \<leftarrow> call os (Put path (''Block: '' @ name @ [NL]));
       _ \<leftarrow> call os (Put path (''Time: '' @ dec_int sec @ ''.'' @ dec_pad9 nsec @ [NL]));
       _ \<leftarrow> call os (Put path (''Reason: '' @ reason @ [NL]));
       _ \<leftarrow> call os (Put path (''Backtrace ('' @ dec_int frames @ '' frames):'' @ [NL]));
       _ \<leftarrow> call os (Put path bt);
       _ \<leftarrow> call os (Unlink ''/persist/crash/latest'');
       _ \<leftarrow> call os (Symlink path ''/persist/crash/latest'');
       ret () } }"

definition level_name :: "bb_log_level_t \<Rightarrow> string" where
  "level_name l =
    (if l = BB_LOG_DEBUG then ''debug'' else if l = BB_LOG_INFO then ''info''
     else if l = BB_LOG_WARN then ''warn'' else if l = BB_LOG_ERROR then ''error'' else ''fatal'')"

definition bb_log_diagnostics :: "g_log \<Rightarrow> string" where
  "bb_log_diagnostics g = snprintf 512
    ([CHR ''{''] @ quoted ''log_level'' @ '':'' @ quoted (level_name (log_level g)) @ '','' @ quoted ''log_size'' @ '':''
      @ dec_nat (current_size g) @ '','' @ quoted ''crash_count'' @ '':'' @ dec_int (crash_count g) @ [CHR ''}''])"

definition bb_log_close :: "g_log \<Rightarrow> g_log \<times> int list" where
  "bb_log_close g = (g\<lparr>log_fd := -1\<rparr>, if log_fd g \<ge> 0 then [log_fd g] else [])"

section \<open>The file stays bounded\<close>

text \<open>The counted size is the size of the file, within the limit.\<close>

definition log_ok :: "g_log \<Rightarrow> bool" where
  "log_ok g \<longleftrightarrow> current_size g = length (log_file g) \<and> current_size g \<le> max_size g"

lemma ftruncate_short: "n \<le> length f \<Longrightarrow> ftruncate n f = take n f"
  by (simp add: ftruncate_def)

lemma log_append_cases:
  assumes "current_size g = length (log_file g)"
  shows "log_ok (log_append line g)
    \<and> (length (log_file g @ line) \<le> max_size g \<longrightarrow> log_file (log_append line g) = log_file g @ line)
    \<and> (max_size g < length (log_file g @ line) \<longrightarrow>
        log_file (log_append line g) = take (max_size g div 2) (log_file g @ line))"
  using assms by (auto simp: log_append_def log_ok_def Let_def ftruncate_def)

definition log_step :: "g_log \<Rightarrow> g_log \<Rightarrow> bool" where
  "log_step g h \<longleftrightarrow> (\<exists>l c e x. bb_log_write l c g = Inr (h, e, x)) \<or> (\<exists>l. h = bb_log_set_level l g)"

interpretation log: inv_machine log_ok log_step log_ok
proof
  fix g h assume "log_ok g" "log_step g h"
  then show "log_ok h"
    using log_append_cases [of g]
    by (auto simp: log_step_def bb_log_write_def Let_def bb_log_set_level_def log_ok_def split: if_splits)
qed

lemma log_step_level: "log_step g h \<Longrightarrow> max_size h = max_size g"
  by (auto simp: log_step_def bb_log_write_def Let_def bb_log_set_level_def log_append_def split: if_splits)

lemma log_steps_level: "log_step\<^sup>*\<^sup>* g h \<Longrightarrow> max_size h = max_size g"
  by (induction rule: rtranclp_induct) (simp_all add: log_step_level)

text \<open>
  C34. Whatever is logged after an initialisation on a file within the limit, the file never holds more than
  the limit. A write that would exceed it keeps the first half of the limit: the oldest messages stay,
  and unless it reaches into that half the message being written is lost.
\<close>

theorem log_file_bounded:
  assumes "bb_log_init name dest fd old lim g = (0, g1)" and "to_file dest" "0 \<le> fd"
    and "length old \<le> max_size g1" and "log_step\<^sup>*\<^sup>* g1 g2"
  shows "length (log_file g2) \<le> max_size g1 \<and> current_size g2 = length (log_file g2)
    \<and> (\<forall>line. max_size g1 < length (log_file g2) + length line \<and> max_size g1 \<le> 2 * length (log_file g2) \<longrightarrow>
        log_file (log_append line g2) = take (max_size g1 div 2) (log_file g2))"
proof -
  have "log_ok g1" using assms(1-4) by (auto simp: bb_log_init_def Let_def log_ok_def)
  then have ok: "log_ok g2" using log.steps_inv [OF assms(5)] by blast
  then show ?thesis
    using log_append_cases [of g2] log_steps_level [OF assms(5)] by (auto simp: log_ok_def)
qed

definition file_dest :: log_dest where
  "file_dest = \<lparr>to_journal = False, to_file = True, to_stderr = False, to_crash = False\<rparr>"

theorem log_file_bounded_witness:
  "\<exists>g2. log_step\<^sup>*\<^sup>* (snd (bb_log_init ''bb-led'' file_dest 3 [] 64 g_log_initial)) g2 \<and> log_file g2 \<noteq> []
    \<and> length (log_file g2) \<le> 64"
proof -
  let ?g1 = "snd (bb_log_init ''bb-led'' file_dest 3 [] 64 g_log_initial)"
  let ?c = "\<lparr>lc_time = ''t'', lc_msec = 0, lc_file = ''f'', lc_line = 1, lc_msg = ''m''\<rparr>"
  define line where "line = log_text BB_LOG_INFO ?c ?g1"
  have len: "line \<noteq> []" "length line \<le> 64"
    using dec_nat_length [of 0 1] dec_nat_length [of 1 1]
    by (simp_all add: line_def log_text_def dec_pad3_def dec_int_def bb_log_init_def g_log_initial_def file_dest_def)
  have i: "bb_log_init ''bb-led'' file_dest 3 [] 64 g_log_initial = (0, ?g1)"
    by (simp add: bb_log_init_def Let_def)
  have g1: "max_size ?g1 = 64" "log_file ?g1 = []" "current_size ?g1 = 0" "to_file (dest_mask ?g1)" "log_fd ?g1 = 3" "log_level ?g1 = BB_LOG_INFO" "\<not> to_stderr (dest_mask ?g1)"
    by (simp_all add: bb_log_init_def Let_def file_dest_def g_log_initial_def)
  have "bb_log_write BB_LOG_INFO ?c ?g1 = Inr (log_append line ?g1, None, None)"
    using g1 len by (simp add: bb_log_write_def Let_def line_def [symmetric])
  then have s: "log_step ?g1 (log_append line ?g1)" unfolding log_step_def by blast
  have f: "log_file (log_append line ?g1) = line" using g1 len by (simp add: log_append_def Let_def)
  have d: "to_file file_dest" "(0 :: int) \<le> 3" "length [] \<le> max_size ?g1" by (simp_all add: file_dest_def)
  have "length (log_file (log_append line ?g1)) \<le> max_size ?g1"
    using log_file_bounded [OF i d, of "log_append line ?g1"] r_into_rtranclp [of log_step, OF s] by blast
  then show ?thesis using r_into_rtranclp [of log_step, OF s] f len g1(1) by metis
qed

end
