(* ===== verification/BB_Dev.thy ===== *)
theory BB_Dev
  imports BB_Os
begin

text \<open>
  The device files the hardware abstraction layer works on: each call on a device is recorded with its
  result, and the descriptors open at any time follow from the record. The interface states what a
  handle of the layer owes: after opening it holds the descriptors it opened, and closing gives them back.
\<close>

section \<open>Calls\<close>

datatype dev_call =
    Open string
  | Close int
  | GetLine int int bool
  | Ioctl int string "int list"
  | ReadFd int nat
  | WriteFd int "int list"
  | SeekFd int
  | PollFd int string int
  | SelectFd int int
  | MmapFd int int int
  | Munmap int int
  | Sysfs string string
  | AccessW string
  | StatPath string

text \<open>\<open>Sysfs path text\<close> is fopen for writing, the print and fclose; its result is that of fopen.\<close>

type_synonym dev_log = "(dev_call \<times> int) list"
type_synonym 'a dio = "(dev_log, 'a) state"

text \<open>The result of a call, and the data it returns through a pointer.\<close>

record dev =
  answer :: "dev_log \<Rightarrow> dev_call \<Rightarrow> int"
  payload :: "dev_log \<Rightarrow> dev_call \<Rightarrow> int list"

definition act :: "dev \<Rightarrow> dev_call \<Rightarrow> int dio" where
  "act dv c = State (\<lambda>log. (answer dv log c, log @ [(c, answer dv log c)]))"

definition fetch :: "dev \<Rightarrow> dev_call \<Rightarrow> (int \<times> int list) dio" where
  "fetch dv c = State (\<lambda>log. ((answer dv log c, payload dv log c), log @ [(c, answer dv log c)]))"

definition give :: "'a \<Rightarrow> 'a dio" where
  "give x = State_Monad.return x"

lemma run_act [simp]: "run_state (act dv c) log = (answer dv log c, log @ [(c, answer dv log c)])"
  by (simp add: act_def)

lemma run_fetch [simp]: "run_state (fetch dv c) log = ((answer dv log c, payload dv log c), log @ [(c, answer dv log c)])"
  by (simp add: fetch_def)

lemma run_give [simp]: "run_state (give x) log = (x, log)"
  by (simp add: give_def)

section \<open>Open descriptors\<close>

text \<open>The descriptors open after a call, None once a descriptor was closed that is not open.\<close>

fun fd_step :: "int set option \<Rightarrow> dev_call \<times> int \<Rightarrow> int set option" where
  "fd_step None e = None"
| "fd_step (Some S) (Open p, r) = Some (if r \<ge> 0 then insert r S else S)"
| "fd_step (Some S) (GetLine c l d, r) = Some (if r \<ge> 0 then insert r S else S)"
| "fd_step (Some S) (Close f, r) = (if f \<in> S then Some (S - {f}) else None)"
| "fd_step (Some S) (c, r) = Some S"

definition ledger :: "dev_log \<Rightarrow> int set option" where
  "ledger log = foldl fd_step (Some {}) log"

lemma ledger_Nil [simp]: "ledger [] = Some {}"
  by (simp add: ledger_def)

lemma ledger_append [simp]: "ledger (log @ es) = foldl fd_step (ledger log) es"
  by (simp add: ledger_def)

text \<open>The kernel hands out descriptors that are not open.\<close>

definition sane :: "dev \<Rightarrow> bool" where
  "sane dv \<longleftrightarrow> (\<forall>log S c. ledger log = Some S \<and> (\<exists>p. c = Open p) \<or> ledger log = Some S \<and> (\<exists>f l d. c = GetLine f l d)
    \<longrightarrow> answer dv log c \<notin> S)"

lemma sane_open: "sane dv \<Longrightarrow> ledger log = Some S \<Longrightarrow> answer dv log (Open p) \<notin> S"
  unfolding sane_def by blast

lemma sane_line: "sane dv \<Longrightarrow> ledger log = Some S \<Longrightarrow> answer dv log (GetLine f l d) \<notin> S"
  unfolding sane_def by blast

text \<open>A routine between opening and closing: it leaves the open descriptors as they are.\<close>

definition neutral :: "'a dio \<Rightarrow> bool" where
  "neutral m \<longleftrightarrow> (\<forall>log. ledger (snd (run_state m log)) = ledger log)"

fun moves_fds :: "dev_call \<Rightarrow> bool" where
  "moves_fds (Open p) = True"
| "moves_fds (Close f) = True"
| "moves_fds (GetLine f l d) = True"
| "moves_fds _ = False"

named_theorems neutral_rules \<open>routines that leave the open descriptors as they are\<close>

lemma fd_step_neutral: "\<not> moves_fds c \<Longrightarrow> fd_step S (c, r) = S"
  by (cases S; cases c) simp_all

lemma neutral_act [neutral_rules]: "\<not> moves_fds c \<Longrightarrow> neutral (act dv c)"
  by (simp add: neutral_def fd_step_neutral)

lemma neutral_fetch [neutral_rules]: "\<not> moves_fds c \<Longrightarrow> neutral (fetch dv c)"
  by (simp add: neutral_def fd_step_neutral)

lemma neutral_give [neutral_rules]: "neutral (give x)"
  by (simp add: neutral_def)

lemma neutral_bind [neutral_rules]: "neutral m \<Longrightarrow> (\<And>x. neutral (f x)) \<Longrightarrow> neutral (State_Monad.bind m f)"
  unfolding neutral_def by (simp add: case_prod_beta)

lemma neutral_if [neutral_rules]: "neutral m \<Longrightarrow> neutral n \<Longrightarrow> neutral (if b then m else n)"
  by simp

section \<open>What a handle owes\<close>

locale fd_device =
  fixes opn :: "dev \<Rightarrow> ('d \<times> int) dio" and cls :: "dev \<Rightarrow> 'd \<Rightarrow> 'd dio" and held :: "'d \<Rightarrow> int set" and good :: "'d \<Rightarrow> bool"
  assumes opn_fds: "sane dv \<Longrightarrow> ledger log = Some S \<Longrightarrow> run_state (opn dv) log = ((d, r), log') \<Longrightarrow>
      ledger log' = Some (S \<union> held d) \<and> S \<inter> held d = {} \<and> good d"
    and cls_fds: "good d \<Longrightarrow> ledger log = Some (S \<union> held d) \<Longrightarrow> S \<inter> held d = {} \<Longrightarrow> run_state (cls dv d) log = (d', log') \<Longrightarrow>
      ledger log' = Some S \<and> held d' = {} \<and> good d'"
begin

text \<open>Open, use, close and close again: nothing stays open, nothing is closed that was not open.\<close>

lemma session:
  assumes "sane dv" "ledger log = Some S" "run_state (opn dv) log = ((d, r), log1)"
    and "neutral m" "snd (run_state m log1) = log2"
    and "run_state (cls dv d) log2 = (d1, log3)" "run_state (cls dv d1) log3 = (d2, log4)"
  shows "ledger log3 = Some S \<and> ledger log4 = Some S"
proof -
  have o: "ledger log1 = Some (S \<union> held d)" "S \<inter> held d = {}" "good d" using opn_fds [OF assms(1-3)] by auto
  have "ledger log2 = Some (S \<union> held d)" using assms(4,5) o(1) by (auto simp: neutral_def)
  from cls_fds [OF o(3) this o(2) assms(6)] have c: "ledger log3 = Some S" "held d1 = {}" "good d1" by auto
  from cls_fds [of d1 log3 S, OF c(3) _ _ assms(7)] c show ?thesis by simp
qed

end

text \<open>A handle whose open reports failure holds nothing.\<close>

locale fd_device_strict = fd_device +
  assumes opn_fail: "run_state (opn dv) log = ((d, r), log') \<Longrightarrow> r \<noteq> 0 \<Longrightarrow> held d = {}"
begin

lemma failed_open_clean:
  "sane dv \<Longrightarrow> ledger log = Some S \<Longrightarrow> run_state (opn dv) log = ((d, r), log') \<Longrightarrow> r \<noteq> 0 \<Longrightarrow> ledger log' = Some S"
  using opn_fds opn_fail by fastforce

end

definition fd_set :: "int \<Rightarrow> int set" where
  "fd_set fd = (if fd \<ge> 0 then {fd} else {})"

text \<open>A device on which every call succeeds, with a descriptor larger than any result so far.\<close>

definition next_fd :: "dev_log \<Rightarrow> int" where
  "next_fd log = 3 + (\<Sum>(c, r) \<leftarrow> log. \<bar>r\<bar>)"

lemma next_fd_snoc [simp]: "next_fd (log @ [(c, r)]) = next_fd log + \<bar>r\<bar>"
  by (simp add: next_fd_def)

lemma next_fd_pos: "3 \<le> next_fd log"
proof -
  have "0 \<le> (\<Sum>(c, r) \<leftarrow> log. \<bar>r\<bar>)" by (induction log) auto
  then show ?thesis by (simp add: next_fd_def)
qed

definition demo_answer :: "dev_log \<Rightarrow> dev_call \<Rightarrow> int" where
  "demo_answer log c = (case c of Open p \<Rightarrow> next_fd log | GetLine f l d \<Rightarrow> next_fd log | _ \<Rightarrow> 0)"

lemma ledger_bound: "ledger log = Some S \<Longrightarrow> f \<in> S \<Longrightarrow> f < next_fd log"
proof (induction log arbitrary: S rule: rev_induct)
  case (snoc e log)
  obtain c r where e: "e = (c, r)" by fastforce
  obtain T where T: "ledger log = Some T" using snoc.prems(1) by (cases "ledger log") simp_all
  have nn: "0 \<le> (\<Sum>(c, r) \<leftarrow> log. \<bar>r\<bar>)" by (induction log) auto
  have "f \<in> T \<or> f = r" using snoc.prems T e by (cases c) (auto split: if_splits)
  then show ?case
  proof
    assume "f \<in> T"
    then show ?thesis using snoc.IH [OF T] by (simp add: next_fd_def e)
  next
    assume "f = r"
    then show ?thesis using nn by (simp add: next_fd_def e)
  qed
qed simp

lemma demo_sane: "sane \<lparr>answer = demo_answer, payload = p\<rparr>"
  unfolding sane_def demo_answer_def by (auto dest: ledger_bound)

end
