(* ===== verification/BB_Hal_Bus.thy ===== *)
theory BB_Hal_Bus
  imports BB_Dev
begin

text \<open>
  The small device layers: I2C, SPI, real-time clock and watchdog (\<open>hal/bb_hal_i2c.c\<close>, \<open>bb_hal_spi.c\<close>,
  \<open>bb_hal_rtc.c\<close>, \<open>bb_hal_wdg.c\<close>) and PWM over sysfs (\<open>bb_hal_pwm.c\<close>). What the kernel answers is
  the device's; bytes are integers from 0 to 255.
\<close>

section \<open>I2C\<close>

record bb_i2c_t =
  i2c_fd :: int
  i2c_device :: string
  i2c_addr :: int

definition bb_i2c_open :: "string \<Rightarrow> dev \<Rightarrow> (bb_i2c_t \<times> int) dio" where
  "bb_i2c_open device dv = do {
     fd \<leftarrow> act dv (Open device);
     give (\<lparr>i2c_fd = fd, i2c_device = take 63 device, i2c_addr = 0\<rparr>, if fd < 0 then -1 else 0) }"

definition bb_i2c_set_addr :: "dev \<Rightarrow> bb_i2c_t \<Rightarrow> int \<Rightarrow> (bb_i2c_t \<times> int) dio" where
  "bb_i2c_set_addr dv i addr =
    (if i2c_fd i < 0 then give (i, -1)
     else do { r \<leftarrow> act dv (Ioctl (i2c_fd i) ''I2C_SLAVE'' [addr]);
               give (if r < 0 then (i, -1) else (i\<lparr>i2c_addr := addr\<rparr>, 0)) })"

definition bb_i2c_write :: "dev \<Rightarrow> bb_i2c_t \<Rightarrow> int \<Rightarrow> int list \<Rightarrow> (bb_i2c_t \<times> int) dio" where
  "bb_i2c_write dv i addr data =
    (if i2c_fd i < 0 then give (i, -1)
     else do { (i1, r) \<leftarrow> bb_i2c_set_addr dv i addr;
               if r < 0 then give (i1, -1)
               else do { n \<leftarrow> act dv (WriteFd (i2c_fd i1) data);
                         give (i1, if n = int (length data) then 0 else -1) } })"

text \<open>The bytes read are returned; a short read is an error.\<close>

definition bb_i2c_read :: "dev \<Rightarrow> bb_i2c_t \<Rightarrow> int \<Rightarrow> nat \<Rightarrow> (bb_i2c_t \<times> int \<times> int list) dio" where
  "bb_i2c_read dv i addr len =
    (if i2c_fd i < 0 then give (i, -1, [])
     else do { (i1, r) \<leftarrow> bb_i2c_set_addr dv i addr;
               if r < 0 then give (i1, -1, [])
               else do { (n, xs) \<leftarrow> fetch dv (ReadFd (i2c_fd i1) len);
                         give (i1, if n = int len then 0 else -1, xs) } })"

text \<open>
  The two messages, of which the first nmsgs are passed: an address, the flags (1 for a read) and the
  length, a 16-bit member of the kernel's structure.
\<close>

definition i2c_msgs :: "int \<Rightarrow> nat \<Rightarrow> nat \<Rightarrow> int list list" where
  "i2c_msgs addr wlen rlen = [[addr, 0, int (wlen mod 2 ^ 16)], [addr, 1, int (rlen mod 2 ^ 16)]]"

definition i2c_nmsgs :: "nat \<Rightarrow> nat \<Rightarrow> nat" where
  "i2c_nmsgs wlen rlen = (if wlen > 0 \<and> rlen > 0 then 2 else if wlen > 0 then 1 else if rlen > 0 then 1 else 0)"

definition bb_i2c_write_read :: "dev \<Rightarrow> bb_i2c_t \<Rightarrow> int \<Rightarrow> int list \<Rightarrow> nat \<Rightarrow> int dio" where
  "bb_i2c_write_read dv i addr wbuf rlen =
    (if i2c_fd i < 0 then give (-1)
     else if i2c_nmsgs (length wbuf) rlen = 0 then give 0
     else do { r \<leftarrow> act dv (Ioctl (i2c_fd i) ''I2C_RDWR''
                 (concat (take (i2c_nmsgs (length wbuf) rlen) (i2c_msgs addr (length wbuf) rlen))));
               give (if r < 0 then -1 else 0) })"

definition bb_i2c_probe :: "dev \<Rightarrow> bb_i2c_t \<Rightarrow> int \<Rightarrow> int dio" where
  "bb_i2c_probe dv i addr =
    (if i2c_fd i < 0 then give (-1)
     else do { r \<leftarrow> act dv (Ioctl (i2c_fd i) ''I2C_SLAVE'' [addr]);
               if r < 0 then give (-1)
               else do { n \<leftarrow> act dv (WriteFd (i2c_fd i) []); give (if n = 0 then 0 else -1) } })"

definition bb_i2c_close :: "dev \<Rightarrow> bb_i2c_t \<Rightarrow> bb_i2c_t dio" where
  "bb_i2c_close dv i =
    (if i2c_fd i \<ge> 0 then do { _ \<leftarrow> act dv (Close (i2c_fd i)); give (i\<lparr>i2c_fd := -1\<rparr>) } else give i)"

section \<open>SPI\<close>

record bb_spi_t =
  spi_fd :: int
  spi_device :: string
  spi_speed :: int
  spi_mode :: int
  spi_bits :: int

definition bb_spi_open :: "string \<Rightarrow> int \<Rightarrow> int \<Rightarrow> int \<Rightarrow> dev \<Rightarrow> (bb_spi_t \<times> int) dio" where
  "bb_spi_open device speed mode bits dv = do {
     fd \<leftarrow> act dv (Open device);
     let s = \<lparr>spi_fd = fd, spi_device = take 63 device, spi_speed = 0, spi_mode = 0, spi_bits = 0\<rparr>;
     if fd < 0 then give (s, -1) else do {
       m \<leftarrow> act dv (Ioctl fd ''SPI_IOC_WR_MODE32'' [mode]);
       m8 \<leftarrow> (if m < 0 then act dv (Ioctl fd ''SPI_IOC_WR_MODE'' [mode]) else give 0);
       if m8 < 0 then do { _ \<leftarrow> act dv (Close fd); give (s, -1) } else do {
         b \<leftarrow> (if bits \<noteq> 8 then act dv (Ioctl fd ''SPI_IOC_WR_BITS_PER_WORD'' [bits]) else give 0);
         if b < 0 then do { _ \<leftarrow> act dv (Close fd); give (s, -1) } else do {
           h \<leftarrow> act dv (Ioctl fd ''SPI_IOC_WR_MAX_SPEED_HZ'' [speed]);
           if h < 0 then do { _ \<leftarrow> act dv (Close fd); give (s, -1) }
           else give (s\<lparr>spi_speed := speed, spi_mode := mode, spi_bits := bits\<rparr>, 0) } } } }"

text \<open>The length is a size_t: the message has it cast to 32 bits, and the result to int.\<close>

definition bb_spi_transfer :: "dev \<Rightarrow> bb_spi_t \<Rightarrow> int list \<Rightarrow> int dio" where
  "bb_spi_transfer dv s tx =
    (if spi_fd s < 0 then give (-1)
     else do { r \<leftarrow> act dv (Ioctl (spi_fd s) ''SPI_IOC_MESSAGE'' (spi_speed s # spi_bits s # take (length tx mod 2 ^ 32) tx));
               give (if r < 0 then -1 else wrap32 (int (length tx))) })"

function spi_chunks :: "dev \<Rightarrow> bb_spi_t \<Rightarrow> int list \<Rightarrow> int dio" where
  "spi_chunks dv s data =
    (if data = [] then give 0
     else do { r \<leftarrow> bb_spi_transfer dv s (take 4096 data);
               if r < 0 then give (-1) else spi_chunks dv s (drop 4096 data) })"
  by pat_completeness auto
termination
  by (relation "measure (\<lambda>(dv, s, data). length data)") auto

declare spi_chunks.simps [simp del]

definition bb_spi_write :: "dev \<Rightarrow> bb_spi_t \<Rightarrow> int list \<Rightarrow> int dio" where
  "bb_spi_write dv s data = do { r \<leftarrow> spi_chunks dv s data; give (if r < 0 then -1 else wrap32 (int (length data))) }"

definition bb_spi_close :: "dev \<Rightarrow> bb_spi_t \<Rightarrow> bb_spi_t dio" where
  "bb_spi_close dv s =
    (if spi_fd s \<ge> 0 then do { _ \<leftarrow> act dv (Close (spi_fd s)); give (s\<lparr>spi_fd := -1\<rparr>) } else give s)"

section \<open>Real-time clock\<close>

record bb_rtc_t =
  rtc_fd :: int
  rtc_device :: string

record bb_rtc_time_t =
  t_year :: int
  t_mon :: int
  t_day :: int
  t_hour :: int
  t_min :: int
  t_sec :: int

definition bb_rtc_open :: "string \<Rightarrow> dev \<Rightarrow> (bb_rtc_t \<times> int) dio" where
  "bb_rtc_open device dv = do {
     fd \<leftarrow> act dv (Open device);
     give (\<lparr>rtc_fd = fd, rtc_device = take 63 device\<rparr>, if fd < 0 then -1 else 0) }"

text \<open>The kernel's structure: seconds, minutes, hours, day, month from 0, years since 1900.\<close>

definition rtc_time_of :: "int list \<Rightarrow> bb_rtc_time_t" where
  "rtc_time_of tm = \<lparr>t_year = tm ! 5 + 1900, t_mon = tm ! 4 + 1, t_day = tm ! 3, t_hour = tm ! 2,
     t_min = tm ! 1, t_sec = tm ! 0\<rparr>"

definition of_rtc_time :: "bb_rtc_time_t \<Rightarrow> int list" where
  "of_rtc_time t = [t_sec t, t_min t, t_hour t, t_day t, t_mon t - 1, t_year t - 1900]"

definition bb_rtc_read :: "dev \<Rightarrow> bb_rtc_t \<Rightarrow> (int \<times> bb_rtc_time_t option) dio" where
  "bb_rtc_read dv c =
    (if rtc_fd c < 0 then give (-1, None)
     else do { (r, tm) \<leftarrow> fetch dv (Ioctl (rtc_fd c) ''RTC_RD_TIME'' []);
               give (if r < 0 then (-1, None) else (0, Some (rtc_time_of tm))) })"

definition bb_rtc_set :: "dev \<Rightarrow> bb_rtc_t \<Rightarrow> bb_rtc_time_t \<Rightarrow> int dio" where
  "bb_rtc_set dv c t =
    (if rtc_fd c < 0 then give (-1) else act dv (Ioctl (rtc_fd c) ''RTC_SET_TIME'' (of_rtc_time t)))"

definition bb_rtc_close :: "dev \<Rightarrow> bb_rtc_t \<Rightarrow> bb_rtc_t dio" where
  "bb_rtc_close dv c =
    (if rtc_fd c \<ge> 0 then do { _ \<leftarrow> act dv (Close (rtc_fd c)); give (c\<lparr>rtc_fd := -1\<rparr>) } else give c)"

section \<open>Watchdog\<close>

record bb_wdg_t =
  wdg_fd :: int
  wdg_timeout :: int

definition bb_wdg_open :: "string \<Rightarrow> dev \<Rightarrow> (bb_wdg_t \<times> int) dio" where
  "bb_wdg_open device dv = do {
     fd \<leftarrow> act dv (Open device);
     if fd < 0 then give (\<lparr>wdg_fd = fd, wdg_timeout = 0\<rparr>, -1)
     else do { (r, t) \<leftarrow> fetch dv (Ioctl fd ''WDIOC_GETTIMEOUT'' []);
               give (\<lparr>wdg_fd = fd, wdg_timeout = (if r < 0 then 60 else hd (t @ [0]))\<rparr>, 0) } }"

definition bb_wdg_set_timeout :: "dev \<Rightarrow> bb_wdg_t \<Rightarrow> int \<Rightarrow> (bb_wdg_t \<times> int) dio" where
  "bb_wdg_set_timeout dv w seconds =
    (if wdg_fd w < 0 then give (w, -1)
     else do { (r, t) \<leftarrow> fetch dv (Ioctl (wdg_fd w) ''WDIOC_SETTIMEOUT'' [seconds]);
               give (if r < 0 then (w, -1) else (w\<lparr>wdg_timeout := hd (t @ [seconds])\<rparr>, 0)) })"

definition bb_wdg_get_timeout :: "dev \<Rightarrow> bb_wdg_t \<Rightarrow> (bb_wdg_t \<times> int) dio" where
  "bb_wdg_get_timeout dv w =
    (if wdg_fd w < 0 then give (w, -1)
     else do { (r, t) \<leftarrow> fetch dv (Ioctl (wdg_fd w) ''WDIOC_GETTIMEOUT'' []);
               give (if r < 0 then (w, -1) else (w\<lparr>wdg_timeout := hd (t @ [0])\<rparr>, hd (t @ [0]))) })"

definition bb_wdg_kick :: "dev \<Rightarrow> bb_wdg_t \<Rightarrow> int dio" where
  "bb_wdg_kick dv w =
    (if wdg_fd w < 0 then give (-1)
     else do { n \<leftarrow> act dv (WriteFd (wdg_fd w) [107]); give (if n > 0 then 0 else -1) })"

text \<open>The magic character V keeps the watchdog from rebooting the board after the close.\<close>

definition bb_wdg_close :: "dev \<Rightarrow> bb_wdg_t \<Rightarrow> bb_wdg_t dio" where
  "bb_wdg_close dv w =
    (if wdg_fd w \<ge> 0 then do { _ \<leftarrow> act dv (WriteFd (wdg_fd w) [86]); _ \<leftarrow> act dv (Close (wdg_fd w));
                             give (w\<lparr>wdg_fd := -1\<rparr>) }
     else give w)"

section \<open>PWM\<close>

record bb_pwm_t =
  pwm_chip :: int
  pwm_channel :: int
  pwm_exported :: bool

definition pwmchip :: "int \<Rightarrow> string" where
  "pwmchip chip = ''/sys/class/pwm/pwmchip'' @ dec_int chip"

definition bb_pwm_open :: "dev \<Rightarrow> int \<Rightarrow> int \<Rightarrow> (bb_pwm_t \<times> int) dio" where
  "bb_pwm_open dv chip channel = do {
     let p = \<lparr>pwm_chip = chip, pwm_channel = channel, pwm_exported = False\<rparr>;
     e \<leftarrow> act dv (Sysfs (snprintf 128 (pwmchip chip @ ''/export'')) (dec_int channel));
     if e < 0 then give (p, -1) else do {
       a \<leftarrow> act dv (AccessW (snprintf 128 (pwmchip chip @ ''/pwm'' @ dec_int channel @ ''/period'')));
       give (if a \<noteq> 0 then (p, -1) else (p\<lparr>pwm_exported := True\<rparr>, 0)) } }"

definition pwm_write_attr :: "dev \<Rightarrow> bb_pwm_t \<Rightarrow> string \<Rightarrow> string \<Rightarrow> int dio" where
  "pwm_write_attr dv p attr v = do {
     r \<leftarrow> act dv (Sysfs (snprintf 128 (pwmchip (pwm_chip p) @ ''/pwm'' @ dec_int (pwm_channel p) @ ''/'' @ attr)) v);
     give (if r < 0 then -1 else 0) }"

definition bb_pwm_set_period :: "dev \<Rightarrow> bb_pwm_t \<Rightarrow> 32 word \<Rightarrow> int dio" where
  "bb_pwm_set_period dv p ns = pwm_write_attr dv p ''period'' (snprintf 32 (dec_nat (unat ns)))"

definition bb_pwm_set_duty :: "dev \<Rightarrow> bb_pwm_t \<Rightarrow> 32 word \<Rightarrow> int dio" where
  "bb_pwm_set_duty dv p ns = pwm_write_attr dv p ''duty_cycle'' (snprintf 32 (dec_nat (unat ns)))"

definition bb_pwm_enable :: "dev \<Rightarrow> bb_pwm_t \<Rightarrow> int dio" where
  "bb_pwm_enable dv p = pwm_write_attr dv p ''enable'' ''1''"

definition bb_pwm_disable :: "dev \<Rightarrow> bb_pwm_t \<Rightarrow> int dio" where
  "bb_pwm_disable dv p = pwm_write_attr dv p ''enable'' ''0''"

definition bb_pwm_close :: "dev \<Rightarrow> bb_pwm_t \<Rightarrow> bb_pwm_t dio" where
  "bb_pwm_close dv p =
    (if pwm_exported p then do {
       _ \<leftarrow> act dv (Sysfs (snprintf 128 (pwmchip (pwm_chip p) @ ''/unexport'')) (dec_int (pwm_channel p)));
       give (p\<lparr>pwm_exported := False\<rparr>) } else give p)"

section \<open>Descriptors\<close>

lemma close_held: "S \<inter> {fd} = {} \<Longrightarrow> insert fd S - {fd} = S"
  by auto

interpretation i2c: fd_device_strict "bb_i2c_open device" bb_i2c_close "\<lambda>i. fd_set (i2c_fd i)" "\<lambda>_. True" for device
  by unfold_locales
    (auto simp: bb_i2c_open_def bb_i2c_close_def fd_set_def sane_open not_le split: if_splits)

interpretation rtc: fd_device_strict "bb_rtc_open device" bb_rtc_close "\<lambda>c. fd_set (rtc_fd c)" "\<lambda>_. True" for device
  by unfold_locales
    (auto simp: bb_rtc_open_def bb_rtc_close_def fd_set_def sane_open not_le split: if_splits)

interpretation wdg: fd_device_strict "bb_wdg_open device" bb_wdg_close "\<lambda>w. fd_set (wdg_fd w)" "\<lambda>_. True" for device
  by unfold_locales
    (auto simp: bb_wdg_open_def bb_wdg_close_def fd_set_def sane_open not_le split: if_splits)

lemma bus_ops_neutral [neutral_rules]:
  "neutral (bb_i2c_set_addr dv i addr)" "neutral (bb_i2c_write dv i addr data)" "neutral (bb_i2c_read dv i addr len)"
  "neutral (bb_i2c_write_read dv i addr data len)" "neutral (bb_i2c_probe dv i addr)"
  "neutral (bb_rtc_read dv c)" "neutral (bb_rtc_set dv c t)"
  "neutral (bb_wdg_set_timeout dv w n)" "neutral (bb_wdg_get_timeout dv w)" "neutral (bb_wdg_kick dv w)"
  unfolding bb_i2c_write_def bb_i2c_read_def bb_i2c_set_addr_def bb_i2c_write_read_def bb_i2c_probe_def
    bb_rtc_read_def bb_rtc_set_def bb_wdg_set_timeout_def bb_wdg_get_timeout_def bb_wdg_kick_def
  by (auto intro!: neutral_rules split: prod.split)

text \<open>
  The handles of the I2C bus, the clock and the watchdog neither leak nor close twice: opening, any use
  that opens and closes nothing, as all their operations are, closing, and closing again leave the open
  descriptors as they were, whether the device answered or failed at any point.
\<close>

theorem hal_sessions_balanced:
  assumes "sane dv" "ledger log = Some S" "neutral m"
  shows "(let ((i, r), l1) = run_state (bb_i2c_open device dv) log; l2 = snd (run_state m l1);
              (i1, l3) = run_state (bb_i2c_close dv i) l2 in
            ledger l3 = Some S \<and> ledger (snd (run_state (bb_i2c_close dv i1) l3)) = Some S
            \<and> (r \<noteq> 0 \<longrightarrow> ledger l1 = Some S))
    \<and> (let ((c, r), l1) = run_state (bb_rtc_open device dv) log; l2 = snd (run_state m l1);
              (c1, l3) = run_state (bb_rtc_close dv c) l2 in
            ledger l3 = Some S \<and> ledger (snd (run_state (bb_rtc_close dv c1) l3)) = Some S
            \<and> (r \<noteq> 0 \<longrightarrow> ledger l1 = Some S))
    \<and> (let ((w, r), l1) = run_state (bb_wdg_open device dv) log; l2 = snd (run_state m l1);
              (w1, l3) = run_state (bb_wdg_close dv w) l2 in
            ledger l3 = Some S \<and> ledger (snd (run_state (bb_wdg_close dv w1) l3)) = Some S
            \<and> (r \<noteq> 0 \<longrightarrow> ledger l1 = Some S))"
proof (intro conjI)
  show "let ((i, r), l1) = run_state (bb_i2c_open device dv) log; l2 = snd (run_state m l1);
              (i1, l3) = run_state (bb_i2c_close dv i) l2 in
            ledger l3 = Some S \<and> ledger (snd (run_state (bb_i2c_close dv i1) l3)) = Some S
            \<and> (r \<noteq> 0 \<longrightarrow> ledger l1 = Some S)"
    using i2c.session [OF assms(1,2) _ assms(3)] i2c.failed_open_clean [OF assms(1,2)]
    by (simp add: Let_def split: prod.split) (metis prod.collapse)
  show "let ((c, r), l1) = run_state (bb_rtc_open device dv) log; l2 = snd (run_state m l1);
              (c1, l3) = run_state (bb_rtc_close dv c) l2 in
            ledger l3 = Some S \<and> ledger (snd (run_state (bb_rtc_close dv c1) l3)) = Some S
            \<and> (r \<noteq> 0 \<longrightarrow> ledger l1 = Some S)"
    using rtc.session [OF assms(1,2) _ assms(3)] rtc.failed_open_clean [OF assms(1,2)]
    by (simp add: Let_def split: prod.split) (metis prod.collapse)
  show "let ((w, r), l1) = run_state (bb_wdg_open device dv) log; l2 = snd (run_state m l1);
              (w1, l3) = run_state (bb_wdg_close dv w) l2 in
            ledger l3 = Some S \<and> ledger (snd (run_state (bb_wdg_close dv w1) l3)) = Some S
            \<and> (r \<noteq> 0 \<longrightarrow> ledger l1 = Some S)"
    using wdg.session [OF assms(1,2) _ assms(3)] wdg.failed_open_clean [OF assms(1,2)]
    by (simp add: Let_def split: prod.split) (metis prod.collapse)
qed

definition demo_dv :: dev where
  "demo_dv = \<lparr>answer = demo_answer, payload = (\<lambda>_ _. [])\<rparr>"

theorem hal_sessions_balanced_witness:
  "let ((i, r), l1) = run_state (bb_i2c_open ''/dev/i2c-1'' demo_dv) [];
       l2 = snd (run_state (bb_i2c_write demo_dv i 80 [1, 2]) l1);
       (i1, l3) = run_state (bb_i2c_close demo_dv i) l2 in ledger l3 = Some {}"
proof -
  obtain i r l1 where o: "run_state (bb_i2c_open ''/dev/i2c-1'' demo_dv) [] = ((i, r), l1)" by (metis prod.collapse)
  have s: "sane demo_dv" by (simp add: demo_dv_def demo_sane)
  have "neutral (bb_i2c_write demo_dv i 80 [1, 2])" by (rule bus_ops_neutral)
  from hal_sessions_balanced [OF s ledger_Nil this, of "''/dev/i2c-1''"] show ?thesis
    by (simp add: o Let_def case_prod_beta)
qed

section \<open>Transfers\<close>

definition spi_msg :: "bb_spi_t \<Rightarrow> int list \<Rightarrow> dev_call" where
  "spi_msg s tx = Ioctl (spi_fd s) ''SPI_IOC_MESSAGE'' (spi_speed s # spi_bits s # tx)"

text \<open>
  The messages a write sends and what they are answered: each of 1 to 4096 bytes, in order from the start of
  the data, all of it unless one of them fails, which is then the last.
\<close>

definition spi_sent :: "int list \<Rightarrow> int list list \<Rightarrow> int list \<Rightarrow> bool" where
  "spi_sent data txs rs \<longleftrightarrow> length rs = length txs \<and> prefix (concat txs) data
     \<and> ((\<forall>r \<in> set rs. 0 \<le> r) \<longrightarrow> concat txs = data) \<and> (\<forall>r \<in> set (butlast rs). 0 \<le> r)
     \<and> (\<forall>tx \<in> set txs. 0 < length tx \<and> length tx \<le> 4096)"

text \<open>Each answer is the device's to its message, after those before it.\<close>

definition spi_answers :: "dev \<Rightarrow> bb_spi_t \<Rightarrow> dev_log \<Rightarrow> int list list \<Rightarrow> int list \<Rightarrow> bool" where
  "spi_answers dv s log txs rs \<longleftrightarrow>
    (\<forall>k < length txs. rs ! k = answer dv (log @ take k (zip (map (spi_msg s) txs) rs)) (spi_msg s (txs ! k)))"

lemma spi_answers_Cons:
  "r = answer dv log (spi_msg s tx) \<Longrightarrow> spi_answers dv s (log @ [(spi_msg s tx, r)]) txs rs \<Longrightarrow> spi_answers dv s log (tx # txs) (r # rs)"
  by (auto simp: spi_answers_def less_Suc_eq_0_disj)

lemma wrap32_negative: "2 ^ 31 \<le> x \<Longrightarrow> x < 2 ^ 32 \<Longrightarrow> wrap32 x < 0"
proof -
  assume x: "2 ^ 31 \<le> x" "x < 2 ^ 32"
  have "(word_of_int (x - 2 ^ 32) :: 32 word) = word_of_int x" by (simp add: word_of_int_eq_iff take_bit_eq_mod)
  then have "wrap32 x = wrap32 (x - 2 ^ 32)" by (simp only: wrap32_def)
  also have "\<dots> = x - 2 ^ 32" using x by (intro wrap32_id) (simp add: in_int32_def)
  finally show ?thesis using x by simp
qed

lemma spi_transfer_chunk:
  assumes "0 \<le> spi_fd s" "length tx \<le> 4096" "r = answer dv log (spi_msg s tx)"
  shows "run_state (bb_spi_transfer dv s tx) log = (if r < 0 then -1 else int (length tx), log @ [(spi_msg s tx, r)])"
proof -
  have "length tx mod 2 ^ 32 = length tx" "wrap32 (int (length tx)) = int (length tx)"
    using assms(2) by (simp_all add: in_int32_def)
  then show ?thesis using assms(1,3) by (simp add: bb_spi_transfer_def spi_msg_def not_less)
qed

lemma spi_sent_cons:
  assumes "spi_sent (drop 4096 data) txs rs" "data \<noteq> []" "0 \<le> r"
  shows "spi_sent data (take 4096 data # txs) (r # rs)"
proof -
  have "prefix (take 4096 data @ concat txs) (take 4096 data @ drop 4096 data)"
    using assms(1) unfolding same_prefix_prefix by (simp add: spi_sent_def)
  then show ?thesis using assms by (auto simp: spi_sent_def)
qed

lemma spi_chunks_run:
  assumes "0 \<le> spi_fd s"
  shows "\<exists>txs rs. run_state (spi_chunks dv s data) log = (if \<forall>r \<in> set rs. 0 \<le> r then 0 else -1, log @ zip (map (spi_msg s) txs) rs)
    \<and> spi_sent data txs rs \<and> spi_answers dv s log txs rs"
proof (induction data arbitrary: log rule: length_induct)
  case (1 data)
  let ?tx = "take 4096 data"
  define r where "r = answer dv log (spi_msg s ?tx)"
  have run: "run_state (bb_spi_transfer dv s ?tx) log = (if r < 0 then -1 else int (length ?tx), log @ [(spi_msg s ?tx, r)])"
    by (rule spi_transfer_chunk [OF assms _ r_def]) simp
  consider (nil) "data = []" | (fail) "data \<noteq> []" "r < 0" | (ok) "data \<noteq> []" "0 \<le> r" by linarith
  then show ?case
  proof cases
    case nil
    then show ?thesis by (intro exI [of _ "[]"]) (simp add: spi_chunks.simps [of dv s "[]"] spi_sent_def spi_answers_def)
  next
    case fail
    then show ?thesis using run
      by (intro exI [of _ "[?tx]"] exI [of _ "[r]"]) (simp add: spi_chunks.simps [of dv s data] spi_sent_def take_is_prefix spi_answers_def r_def)
  next
    case ok
    then have "length (drop 4096 data) < length data" by simp
    then obtain txs rs where t: "run_state (spi_chunks dv s (drop 4096 data)) (log @ [(spi_msg s ?tx, r)])
        = (if \<forall>r \<in> set rs. 0 \<le> r then 0 else -1, (log @ [(spi_msg s ?tx, r)]) @ zip (map (spi_msg s) txs) rs)"
      "spi_sent (drop 4096 data) txs rs" "spi_answers dv s (log @ [(spi_msg s ?tx, r)]) txs rs"
      using 1 by blast
    have "run_state (spi_chunks dv s data) log = run_state (spi_chunks dv s (drop 4096 data)) (log @ [(spi_msg s ?tx, r)])"
      using run ok by (subst spi_chunks.simps) simp
    also note t(1)
    finally show ?thesis using ok(2) spi_sent_cons [OF t(2) ok] spi_answers_Cons [OF r_def t(3)]
      by (intro exI [of _ "?tx # txs"] exI [of _ "r # rs"]) simp
  qed
qed

text \<open>
  C32. A long SPI write reaches the bus whole and in order, in messages of at most 4096 bytes, none empty, unless
  a message fails: then it stops there and the result is -1. Otherwise the result is the number of bytes
  converted to int, which is that number for less than 2^31 bytes, and negative, like an error, from 2^31 on
  and below 2^32.
\<close>

theorem spi_write_covers:
  assumes "0 \<le> spi_fd s"
  shows "(\<exists>txs rs. run_state (bb_spi_write dv s data) log
        = (if \<forall>r \<in> set rs. 0 \<le> r then wrap32 (int (length data)) else -1, log @ zip (map (spi_msg s) txs) rs)
      \<and> length rs = length txs \<and> prefix (concat txs) data \<and> ((\<forall>r \<in> set rs. 0 \<le> r) \<longrightarrow> concat txs = data)
      \<and> (\<forall>r \<in> set (butlast rs). 0 \<le> r) \<and> (\<forall>tx \<in> set txs. 0 < length tx \<and> length tx \<le> 4096)
      \<and> spi_answers dv s log txs rs)
    \<and> (length data < 2 ^ 31 \<longrightarrow> wrap32 (int (length data)) = int (length data))
    \<and> (2 ^ 31 \<le> length data \<and> length data < 2 ^ 32 \<longrightarrow> wrap32 (int (length data)) < 0)"
proof (intro conjI impI)
  obtain txs rs where t: "run_state (spi_chunks dv s data) log = (if \<forall>r \<in> set rs. 0 \<le> r then 0 else -1, log @ zip (map (spi_msg s) txs) rs)"
    "spi_sent data txs rs" "spi_answers dv s log txs rs" using spi_chunks_run [OF assms] by blast
  from t(2) [unfolded spi_sent_def] show "\<exists>txs rs. run_state (bb_spi_write dv s data) log
        = (if \<forall>r \<in> set rs. 0 \<le> r then wrap32 (int (length data)) else -1, log @ zip (map (spi_msg s) txs) rs)
      \<and> length rs = length txs \<and> prefix (concat txs) data \<and> ((\<forall>r \<in> set rs. 0 \<le> r) \<longrightarrow> concat txs = data)
      \<and> (\<forall>r \<in> set (butlast rs). 0 \<le> r) \<and> (\<forall>tx \<in> set txs. 0 < length tx \<and> length tx \<le> 4096)
      \<and> spi_answers dv s log txs rs"
    by (intro exI [of _ txs] exI [of _ rs]) (simp add: t(1,3) bb_spi_write_def)
  show "wrap32 (int (length data)) = int (length data)" if "length data < 2 ^ 31" using that by (simp add: in_int32_def)
  show "wrap32 (int (length data)) < 0" if "2 ^ 31 \<le> length data \<and> length data < 2 ^ 32"
    using that wrap32_negative [of "int (length data)"] by simp
qed

theorem spi_write_covers_witness:
  "\<exists>log'. run_state (bb_spi_write \<lparr>answer = (\<lambda>_ _. 0), payload = (\<lambda>_ _. [])\<rparr>
      \<lparr>spi_fd = 3, spi_device = [], spi_speed = 1000000, spi_mode = 0, spi_bits = 8\<rparr> (replicate 5000 7)) [] = (5000, log')"
proof -
  let ?dv = "\<lparr>answer = (\<lambda>_ _. 0), payload = (\<lambda>_ _. [])\<rparr>"
  let ?s = "\<lparr>spi_fd = 3, spi_device = [], spi_speed = 1000000, spi_mode = 0, spi_bits = 8\<rparr>"
  have "0 \<le> spi_fd ?s" by simp
  from spi_write_covers [OF this, of ?dv "replicate 5000 7" "[]"] obtain txs rs where
    t: "run_state (bb_spi_write ?dv ?s (replicate 5000 7)) []
        = (if \<forall>r \<in> set rs. 0 \<le> r then wrap32 (int (length (replicate 5000 (7 :: int)))) else -1, [] @ zip (map (spi_msg ?s) txs) rs)"
      "length rs = length txs" "spi_answers ?dv ?s [] txs rs" by blast
  have "\<forall>r \<in> set rs. 0 \<le> r" using t(2,3) by (auto simp: spi_answers_def in_set_conv_nth)
  then show ?thesis using t(1) by (simp add: in_int32_def)
qed

text \<open>
  A combined transfer with nothing to write sends the write message, with length 0, instead of the read
  message: the call succeeds and no byte is read.
\<close>

theorem i2c_read_only_sends_write:
  assumes "0 \<le> i2c_fd i" "0 < rlen"
  shows "\<exists>r. run_state (bb_i2c_write_read dv i addr [] rlen) log
    = (r, log @ [(Ioctl (i2c_fd i) ''I2C_RDWR'' [addr, 0, 0], answer dv log (Ioctl (i2c_fd i) ''I2C_RDWR'' [addr, 0, 0]))])"
  using assms by (simp add: bb_i2c_write_read_def i2c_nmsgs_def i2c_msgs_def)

theorem i2c_read_only_sends_write_witness:
  "\<exists>r log'. run_state (bb_i2c_write_read demo_dv \<lparr>i2c_fd = 3, i2c_device = [], i2c_addr = 0\<rparr> 80 [] 2) []
    = (r, [(Ioctl 3 ''I2C_RDWR'' [80, 0, 0], log')])"
  using i2c_read_only_sends_write [of "\<lparr>i2c_fd = 3, i2c_device = [], i2c_addr = 0\<rparr>" 2 demo_dv 80 "[]"] by auto

text \<open>
  A failed SPI open closes its descriptor and keeps the number in the handle: the close that follows
  closes it a second time.
\<close>

theorem spi_failed_open_closed_twice:
  assumes "sane dv" "ledger log = Some S" and "0 \<le> answer dv log (Open device)"
    and "\<And>l f n a. answer dv l (Ioctl f n a) < 0"
    and "run_state (bb_spi_open device speed mode bits dv) log = ((s, r), log1)"
  shows "r = -1 \<and> ledger log1 = Some S \<and> ledger (snd (run_state (bb_spi_close dv s) log1)) = None"
proof -
  have "answer dv log (Open device) \<notin> S" using sane_open [OF assms(1,2)] .
  then show ?thesis
    using assms by (auto simp: bb_spi_open_def bb_spi_close_def Let_def not_less)
qed

definition deaf_dv :: dev where
  "deaf_dv = \<lparr>answer = (\<lambda>log c. case c of Ioctl f n a \<Rightarrow> -1 | _ \<Rightarrow> demo_answer log c), payload = (\<lambda>_ _. [])\<rparr>"

lemma deaf_sane: "sane deaf_dv"
  unfolding sane_def deaf_dv_def demo_answer_def by (auto dest: ledger_bound)

theorem spi_failed_open_closed_twice_witness:
  "\<exists>s log1. run_state (bb_spi_open ''/dev/spidev1.0'' 1000000 0 8 deaf_dv) [] = ((s, -1), log1)
    \<and> ledger (snd (run_state (bb_spi_close deaf_dv s) log1)) = None"
proof -
  obtain s r log1 where o: "run_state (bb_spi_open ''/dev/spidev1.0'' 1000000 0 8 deaf_dv) [] = ((s, r), log1)"
    by (metis prod.collapse)
  have "0 \<le> answer deaf_dv [] (Open ''/dev/spidev1.0'')" "\<And>l f n a. answer deaf_dv l (Ioctl f n a) < 0"
    by (simp_all add: deaf_dv_def demo_answer_def next_fd_def)
  from spi_failed_open_closed_twice [OF deaf_sane ledger_Nil this o] o show ?thesis by auto
qed

end
