(* ===== verification/BB_Hal_Gpio.thy ===== *)
theory BB_Hal_Gpio
  imports BB_Dev
begin

text \<open>
  GPIO lines, \<open>hal/bb_hal_gpio.c\<close>: the search for the chip of a global number, the character device and
  the sysfs variants, and the public operations that choose between them.
\<close>

datatype bb_gpio_direction_t = BB_GPIO_IN | BB_GPIO_OUT
datatype bb_gpio_edge_t = BB_GPIO_EDGE_NONE | BB_GPIO_EDGE_RISING | BB_GPIO_EDGE_FALLING | BB_GPIO_EDGE_BOTH

record bb_gpio_t =
  g_num :: int
  g_chip_fd :: int
  g_line_fd :: int
  g_line_offset :: int
  g_is_sysfs :: bool
  g_exported :: bool

definition gpiochip :: "int \<Rightarrow> string" where
  "gpiochip i = snprintf 32 (''/dev/gpiochip'' @ dec_int i)"

section \<open>The chip of a number\<close>

text \<open>The chips from number i on; the number of lines is what the information call returns.\<close>

fun gpio_scan :: "dev \<Rightarrow> int list \<Rightarrow> int \<Rightarrow> (int \<times> int) option dio" where
  "gpio_scan dv [] num = give None"
| "gpio_scan dv (i # chips) num = do {
     fd \<leftarrow> act dv (Open (gpiochip i));
     if fd < 0 then gpio_scan dv chips num else do {
       (r, info) \<leftarrow> fetch dv (Ioctl fd ''GPIO_GET_CHIPINFO'' []);
       _ \<leftarrow> act dv (Close fd);
       if r = 0 then
         (if num \<ge> hd (info @ [0]) then gpio_scan dv chips (num - hd (info @ [0])) else give (Some (i, num)))
       else gpio_scan dv chips num } }"

definition gpio_find_chip :: "dev \<Rightarrow> int \<Rightarrow> (int \<times> int) option dio" where
  "gpio_find_chip dv num = gpio_scan dv [0..7] num"

section \<open>Sysfs\<close>

definition gpio_attr :: "int \<Rightarrow> string \<Rightarrow> string" where
  "gpio_attr num attr = snprintf 128 (''/sys/class/gpio/gpio'' @ dec_int num @ ''/'' @ attr)"

definition gpio_has_sysfs :: "dev \<Rightarrow> bool dio" where
  "gpio_has_sysfs dv = do { r \<leftarrow> act dv (StatPath ''/sys/class/gpio''); give (r = 0) }"

definition dir_text :: "bb_gpio_direction_t \<Rightarrow> string" where
  "dir_text d = (case d of BB_GPIO_OUT \<Rightarrow> ''out'' | BB_GPIO_IN \<Rightarrow> ''in'')"

definition gpio_sysfs_set_direction :: "dev \<Rightarrow> bb_gpio_t \<Rightarrow> bb_gpio_direction_t \<Rightarrow> int dio" where
  "gpio_sysfs_set_direction dv g d = do {
     r \<leftarrow> act dv (Sysfs (gpio_attr (g_num g) ''direction'') (dir_text d));
     give (if r < 0 then -1 else 0) }"

definition bb_gpio_set_direction :: "dev \<Rightarrow> bb_gpio_t \<Rightarrow> bb_gpio_direction_t \<Rightarrow> int dio" where
  "bb_gpio_set_direction dv g d = (if g_is_sysfs g then gpio_sysfs_set_direction dv g d else give 0)"

text \<open>The value file, tried again after the line was exported anew.\<close>

definition gpio_reexport :: "dev \<Rightarrow> int \<Rightarrow> unit dio" where
  "gpio_reexport dv num = do {
     _ \<leftarrow> act dv (Sysfs ''/sys/class/gpio/unexport'' (dec_int num));
     _ \<leftarrow> act dv (Sysfs ''/sys/class/gpio/export'' (dec_int num));
     give () }"

definition gpio_open_value :: "dev \<Rightarrow> int \<Rightarrow> int dio" where
  "gpio_open_value dv num = do {
     fd \<leftarrow> act dv (Open (gpio_attr num ''value''));
     if fd < 0 then do { _ \<leftarrow> gpio_reexport dv num; act dv (Open (gpio_attr num ''value'')) } else give fd }"

definition gpio_sysfs_open :: "dev \<Rightarrow> int \<Rightarrow> bb_gpio_direction_t \<Rightarrow> (bb_gpio_t \<times> int) dio" where
  "gpio_sysfs_open dv num d = do {
     let g = \<lparr>g_num = num, g_chip_fd = -1, g_line_fd = -1, g_line_offset = 0, g_is_sysfs = True, g_exported = False\<rparr>;
     e \<leftarrow> act dv (Sysfs ''/sys/class/gpio/export'' (dec_int num));
     if e < 0 then give (g, -1) else do {
       fd \<leftarrow> gpio_open_value dv num;
       if fd < 0 then give (g, -1) else do {
         let g1 = g\<lparr>g_line_fd := fd, g_exported := True\<rparr>;
         r \<leftarrow> bb_gpio_set_direction dv g1 d;
         give (g1, r) } } }"

definition gpio_sysfs_read :: "dev \<Rightarrow> bb_gpio_t \<Rightarrow> int dio" where
  "gpio_sysfs_read dv g = do {
     _ \<leftarrow> act dv (SeekFd (g_line_fd g));
     (n, c) \<leftarrow> fetch dv (ReadFd (g_line_fd g) 1);
     give (if n \<noteq> 1 then -1 else if hd (c @ [0]) = 49 then 1 else 0) }"

definition gpio_sysfs_write :: "dev \<Rightarrow> bb_gpio_t \<Rightarrow> int \<Rightarrow> int dio" where
  "gpio_sysfs_write dv g v = do {
     n \<leftarrow> act dv (WriteFd (g_line_fd g) [if v \<noteq> 0 then 49 else 48]);
     give (if n > 0 then 0 else -1) }"

definition gpio_sysfs_close :: "dev \<Rightarrow> bb_gpio_t \<Rightarrow> bb_gpio_t dio" where
  "gpio_sysfs_close dv g = do {
     g1 \<leftarrow> (if g_line_fd g \<ge> 0 then do { _ \<leftarrow> act dv (Close (g_line_fd g)); give (g\<lparr>g_line_fd := -1\<rparr>) } else give g);
     if g_exported g1 then do {
       _ \<leftarrow> act dv (Sysfs ''/sys/class/gpio/unexport'' (dec_int (g_num g1)));
       give (g1\<lparr>g_exported := False\<rparr>) }
     else give g1 }"

section \<open>Character device\<close>

text \<open>The line request returns the descriptor of the line, or fails.\<close>

definition gpio_v2_open :: "dev \<Rightarrow> bb_gpio_t \<Rightarrow> int \<Rightarrow> bb_gpio_direction_t \<Rightarrow> (bb_gpio_t \<times> int) dio" where
  "gpio_v2_open dv g num d = do {
     c \<leftarrow> gpio_find_chip dv num;
     case c of None \<Rightarrow> give (g, -1)
     | Some (chip, offset) \<Rightarrow> do {
         fd \<leftarrow> act dv (Open (gpiochip chip));
         if fd < 0 then give (g, -1) else do {
           l \<leftarrow> act dv (GetLine fd offset (d = BB_GPIO_OUT));
           if l < 0 then do { _ \<leftarrow> act dv (Close fd); give (g, -1) }
           else give (\<lparr>g_num = num, g_chip_fd = fd, g_line_fd = l, g_line_offset = offset,
                       g_is_sysfs = False, g_exported = False\<rparr>, 0) } } }"

definition gpio_v2_read :: "dev \<Rightarrow> bb_gpio_t \<Rightarrow> int dio" where
  "gpio_v2_read dv g = do {
     (r, bits) \<leftarrow> fetch dv (Ioctl (g_line_fd g) ''GPIO_V2_LINE_GET_VALUES'' [0, 1]);
     give (if r < 0 then -1 else if odd (hd (bits @ [0])) then 1 else 0) }"

definition gpio_v2_write :: "dev \<Rightarrow> bb_gpio_t \<Rightarrow> int \<Rightarrow> int dio" where
  "gpio_v2_write dv g v = do {
     r \<leftarrow> act dv (Ioctl (g_line_fd g) ''GPIO_V2_LINE_SET_VALUES'' [if v \<noteq> 0 then 1 else 0, 1]);
     give (if r < 0 then -1 else 0) }"

definition gpio_v2_close :: "dev \<Rightarrow> bb_gpio_t \<Rightarrow> bb_gpio_t dio" where
  "gpio_v2_close dv g = do {
     g1 \<leftarrow> (if g_line_fd g \<ge> 0 then do { _ \<leftarrow> act dv (Close (g_line_fd g)); give (g\<lparr>g_line_fd := -1\<rparr>) } else give g);
     if g_chip_fd g1 \<ge> 0 then do { _ \<leftarrow> act dv (Close (g_chip_fd g1)); give (g1\<lparr>g_chip_fd := -1\<rparr>) } else give g1 }"

section \<open>Public operations\<close>

definition bb_gpio_open :: "int \<Rightarrow> bb_gpio_direction_t \<Rightarrow> dev \<Rightarrow> (bb_gpio_t \<times> int) dio" where
  "bb_gpio_open num d dv = do {
     let g = \<lparr>g_num = 0, g_chip_fd = -1, g_line_fd = -1, g_line_offset = 0, g_is_sysfs = False, g_exported = False\<rparr>;
     s \<leftarrow> gpio_has_sysfs dv;
     if \<not> s then gpio_v2_open dv g num d else gpio_sysfs_open dv num d }"

definition bb_gpio_read :: "dev \<Rightarrow> bb_gpio_t \<Rightarrow> int dio" where
  "bb_gpio_read dv g = (if g_is_sysfs g then gpio_sysfs_read dv g else gpio_v2_read dv g)"

definition bb_gpio_write :: "dev \<Rightarrow> bb_gpio_t \<Rightarrow> int \<Rightarrow> int dio" where
  "bb_gpio_write dv g v = (if g_is_sysfs g then gpio_sysfs_write dv g v else gpio_v2_write dv g v)"

fun edge_text :: "bb_gpio_edge_t \<Rightarrow> string" where
  "edge_text BB_GPIO_EDGE_NONE = ''none''"
| "edge_text BB_GPIO_EDGE_RISING = ''rising''"
| "edge_text BB_GPIO_EDGE_FALLING = ''falling''"
| "edge_text BB_GPIO_EDGE_BOTH = ''both''"

definition bb_gpio_set_edge :: "dev \<Rightarrow> bb_gpio_t \<Rightarrow> bb_gpio_edge_t \<Rightarrow> int dio" where
  "bb_gpio_set_edge dv g e =
    (if g_is_sysfs g then do {
       r \<leftarrow> act dv (Sysfs (gpio_attr (g_num g) ''edge'') (edge_text e));
       give (if r < 0 then -1 else 0) }
     else give (-1))"

definition bb_gpio_poll :: "dev \<Rightarrow> bb_gpio_t \<Rightarrow> int \<Rightarrow> int dio" where
  "bb_gpio_poll dv g timeout =
    (if g_line_fd g < 0 then give (-1)
     else if g_is_sysfs g then do {
       r \<leftarrow> act dv (PollFd (g_line_fd g) ''POLLPRI|POLLERR'' timeout);
       if r > 0 then do {
         _ \<leftarrow> act dv (SeekFd (g_line_fd g));
         _ \<leftarrow> act dv (ReadFd (g_line_fd g) 1);
         bb_gpio_read dv g }
       else give r }
     else act dv (PollFd (g_line_fd g) ''POLLIN|POLLPRI'' timeout))"

definition bb_gpio_close :: "dev \<Rightarrow> bb_gpio_t \<Rightarrow> bb_gpio_t dio" where
  "bb_gpio_close dv g = (if g_is_sysfs g then gpio_sysfs_close dv g else gpio_v2_close dv g)"

section \<open>Numbering\<close>

text \<open>
  The chips by their line counts, None for one that is missing or gives no information: the chip and
  offset of a global number when the chips that answer are numbered one after the other.
\<close>

fun chip_of :: "int \<Rightarrow> (int \<times> int option) list \<Rightarrow> (int \<times> int) option" where
  "chip_of num [] = None"
| "chip_of num ((i, None) # cs) = chip_of num cs"
| "chip_of num ((i, Some n) # cs) = (if num < n then Some (i, num) else chip_of (num - n) cs)"

text \<open>A machine whose chip i has lines i lines, when it is there.\<close>

definition has_chips :: "(int \<Rightarrow> int option) \<Rightarrow> dev \<Rightarrow> bool" where
  "has_chips lines dv \<longleftrightarrow> (\<forall>log i. i \<in> {0..7} \<longrightarrow>
     (lines i = None \<longrightarrow> answer dv log (Open (gpiochip i)) < 0)
     \<and> (\<forall>n fd. lines i = Some n \<and> fd = answer dv log (Open (gpiochip i)) \<longrightarrow> 0 \<le> fd
         \<and> (\<forall>log1. log1 = log @ [(Open (gpiochip i), fd)] \<longrightarrow>
             answer dv log1 (Ioctl fd ''GPIO_GET_CHIPINFO'' []) = 0 \<and> payload dv log1 (Ioctl fd ''GPIO_GET_CHIPINFO'' []) = [n])))"

lemma gpio_scan_finds:
  assumes "has_chips lines dv" "set chips \<subseteq> {0..7}"
  shows "fst (run_state (gpio_scan dv chips num) log) = chip_of num (map (\<lambda>i. (i, lines i)) chips)"
  using assms(2)
proof (induction chips arbitrary: num log)
  case (Cons i chips)
  have i: "i \<in> {0..7}" and cs: "set chips \<subseteq> {0..7}" using Cons.prems by auto
  show ?case
  proof (cases "lines i")
    case None
    then have "answer dv log (Open (gpiochip i)) < 0" using assms(1) i unfolding has_chips_def by blast
    then show ?thesis using Cons.IH [OF cs] None by simp
  next
    case (Some n)
    let ?fd = "answer dv log (Open (gpiochip i))" and ?c = "\<lambda>fd. Ioctl fd ''GPIO_GET_CHIPINFO'' []"
    have "0 \<le> ?fd" "answer dv (log @ [(Open (gpiochip i), ?fd)]) (?c ?fd) = 0"
      "payload dv (log @ [(Open (gpiochip i), ?fd)]) (?c ?fd) = [n]"
      using assms(1) i Some unfolding has_chips_def by blast+
    then show ?thesis using Cons.IH [OF cs] Some by (simp add: not_less)
  qed
qed simp

lemma chip_of_offset:
  "chip_of num (map (\<lambda>i. (i, Some (n i))) cs) = Some (c, off) \<Longrightarrow> 0 \<le> num \<Longrightarrow>
    \<exists>as bs. cs = as @ c # bs \<and> num = (\<Sum>i \<leftarrow> as. n i) + off \<and> 0 \<le> off \<and> off < n c"
proof (induction cs arbitrary: num)
  case (Cons i cs)
  show ?case
  proof (cases "num < n i")
    case True
    then show ?thesis using Cons.prems by (intro exI [of _ "[]"] exI [of _ cs]) auto
  next
    case False
    then obtain as bs where ab: "cs = as @ c # bs" "num - n i = (\<Sum>i \<leftarrow> as. n i) + off" "0 \<le> off" "off < n c"
      using Cons.IH [of "num - n i"] Cons.prems by auto
    then show ?thesis by (intro exI [of _ "i # as"] exI [of _ bs]) auto
  qed
qed simp

text \<open>
  On a machine whose eight chips all answer, the chip and offset found for a global line number are
  those of the kernel's numbering: the number is the offset plus the lines of the chips before it, and
  no other chip was taken. A chip that is missing is passed over without its lines being counted.
\<close>

theorem gpio_find_chip_numbering:
  assumes "has_chips (\<lambda>i. Some (n i)) dv" "0 \<le> num"
    and "fst (run_state (gpio_find_chip dv num) log) = Some (chip, off)"
  shows "chip \<in> {0..7} \<and> 0 \<le> off \<and> off < n chip \<and> num = (\<Sum>i \<leftarrow> [0..chip - 1]. n i) + off"
proof -
  have "chip_of num (map (\<lambda>i. (i, Some (n i))) [0..7]) = Some (chip, off)"
    using assms(3) gpio_scan_finds [OF assms(1), of "[0..7]" num log] by (simp add: gpio_find_chip_def)
  from chip_of_offset [OF this assms(2)] obtain as bs where
    ab: "[0..7] = as @ chip # bs" "num = (\<Sum>i \<leftarrow> as. n i) + off" "0 \<le> off" "off < n chip" by blast
  have len: "length as < 8"
    using arg_cong [OF ab(1), of length] by simp
  have chip: "chip = int (length as)"
    using len arg_cong [OF ab(1), of "\<lambda>xs. xs ! length as"] by (simp add: nth_upto)
  have "as = take (length as) [0..7]" using ab(1) by (metis append_eq_conv_conj)
  also have "\<dots> = [0..chip - 1]"
    using len chip by (intro nth_equalityI) (auto simp: nth_upto)
  finally show ?thesis using ab len chip by auto
qed

text \<open>Three chips of 32 lines: line 70 is offset 6 of the third.\<close>

definition chips_dv :: dev where
  "chips_dv = \<lparr>answer = demo_answer, payload = (\<lambda>_ c. case c of Ioctl f n a \<Rightarrow> [32] | _ \<Rightarrow> [])\<rparr>"

lemma chips_dv_has: "has_chips (\<lambda>i. Some 32) chips_dv"
  by (simp add: has_chips_def chips_dv_def demo_answer_def order_trans [OF _ next_fd_pos])

theorem gpio_find_chip_numbering_witness:
  "fst (run_state (gpio_find_chip chips_dv 70) []) = Some (2, 6) \<and> (70 :: int) = (\<Sum>i \<leftarrow> [0..1]. 32) + 6"
proof -
  have "fst (run_state (gpio_find_chip chips_dv 70) []) = chip_of 70 (map (\<lambda>i. (i, Some 32)) [0..7])"
    using gpio_scan_finds [OF chips_dv_has, of "[0..7]" 70 "[]"] by (simp add: gpio_find_chip_def)
  also have "\<dots> = Some (2, 6)" by (simp add: upto_rec1)
  finally have f: "fst (run_state (gpio_find_chip chips_dv 70) []) = Some (2, 6)" .
  then show ?thesis using gpio_find_chip_numbering [OF chips_dv_has _ f] by simp
qed

section \<open>Descriptors\<close>

definition gpio_good :: "bb_gpio_t \<Rightarrow> bool" where
  "gpio_good g \<longleftrightarrow> (g_is_sysfs g \<longrightarrow> g_chip_fd g < 0) \<and> (g_line_fd g \<ge> 0 \<longrightarrow> g_line_fd g \<noteq> g_chip_fd g)"

definition gpio_held :: "bb_gpio_t \<Rightarrow> int set" where
  "gpio_held g = fd_set (g_line_fd g) \<union> fd_set (g_chip_fd g)"

lemma gpio_scan_balanced:
  "sane dv \<Longrightarrow> ledger log = Some S \<Longrightarrow> ledger (snd (run_state (gpio_scan dv chips num) log)) = Some S"
proof (induction chips arbitrary: num log)
  case (Cons i chips)
  then show ?case using sane_open [OF Cons.prems, of "gpiochip i"] by (auto simp: Let_def)
qed simp

lemma gpio_v2_open_fds:
  assumes "sane dv" "ledger log = Some S" "g_line_fd g = -1" "g_chip_fd g = -1" "\<not> g_is_sysfs g"
    and "run_state (gpio_v2_open dv g num d) log = ((g', r), log')"
  shows "ledger log' = Some (S \<union> gpio_held g') \<and> S \<inter> gpio_held g' = {} \<and> gpio_good g'"
proof -
  obtain c log1 where c: "run_state (gpio_find_chip dv num) log = (c, log1)" by fastforce
  have l1: "ledger log1 = Some S" using gpio_scan_balanced [OF assms(1,2), of "[0..7]" num] c by (simp add: gpio_find_chip_def)
  show ?thesis
  proof (cases c)
    case None
    then show ?thesis using assms(3-6) c l1 by (auto simp: gpio_v2_open_def gpio_held_def gpio_good_def fd_set_def)
  next
    case (Some co)
    obtain chip off where co: "co = (chip, off)" by fastforce
    let ?o = "Open (gpiochip chip)" and ?fd = "answer dv log1 (Open (gpiochip chip))"
    have fd: "?fd \<notin> S" by (rule sane_open [OF assms(1) l1])
    show ?thesis
    proof (cases "?fd < 0")
      case True
      then show ?thesis using assms(3-6) c l1 Some co by (auto simp: gpio_v2_open_def gpio_held_def gpio_good_def fd_set_def)
    next
      case False
      have l2: "ledger (log1 @ [(?o, ?fd)]) = Some (insert ?fd S)" using l1 False by simp
      have l: "answer dv (log1 @ [(?o, ?fd)]) (GetLine ?fd off (d = BB_GPIO_OUT)) \<notin> insert ?fd S"
        by (rule sane_line [OF assms(1) l2])
      show ?thesis
        using assms(3-6) c l1 Some co False fd l
        by (auto simp: gpio_v2_open_def gpio_held_def gpio_good_def fd_set_def split: if_splits)
    qed
  qed
qed

lemma open_fds:
  "sane dv \<Longrightarrow> ledger log = Some S \<Longrightarrow> run_state (act dv (Open p)) log = (fd, log') \<Longrightarrow>
    fd \<notin> S \<and> ledger log' = Some (S \<union> fd_set fd)"
  using sane_open [of dv log S p] by (auto simp: fd_set_def)

lemma open_value_fds:
  assumes "sane dv" "ledger log = Some S" "run_state (gpio_open_value dv num) log = (fd, log')"
  shows "fd \<notin> S \<and> ledger log' = Some (S \<union> fd_set fd)"
proof -
  obtain fd1 l1 where 1: "run_state (act dv (Open (gpio_attr num ''value''))) log = (fd1, l1)" by fastforce
  note f1 = open_fds [OF assms(1,2) 1]
  obtain l2 where 2: "run_state (gpio_reexport dv num) l1 = ((), l2)"
    by (cases "run_state (gpio_reexport dv num) l1") auto
  have n: "neutral (gpio_reexport dv num)" unfolding gpio_reexport_def by (intro neutral_rules) simp_all
  show ?thesis
  proof (cases "fd1 < 0")
    case True
    then have "ledger l2 = Some S" using f1 2 n unfolding neutral_def fd_set_def by (metis not_le snd_conv sup_bot_right)
    moreover have "run_state (act dv (Open (gpio_attr num ''value''))) l2 = (fd, log')"
      using assms(3) 1 2 True by (simp add: gpio_open_value_def del: run_act)
    ultimately show ?thesis by (rule open_fds [OF assms(1)])
  next
    case False
    then show ?thesis using assms(3) 1 f1 by (simp add: gpio_open_value_def del: run_act)
  qed
qed

lemma gpio_sysfs_open_fds:
  assumes "sane dv" "ledger log = Some S" and "run_state (gpio_sysfs_open dv num d) log = ((g', r), log')"
  shows "ledger log' = Some (S \<union> gpio_held g') \<and> S \<inter> gpio_held g' = {} \<and> gpio_good g'"
proof -
  let ?x = "Sysfs ''/sys/class/gpio/export'' (dec_int num)"
  let ?l = "log @ [(?x, answer dv log ?x)]"
  have l: "ledger ?l = Some S" using assms(2) by simp
  obtain fd l1 where v: "run_state (gpio_open_value dv num) ?l = (fd, l1)" by fastforce
  note fd = open_value_fds [OF assms(1) l v]
  show ?thesis
    using assms(3) l v fd
    by (auto simp: gpio_sysfs_open_def bb_gpio_set_direction_def gpio_sysfs_set_direction_def Let_def
        gpio_held_def gpio_good_def fd_set_def split: if_splits)
qed

interpretation gpio: fd_device "bb_gpio_open num d" bb_gpio_close gpio_held gpio_good for num d
proof
  fix dv log S g r log'
  assume a: "sane dv" "ledger log = Some S" "run_state (bb_gpio_open num d dv) log = ((g, r), log')"
  let ?l = "log @ [(StatPath ''/sys/class/gpio'', answer dv log (StatPath ''/sys/class/gpio''))]"
  have l: "ledger ?l = Some S" using a(2) by simp
  let ?g = "\<lparr>g_num = 0, g_chip_fd = -1, g_line_fd = -1, g_line_offset = 0, g_is_sysfs = False, g_exported = False\<rparr>"
  have "run_state (gpio_v2_open dv ?g num d) ?l = ((g, r), log') \<or> run_state (gpio_sysfs_open dv num d) ?l = ((g, r), log')"
    using a(3) by (auto simp: bb_gpio_open_def gpio_has_sysfs_def split: if_splits)
  then show "ledger log' = Some (S \<union> gpio_held g) \<and> S \<inter> gpio_held g = {} \<and> gpio_good g"
    using gpio_v2_open_fds [OF a(1) l, of ?g num d g r log'] gpio_sysfs_open_fds [OF a(1) l, of num d g r log']
    by (elim disjE) simp_all
next
  fix g log S dv g' log'
  assume "gpio_good g" "ledger log = Some (S \<union> gpio_held g)" "S \<inter> gpio_held g = {}"
    "run_state (bb_gpio_close dv g) log = (g', log')"
  then show "ledger log' = Some S \<and> gpio_held g' = {} \<and> gpio_good g'"
    by (auto simp: bb_gpio_close_def gpio_sysfs_close_def gpio_v2_close_def gpio_good_def gpio_held_def fd_set_def
        not_le insert_Diff_if split: if_splits)
qed

lemma gpio_ops_neutral [neutral_rules]:
  "neutral (bb_gpio_set_direction dv g d)" "neutral (bb_gpio_read dv g)" "neutral (bb_gpio_write dv g v)"
  "neutral (bb_gpio_set_edge dv g e)" "neutral (bb_gpio_poll dv g t)"
  unfolding bb_gpio_set_direction_def gpio_sysfs_set_direction_def bb_gpio_read_def gpio_sysfs_read_def gpio_v2_read_def
    bb_gpio_write_def gpio_sysfs_write_def gpio_v2_write_def bb_gpio_set_edge_def bb_gpio_poll_def
  by (auto intro!: neutral_rules split: prod.split)

text \<open>
  C21. A GPIO handle gives back what it opened: a line is opened by the character device or by sysfs, with
  whatever failures on the way, used, and closed twice, and the open descriptors are what they were; a
  chip looked at in the search is never left open.
\<close>

theorem gpio_session_balanced:
  assumes "sane dv" "ledger log = Some S"
    and "run_state (bb_gpio_open num d dv) log = ((g, r), log1)"
    and "run_state (bb_gpio_write dv g v) log1 = (w, log2)"
    and "run_state (bb_gpio_close dv g) log2 = (g1, log3)" "run_state (bb_gpio_close dv g1) log3 = (g2, log4)"
  shows "ledger log1 = Some (S \<union> gpio_held g) \<and> ledger log3 = Some S \<and> ledger log4 = Some S"
  using gpio.session [OF assms(1-3) gpio_ops_neutral(3), of dv g v log2] gpio.opn_fds [OF assms(1-3)] assms(4-6)
  by auto

theorem gpio_session_balanced_witness:
  "let ((g, r), l1) = run_state (bb_gpio_open 70 BB_GPIO_OUT chips_dv) []; (w, l2) = run_state (bb_gpio_write chips_dv g 1) l1;
       (g1, l3) = run_state (bb_gpio_close chips_dv g) l2 in ledger l3 = Some {}"
proof -
  obtain g r l1 w l2 g1 l3 g2 l4 where runs: "run_state (bb_gpio_open 70 BB_GPIO_OUT chips_dv) [] = ((g, r), l1)"
    "run_state (bb_gpio_write chips_dv g 1) l1 = (w, l2)" "run_state (bb_gpio_close chips_dv g) l2 = (g1, l3)"
    "run_state (bb_gpio_close chips_dv g1) l3 = (g2, l4)" by (metis prod.collapse)
  have "sane chips_dv" by (simp add: chips_dv_def demo_sane)
  from gpio_session_balanced [OF this ledger_Nil runs] show ?thesis by (simp add: runs)
qed

end
