(* ===== verification/BB_Hal_Uart.thy ===== *)
theory BB_Hal_Uart
  imports BB_Dev
begin

text \<open>
  Serial ports, \<open>hal/bb_hal_uart.c\<close>: the terminal settings as the words of \<open>struct termios\<close>, with the
  bit values of the Linux headers, and the operations on the port.
\<close>

record termios =
  c_iflag :: "32 word"
  c_oflag :: "32 word"
  c_cflag :: "32 word"
  c_lflag :: "32 word"
  c_vmin :: int
  c_vtime :: int
  c_ospeed :: int
  c_ispeed :: int

definition termios_of :: "int list \<Rightarrow> termios" where
  "termios_of xs = \<lparr>c_iflag = word_of_int (xs ! 0), c_oflag = word_of_int (xs ! 1), c_cflag = word_of_int (xs ! 2),
     c_lflag = word_of_int (xs ! 3), c_vmin = xs ! 4, c_vtime = xs ! 5, c_ospeed = xs ! 6, c_ispeed = xs ! 7\<rparr>"

definition of_termios :: "termios \<Rightarrow> int list" where
  "of_termios t = [uint (c_iflag t), uint (c_oflag t), uint (c_cflag t), uint (c_lflag t), c_vmin t, c_vtime t,
     c_ospeed t, c_ispeed t]"

definition CLOCAL :: "32 word" where "CLOCAL = 0x800"
definition CREAD :: "32 word" where "CREAD = 0x80"
definition PARENB :: "32 word" where "PARENB = 0x100"
definition PARODD :: "32 word" where "PARODD = 0x200"
definition CSTOPB :: "32 word" where "CSTOPB = 0x40"
definition CSIZE :: "32 word" where "CSIZE = 0x30"
definition CS8 :: "32 word" where "CS8 = 0x30"
definition ICANON_ECHO_ISIG :: "32 word" where "ICANON_ECHO_ISIG = 0x2 OR 0x8 OR 0x10 OR 0x1"
definition IXON_IXOFF_IXANY :: "32 word" where "IXON_IXOFF_IXANY = 0x400 OR 0x1000 OR 0x800"
definition OPOST :: "32 word" where "OPOST = 0x1"

lemmas tty_bits = CLOCAL_def CREAD_def PARENB_def PARODD_def CSTOPB_def CSIZE_def CS8_def
  ICANON_ECHO_ISIG_def IXON_IXOFF_IXANY_def OPOST_def

record bb_uart_t =
  uart_fd :: int
  uart_device :: string

datatype bb_uart_parity_t = BB_UART_PARITY_NONE | BB_UART_PARITY_ODD | BB_UART_PARITY_EVEN

text \<open>Eight data bits, no parity, one stop bit, raw; reads return after 100 ms.\<close>

definition raw_8n1 :: "termios \<Rightarrow> termios" where
  "raw_8n1 t = t\<lparr>c_ospeed := 115200, c_ispeed := 115200,
     c_cflag := ((((c_cflag t OR (CLOCAL OR CREAD)) AND NOT PARENB) AND NOT CSTOPB) AND NOT CSIZE) OR CS8,
     c_lflag := c_lflag t AND NOT ICANON_ECHO_ISIG, c_iflag := c_iflag t AND NOT IXON_IXOFF_IXANY,
     c_oflag := c_oflag t AND NOT OPOST, c_vmin := 0, c_vtime := 1\<rparr>"

definition known_baud :: "int \<Rightarrow> bool" where
  "known_baud b \<longleftrightarrow> b \<in> {9600, 19200, 38400, 57600, 115200, 230400, 460800, 921600}"

definition tcgetattr :: "dev \<Rightarrow> int \<Rightarrow> (int \<times> termios) dio" where
  "tcgetattr dv fd = do { (r, xs) \<leftarrow> fetch dv (Ioctl fd ''TCGETS'' []); give (r, termios_of xs) }"

definition tcsetattr :: "dev \<Rightarrow> int \<Rightarrow> termios \<Rightarrow> int dio" where
  "tcsetattr dv fd t = act dv (Ioctl fd ''TCSETS'' (of_termios t))"

definition bb_uart_set_baud :: "dev \<Rightarrow> bb_uart_t \<Rightarrow> int \<Rightarrow> int dio" where
  "bb_uart_set_baud dv u baud =
    (if uart_fd u < 0 then give (-1)
     else do { (r, t) \<leftarrow> tcgetattr dv (uart_fd u);
               if r < 0 then give (-1)
               else if \<not> known_baud baud then give (-1)
               else tcsetattr dv (uart_fd u) (t\<lparr>c_ospeed := baud, c_ispeed := baud\<rparr>) })"

definition bb_uart_open :: "string \<Rightarrow> int \<Rightarrow> dev \<Rightarrow> (bb_uart_t \<times> int) dio" where
  "bb_uart_open device baud dv = do {
     fd \<leftarrow> act dv (Open device);
     let u = \<lparr>uart_fd = fd, uart_device = take 63 device\<rparr>;
     if fd < 0 then give (u, -1) else do {
       (r, t) \<leftarrow> tcgetattr dv fd;
       if r < 0 then do { _ \<leftarrow> act dv (Close fd); give (u, -1) } else do {
         w \<leftarrow> tcsetattr dv fd (raw_8n1 t);
         if w < 0 then do { _ \<leftarrow> act dv (Close fd); give (u, -1) } else do {
           b \<leftarrow> bb_uart_set_baud dv u baud;
           give (u, b) } } } }"

fun with_parity :: "bb_uart_parity_t \<Rightarrow> 32 word \<Rightarrow> 32 word" where
  "with_parity BB_UART_PARITY_NONE f = f AND NOT PARENB"
| "with_parity BB_UART_PARITY_ODD f = f OR (PARENB OR PARODD)"
| "with_parity BB_UART_PARITY_EVEN f = (f OR PARENB) AND NOT PARODD"

definition bb_uart_set_parity :: "dev \<Rightarrow> bb_uart_t \<Rightarrow> bb_uart_parity_t \<Rightarrow> int dio" where
  "bb_uart_set_parity dv u parity =
    (if uart_fd u < 0 then give (-1)
     else do { (r, t) \<leftarrow> tcgetattr dv (uart_fd u);
               if r < 0 then give (-1)
               else tcsetattr dv (uart_fd u) (t\<lparr>c_cflag := with_parity parity (c_cflag t)\<rparr>) })"

definition bb_uart_write :: "dev \<Rightarrow> bb_uart_t \<Rightarrow> int list \<Rightarrow> int dio" where
  "bb_uart_write dv u data =
    (if uart_fd u < 0 then give (-1)
     else do { n \<leftarrow> act dv (WriteFd (uart_fd u) data); give (if n = int (length data) then 0 else -1) })"

text \<open>again tells whether a failed read was EAGAIN.\<close>

definition bb_uart_read :: "dev \<Rightarrow> bool \<Rightarrow> bb_uart_t \<Rightarrow> nat \<Rightarrow> int \<Rightarrow> (int \<times> int list) dio" where
  "bb_uart_read dv again u len timeout =
    (if uart_fd u < 0 then give (-1, [])
     else do { s \<leftarrow> act dv (SelectFd (uart_fd u) timeout);
               if s \<le> 0 then give (0, [])
               else do { (n, xs) \<leftarrow> fetch dv (ReadFd (uart_fd u) len);
                         give (if n < 0 \<and> again then 0 else n, xs) } })"

definition bb_uart_available :: "dev \<Rightarrow> bb_uart_t \<Rightarrow> int dio" where
  "bb_uart_available dv u =
    (if uart_fd u < 0 then give (-1)
     else do { (r, n) \<leftarrow> fetch dv (Ioctl (uart_fd u) ''FIONREAD'' []); give (hd (n @ [0])) })"

definition bb_uart_close :: "dev \<Rightarrow> bb_uart_t \<Rightarrow> bb_uart_t dio" where
  "bb_uart_close dv u =
    (if uart_fd u \<ge> 0 then do { _ \<leftarrow> act dv (Close (uart_fd u)); give (u\<lparr>uart_fd := -1\<rparr>) } else give u)"

section \<open>The settings\<close>

lemma tty_bit: "bit PARENB n \<longleftrightarrow> n = 8" "bit PARODD n \<longleftrightarrow> n = 9"
proof -
  have p: "PARENB = 2 ^ 8" "PARODD = 2 ^ 9" by (simp_all add: tty_bits)
  show "bit PARENB n \<longleftrightarrow> n = 8" "bit PARODD n \<longleftrightarrow> n = 9"
    unfolding p bit_exp_iff by (auto simp: possible_bit_word)
qed

lemma and_bit_zero: "bit f n \<Longrightarrow> bit g n \<Longrightarrow> (f :: 32 word) AND g \<noteq> 0"
  by (metis bit_0_eq bit_and_iff bot_apply bot_bool_def)

lemma parity_bits:
  "p = BB_UART_PARITY_NONE \<longleftrightarrow> with_parity p f AND PARENB = 0"
  "p = BB_UART_PARITY_ODD \<Longrightarrow> with_parity p f AND PARODD = PARODD"
  "p = BB_UART_PARITY_EVEN \<Longrightarrow> with_parity p f AND PARODD = 0"
  "with_parity p f AND NOT (PARENB OR PARODD) = f AND NOT (PARENB OR PARODD)"
proof -
  have en: "bit (with_parity p f) 8" if "p \<noteq> BB_UART_PARITY_NONE"
    using that by (cases p) (auto simp: bit_or_iff bit_and_iff bit_not_iff tty_bit)
  show "p = BB_UART_PARITY_NONE \<longleftrightarrow> with_parity p f AND PARENB = 0"
  proof
    assume "p = BB_UART_PARITY_NONE"
    then show "with_parity p f AND PARENB = 0"
      by (intro bit_word_eqI) (simp add: bit_and_iff bit_not_iff)
  next
    assume "with_parity p f AND PARENB = 0"
    then show "p = BB_UART_PARITY_NONE" using en and_bit_zero [of "with_parity p f" 8 PARENB] by (auto simp: tty_bit)
  qed
  show "p = BB_UART_PARITY_ODD \<Longrightarrow> with_parity p f AND PARODD = PARODD"
    by (intro bit_word_eqI) (auto simp: bit_and_iff bit_or_iff)
  show "p = BB_UART_PARITY_EVEN \<Longrightarrow> with_parity p f AND PARODD = 0"
    by (intro bit_word_eqI) (auto simp: bit_and_iff bit_or_iff bit_not_iff)
  show "with_parity p f AND NOT (PARENB OR PARODD) = f AND NOT (PARENB OR PARODD)"
    by (intro bit_word_eqI, cases p) (auto simp: bit_and_iff bit_or_iff bit_not_iff)
qed

text \<open>
  The parity set is the parity asked for: the enable bit exactly when there is one, the odd bit for odd
  and not for even parity; no other bit of the control flags changes.
\<close>

theorem uart_parity_set:
  assumes "0 \<le> uart_fd u" and "run_state (tcgetattr dv (uart_fd u)) log = ((r, t), log1)" "0 \<le> r"
    and "run_state (bb_uart_set_parity dv u p) log = (w, log2)"
  shows "\<exists>f. log2 = log1 @ [(Ioctl (uart_fd u) ''TCSETS'' (of_termios (t\<lparr>c_cflag := f\<rparr>)), w)]
    \<and> (p = BB_UART_PARITY_NONE \<longleftrightarrow> f AND PARENB = 0)
    \<and> (p = BB_UART_PARITY_ODD \<longrightarrow> f AND PARODD = PARODD) \<and> (p = BB_UART_PARITY_EVEN \<longrightarrow> f AND PARODD = 0)
    \<and> f AND NOT (PARENB OR PARODD) = c_cflag t AND NOT (PARENB OR PARODD)"
proof -
  have "run_state (bb_uart_set_parity dv u p) log =
      run_state (tcsetattr dv (uart_fd u) (t\<lparr>c_cflag := with_parity p (c_cflag t)\<rparr>)) log1"
    using assms(1-3) by (simp add: bb_uart_set_parity_def)
  then have "log2 = log1 @ [(Ioctl (uart_fd u) ''TCSETS'' (of_termios (t\<lparr>c_cflag := with_parity p (c_cflag t)\<rparr>)), w)]"
    using assms(4) by (auto simp: tcsetattr_def)
  then show ?thesis using parity_bits [of p "c_cflag t"] by blast
qed

definition tty_dv :: dev where
  "tty_dv = \<lparr>answer = demo_answer, payload = (\<lambda>_ c. [0, 0, 0xCB0, 0, 0, 1, 115200, 115200])\<rparr>"

theorem uart_parity_set_witness:
  "\<exists>f w log2. run_state (bb_uart_set_parity tty_dv \<lparr>uart_fd = 3, uart_device = []\<rparr> BB_UART_PARITY_ODD) [] = (w, log2)
    \<and> f AND PARODD = PARODD \<and> fst (last log2) = Ioctl 3 ''TCSETS'' (of_termios
        (termios_of [0, 0, 0xCB0, 0, 0, 1, 115200, 115200]\<lparr>c_cflag := f\<rparr>))"
proof -
  let ?u = "\<lparr>uart_fd = 3, uart_device = []\<rparr>"
  obtain w log2 where run: "run_state (bb_uart_set_parity tty_dv ?u BB_UART_PARITY_ODD) [] = (w, log2)" by fastforce
  have "run_state (tcgetattr tty_dv (uart_fd ?u)) [] =
      ((0, termios_of [0, 0, 0xCB0, 0, 0, 1, 115200, 115200]), [(Ioctl 3 ''TCGETS'' [], 0)])"
    by (simp add: tcgetattr_def tty_dv_def demo_answer_def)
  from uart_parity_set [OF _ this _ run] obtain f where
    "log2 = [(Ioctl 3 ''TCGETS'' [], 0)] @ [(Ioctl (uart_fd ?u) ''TCSETS''
        (of_termios (termios_of [0, 0, 0xCB0, 0, 0, 1, 115200, 115200]\<lparr>c_cflag := f\<rparr>)), w)]"
    "f AND PARODD = PARODD" by auto
  then show ?thesis using run by auto
qed

section \<open>Failed opens\<close>

text \<open>
  Opening a port goes wrong in two ways. When the settings cannot be read, the descriptor is closed but
  stays in the handle, and the close that follows closes it again; when only the baud rate is not one
  of the known ones, the result is -1 and the port stays open.
\<close>

theorem uart_failed_open:
  assumes "sane dv" "ledger log = Some S" and "fd = answer dv log (Open device)" "0 \<le> fd"
    and "run_state (bb_uart_open device baud dv) log = ((u, r), log1)"
  shows "((\<forall>l a. answer dv l (Ioctl fd ''TCGETS'' a) < 0) \<longrightarrow>
      r = -1 \<and> ledger log1 = Some S \<and> ledger (snd (run_state (bb_uart_close dv u) log1)) = None)
    \<and> ((\<forall>l n a. 0 \<le> answer dv l (Ioctl fd n a)) \<and> \<not> known_baud baud \<longrightarrow>
      r = -1 \<and> ledger log1 = Some (insert fd S) \<and> uart_fd u = fd)"
proof -
  note d = bb_uart_open_def bb_uart_close_def bb_uart_set_baud_def tcgetattr_def tcsetattr_def
  have new: "fd \<notin> S" using sane_open [OF assms(1,2)] assms(3) by blast
  show ?thesis
  proof (intro conjI impI)
    assume neg: "\<forall>l a. answer dv l (Ioctl fd ''TCGETS'' a) < 0"
    then show "r = -1" "ledger log1 = Some S" "ledger (snd (run_state (bb_uart_close dv u) log1)) = None"
      using assms new by (auto simp: d Let_def)
  next
    assume pos: "(\<forall>l n a. 0 \<le> answer dv l (Ioctl fd n a)) \<and> \<not> known_baud baud"
    then have no: "(answer dv l (Ioctl fd n a) < 0) = False" for l n a by (simp add: not_less)
    show "r = -1" "ledger log1 = Some (insert fd S)" "uart_fd u = fd"
      using assms(2,4,5) new no pos unfolding assms(3) [symmetric]
      by (auto simp: d Let_def assms(3) [symmetric])
  qed
qed

theorem uart_failed_open_witness:
  "\<exists>u log1. run_state (bb_uart_open ''/dev/ttymxc0'' 12345 tty_dv) [] = ((u, -1), log1) \<and> ledger log1 = Some {3}"
proof -
  obtain u r log1 where run: "run_state (bb_uart_open ''/dev/ttymxc0'' 12345 tty_dv) [] = ((u, r), log1)"
    by (metis prod.collapse)
  have fd: "3 = answer tty_dv [] (Open ''/dev/ttymxc0'')" by (simp add: tty_dv_def demo_answer_def next_fd_def)
  have "sane tty_dv" by (simp add: tty_dv_def demo_sane)
  from uart_failed_open [OF this ledger_Nil fd _ run] have "r = -1 \<and> ledger log1 = Some {3}"
    by (simp add: known_baud_def tty_dv_def demo_answer_def)
  then show ?thesis using run by blast
qed

end
