(* ===== verification/BB_Hal_Display.thy ===== *)
theory BB_Hal_Display
  imports BB_Dev
begin

text \<open>
  The DRM/KMS display layer \<open>hal/bb_hal_display.c\<close>: finding a connector, creating and showing the frame
  buffer with the release labels of the open, page flips and the close. A request's structure is the
  list of the members the code sets; what the kernel writes back is the device's payload, a member
  the kernel leaves alone being 0 as the code's initialisers have it. The second list of a connector
  is the first mode, hdisplay and vdisplay in front.
\<close>

section \<open>Handle and requests\<close>

datatype bb_disp_type_t = BB_DISP_DSI | BB_DISP_LVDS | BB_DISP_HDMI | BB_DISP_ANY

record bb_display_t =
  dp_fd :: int
  dp_connector_id :: int
  dp_crtc_id :: int
  dp_encoder_id :: int
  dp_plane_id :: int
  dp_fb_id :: int
  dp_width :: int
  dp_height :: int
  dp_stride :: int
  dp_handle :: int
  dp_size :: int
  dp_map :: int
  dp_restored :: bool
  dp_saved_fb :: int
  dp_saved_crtc :: int
  dp_is_master :: bool

definition display_zero :: bb_display_t where
  "display_zero = \<lparr>dp_fd = -1, dp_connector_id = 0, dp_crtc_id = 0, dp_encoder_id = 0, dp_plane_id = 0, dp_fb_id = 0,
     dp_width = 0, dp_height = 0, dp_stride = 0, dp_handle = 0, dp_size = 0, dp_map = 0, dp_restored = False,
     dp_saved_fb = 0, dp_saved_crtc = 0, dp_is_master = False\<rparr>"

definition type_name :: "bb_disp_type_t \<Rightarrow> string" where
  "type_name t = (case t of BB_DISP_DSI \<Rightarrow> ''DSI'' | BB_DISP_LVDS \<Rightarrow> ''LVDS'' | BB_DISP_HDMI \<Rightarrow> ''HDMI'' | BB_DISP_ANY \<Rightarrow> ''ANY'')"

text \<open>The i-th member of a structure the kernel filled in.\<close>

definition member :: "int list \<Rightarrow> nat \<Rightarrow> int" where
  "member xs i = (if i < length xs then xs ! i else 0)"

text \<open>A 32-bit count read as a C int.\<close>

definition c_int :: "int \<Rightarrow> int" where
  "c_int n = (if n mod 2 ^ 32 < 2 ^ 31 then n mod 2 ^ 32 else n mod 2 ^ 32 - 2 ^ 32)"

definition DRM_FORMAT_XRGB8888 :: int where
  "DRM_FORMAT_XRGB8888 = 0x34325258"

definition MAP_FAILED :: int where
  "MAP_FAILED = -1"

section \<open>Connectors\<close>

text \<open>
  The two calls for the resources: the number of connectors the second one reports, and the array of
  32 entries, zeroed before it.
\<close>

definition conn_array :: "nat \<Rightarrow> int list \<Rightarrow> int list" where
  "conn_array n xs = take 32 (take n xs @ replicate 32 0)"

definition get_resources :: "dev \<Rightarrow> int \<Rightarrow> (int \<times> int list) option dio" where
  "get_resources dv fd = do {
     (r, res) \<leftarrow> fetch dv (Ioctl fd ''DRM_IOCTL_MODE_GETRESOURCES'' [0, 0, 0]);
     if r < 0 then give None else do {
       (r2, res2) \<leftarrow> fetch dv (Ioctl fd ''DRM_IOCTL_MODE_GETRESOURCES''
           [min 32 (member res 0), min 32 (member res 1), min 32 (member res 2)]);
       if r2 < 0 then give None
       else give (Some (member res2 0, conn_array (nat (min 32 (member res 0))) (drop 3 res2))) } }"

definition type_matches :: "bb_disp_type_t \<Rightarrow> int \<Rightarrow> bool" where
  "type_matches t ct = (case t of
      BB_DISP_ANY \<Rightarrow> True
    | BB_DISP_DSI \<Rightarrow> ct = 16
    | BB_DISP_LVDS \<Rightarrow> ct = 7
    | BB_DISP_HDMI \<Rightarrow> ct = 11 \<or> ct = 12)"

text \<open>One pass of the search: None is \<open>continue\<close>; otherwise the handle and the mode.\<close>

definition probe_connector :: "dev \<Rightarrow> bb_disp_type_t \<Rightarrow> bb_display_t \<Rightarrow> int \<Rightarrow> (bb_display_t \<times> int list) option dio" where
  "probe_connector dv t d cid = do {
     (r, conn) \<leftarrow> fetch dv (Ioctl (dp_fd d) ''DRM_IOCTL_MODE_GETCONNECTOR'' [cid, 0]);
     if r < 0 \<or> member conn 0 \<noteq> 1 \<or> \<not> type_matches t (member conn 1) then give None
     else do {
       (r2, mode) \<leftarrow> fetch dv (Ioctl (dp_fd d) ''DRM_IOCTL_MODE_GETCONNECTOR'' [cid, min 4 (member conn 3)]);
       if r2 < 0 then give None
       else do {
         (r3, enc) \<leftarrow> fetch dv (Ioctl (dp_fd d) ''DRM_IOCTL_MODE_GETENCODER'' [member conn 2]);
         give (Some (d\<lparr>dp_encoder_id := member conn 2,
            dp_crtc_id := (if r3 = 0 then member enc 0 else dp_crtc_id d),
            dp_connector_id := cid, dp_width := member mode 0, dp_height := member mode 1\<rparr>, mode)) } } }"

text \<open>The search from the i-th connector on; None is a read behind the array.\<close>

function find_connector :: "dev \<Rightarrow> bb_disp_type_t \<Rightarrow> bb_display_t \<Rightarrow> int list \<Rightarrow> nat \<Rightarrow> nat
    \<Rightarrow> (bb_display_t \<times> int list) option option dio" where
  "find_connector dv t d ids n i =
    (if i \<ge> n then give (Some None)
     else if i \<ge> length ids then give None
     else do { p \<leftarrow> probe_connector dv t d (ids ! i);
               (case p of None \<Rightarrow> find_connector dv t d ids n (Suc i) | Some x \<Rightarrow> give (Some (Some x))) })"
  by pat_completeness auto
termination
  by (relation "measure (\<lambda>(dv, t, d, ids, n, i). n - i)") auto

declare find_connector.simps [simp del]

section \<open>Open\<close>

text \<open>The labels, each falling through to the next.\<close>

definition fail :: "dev \<Rightarrow> bb_display_t \<Rightarrow> (bb_display_t \<times> int) dio" where
  "fail dv d = do { _ \<leftarrow> act dv (Close (dp_fd d)); give (d\<lparr>dp_fd := -1\<rparr>, -1) }"

definition fail_dumb :: "dev \<Rightarrow> bb_display_t \<Rightarrow> (bb_display_t \<times> int) dio" where
  "fail_dumb dv d = do { _ \<leftarrow> act dv (Ioctl (dp_fd d) ''DRM_IOCTL_MODE_DESTROY_DUMB'' [dp_handle d]);
     fail dv (d\<lparr>dp_handle := 0\<rparr>) }"

definition fail_fb :: "dev \<Rightarrow> bb_display_t \<Rightarrow> (bb_display_t \<times> int) dio" where
  "fail_fb dv d = do { _ \<leftarrow> act dv (Ioctl (dp_fd d) ''DRM_IOCTL_MODE_RMFB'' [dp_fb_id d]);
     fail_dumb dv (d\<lparr>dp_fb_id := 0\<rparr>) }"

definition fail_mmap :: "dev \<Rightarrow> bb_display_t \<Rightarrow> (bb_display_t \<times> int) dio" where
  "fail_mmap dv d = do { _ \<leftarrow> act dv (Munmap (dp_map d) (dp_size d)); fail_fb dv (d\<lparr>dp_map := 0\<rparr>) }"

text \<open>The structure of a mode set: crtc, frame buffer, number of connectors, mode_valid, the mode.\<close>

definition set_crtc :: "int \<Rightarrow> int \<Rightarrow> int list \<Rightarrow> int \<Rightarrow> int list \<Rightarrow> int \<Rightarrow> dev_call" where
  "set_crtc crtc fb conns valid mode fd =
     Ioctl fd ''DRM_IOCTL_MODE_SETCRTC'' ([crtc, fb, int (length conns), valid] @ conns @ mode)"

definition initial_modeset :: "dev \<Rightarrow> int list \<Rightarrow> bb_display_t \<Rightarrow> (bb_display_t \<times> int) dio" where
  "initial_modeset dv mode d = do {
     r \<leftarrow> act dv (set_crtc (dp_crtc_id d) (dp_fb_id d) [dp_connector_id d] 1 mode (dp_fd d));
     if r < 0 then fail_mmap dv d else give (d, 0) }"

definition map_buffer :: "dev \<Rightarrow> int list \<Rightarrow> bb_display_t \<Rightarrow> (bb_display_t \<times> int) dio" where
  "map_buffer dv mode d = do {
     (r, m) \<leftarrow> fetch dv (Ioctl (dp_fd d) ''DRM_IOCTL_MODE_MAP_DUMB'' [dp_handle d]);
     if r < 0 then fail_fb dv d
     else do { p \<leftarrow> act dv (MmapFd (dp_fd d) (dp_size d) (member m 0));
               if p = MAP_FAILED then fail_fb dv (d\<lparr>dp_map := p\<rparr>) else initial_modeset dv mode (d\<lparr>dp_map := p\<rparr>) } }"

definition add_framebuffer :: "dev \<Rightarrow> int list \<Rightarrow> bb_display_t \<Rightarrow> (bb_display_t \<times> int) dio" where
  "add_framebuffer dv mode d = do {
     (r, f) \<leftarrow> fetch dv (Ioctl (dp_fd d) ''DRM_IOCTL_MODE_ADDFB2''
         [dp_width d, dp_height d, DRM_FORMAT_XRGB8888, dp_handle d, dp_stride d, 0]);
     if r < 0 then fail_dumb dv d else map_buffer dv mode (d\<lparr>dp_fb_id := member f 0\<rparr>) }"

definition create_buffer :: "dev \<Rightarrow> int list \<Rightarrow> bb_display_t \<Rightarrow> (bb_display_t \<times> int) dio" where
  "create_buffer dv mode d = do {
     (r, c) \<leftarrow> fetch dv (Ioctl (dp_fd d) ''DRM_IOCTL_MODE_CREATE_DUMB'' [dp_width d, dp_height d, 32]);
     if r < 0 then fail dv d
     else add_framebuffer dv mode (d\<lparr>dp_handle := member c 0, dp_stride := member c 1, dp_size := member c 2\<rparr>) }"

definition save_crtc :: "dev \<Rightarrow> int list \<Rightarrow> bb_display_t \<Rightarrow> (bb_display_t \<times> int) dio" where
  "save_crtc dv mode d = do {
     (r, c) \<leftarrow> fetch dv (Ioctl (dp_fd d) ''DRM_IOCTL_MODE_GETCRTC'' [dp_crtc_id d]);
     create_buffer dv mode (if r = 0 then d\<lparr>dp_saved_fb := member c 0, dp_restored := True\<rparr> else d) }"

text \<open>The open from the resources on, for a device that is open; None: the search read behind the array.\<close>

definition open_connected :: "dev \<Rightarrow> bb_disp_type_t \<Rightarrow> bb_display_t \<Rightarrow> (bb_display_t \<times> int) option dio" where
  "open_connected dv t d = do {
     res \<leftarrow> get_resources dv (dp_fd d);
     (case res of
        None \<Rightarrow> State_Monad.bind (fail dv d) (\<lambda>x. give (Some x))
      | Some (count, ids) \<Rightarrow> do {
          found \<leftarrow> find_connector dv t d ids (nat (c_int count)) 0;
          (case found of
             None \<Rightarrow> give None
           | Some None \<Rightarrow> State_Monad.bind (fail dv d) (\<lambda>x. give (Some x))
           | Some (Some (d1, mode)) \<Rightarrow> State_Monad.bind (save_crtc dv mode d1) (\<lambda>x. give (Some x))) }) }"

definition bb_display_open :: "string \<Rightarrow> bb_disp_type_t \<Rightarrow> dev \<Rightarrow> (bb_display_t \<times> int) option dio" where
  "bb_display_open device t dv = do {
     fd \<leftarrow> act dv (Open device);
     if fd < 0 then give (Some (display_zero\<lparr>dp_fd := fd\<rparr>, -1)) else do {
       _ \<leftarrow> act dv (Ioctl fd ''DRM_IOCTL_SET_MASTER'' []);
       open_connected dv t (display_zero\<lparr>dp_fd := fd, dp_is_master := True\<rparr>) } }"

section \<open>Use and close\<close>

definition bb_display_get_fb :: "bb_display_t \<Rightarrow> (int \<times> int \<times> int \<times> int) option" where
  "bb_display_get_fb d = (if dp_fd d < 0 \<or> dp_map d = 0 then None else Some (dp_map d, dp_width d, dp_height d, dp_stride d))"

definition bb_display_flip :: "dev \<Rightarrow> bb_display_t \<Rightarrow> int dio" where
  "bb_display_flip dv d =
    (if dp_fd d < 0 then give (-1)
     else do {
       r \<leftarrow> act dv (Ioctl (dp_fd d) ''DRM_IOCTL_MODE_PAGE_FLIP'' [dp_crtc_id d, dp_fb_id d, 1]);
       if r = 0 then do {
         s \<leftarrow> act dv (SelectFd (dp_fd d) 1000);
         if s > 0 then do { _ \<leftarrow> act dv (ReadFd (dp_fd d) 32); give 0 } else give 0 }
       else act dv (Ioctl (dp_fd d) ''DRM_IOCTL_MODE_DIRTYFB'' [dp_fb_id d, 0]) })"

text \<open>
  The mode the kernel returns for the crtc goes back with it; the connectors of the structure are
  those of its initialiser, none.
\<close>

definition restore_crtc :: "dev \<Rightarrow> bb_display_t \<Rightarrow> unit dio" where
  "restore_crtc dv d =
    (if dp_restored d \<and> dp_saved_fb d \<noteq> 0 then do {
       (r, c) \<leftarrow> fetch dv (Ioctl (dp_fd d) ''DRM_IOCTL_MODE_GETCRTC'' [dp_crtc_id d]);
       _ \<leftarrow> act dv (set_crtc (dp_crtc_id d) (dp_saved_fb d) [] 1 (if r < 0 then [] else tl c) (dp_fd d));
       give () }
     else give ())"

definition when_act :: "bool \<Rightarrow> dev \<Rightarrow> dev_call \<Rightarrow> unit dio" where
  "when_act b dv c = (if b then State_Monad.bind (act dv c) (\<lambda>_. give ()) else give ())"

definition bb_display_close :: "dev \<Rightarrow> bb_display_t \<Rightarrow> bb_display_t dio" where
  "bb_display_close dv d =
    (if dp_fd d < 0 then give d
     else do {
       _ \<leftarrow> restore_crtc dv d;
       _ \<leftarrow> when_act (dp_is_master d) dv (Ioctl (dp_fd d) ''DRM_IOCTL_DROP_MASTER'' []);
       _ \<leftarrow> when_act (dp_map d \<noteq> 0) dv (Munmap (dp_map d) (dp_size d));
       _ \<leftarrow> when_act (dp_fb_id d \<noteq> 0) dv (Ioctl (dp_fd d) ''DRM_IOCTL_MODE_RMFB'' [dp_fb_id d]);
       _ \<leftarrow> when_act (dp_handle d \<noteq> 0) dv (Ioctl (dp_fd d) ''DRM_IOCTL_MODE_DESTROY_DUMB'' [dp_handle d]);
       _ \<leftarrow> act dv (Close (dp_fd d));
       give (d\<lparr>dp_map := 0, dp_fb_id := 0, dp_handle := 0, dp_fd := -1\<rparr>) })"

section \<open>Buffers\<close>

text \<open>What an open display holds in the kernel.\<close>

datatype drm_res = Fb int | Dumb int | Mapping int

definition take_res :: "drm_res \<Rightarrow> drm_res set \<Rightarrow> drm_res set option" where
  "take_res x S = (if x \<in> S then Some (S - {x}) else None)"

text \<open>
  One call, with the members the kernel wrote: the resources held after it, None once one is given
  back that is not held.
\<close>

fun drm_step :: "int list \<Rightarrow> dev_call \<Rightarrow> int \<Rightarrow> drm_res set \<Rightarrow> drm_res set option" where
  "drm_step out (Ioctl f q args) r S =
    (if q = ''DRM_IOCTL_MODE_CREATE_DUMB'' then Some (if r \<ge> 0 then insert (Dumb (member out 0)) S else S)
     else if q = ''DRM_IOCTL_MODE_ADDFB2'' then Some (if r \<ge> 0 then insert (Fb (member out 0)) S else S)
     else if q = ''DRM_IOCTL_MODE_RMFB'' then take_res (Fb (member args 0)) S
     else if q = ''DRM_IOCTL_MODE_DESTROY_DUMB'' then take_res (Dumb (member args 0)) S
     else Some S)"
| "drm_step out (MmapFd f l o') r S = Some (if r = MAP_FAILED then S else insert (Mapping r) S)"
| "drm_step out (Munmap p l) r S = take_res (Mapping p) S"
| "drm_step out c r S = Some S"

fun drm_rev :: "dev \<Rightarrow> dev_log \<Rightarrow> drm_res set option" where
  "drm_rev dv [] = Some {}"
| "drm_rev dv ((c, r) # es) = Option.bind (drm_rev dv es) (drm_step (payload dv (rev es) c) c r)"

definition drm_held :: "dev \<Rightarrow> dev_log \<Rightarrow> drm_res set option" where
  "drm_held dv log = drm_rev dv (rev log)"

lemma drm_held_Nil [simp]: "drm_held dv [] = Some {}"
  by (simp add: drm_held_def)

lemma drm_held_snoc [simp]:
  "drm_held dv (log @ [(c, r)]) = Option.bind (drm_held dv log) (drm_step (payload dv log c) c r)"
  by (simp add: drm_held_def)

text \<open>The kernel's numbers of new resources are not 0 and not in use.\<close>

definition drm_sane :: "dev \<Rightarrow> bool" where
  "drm_sane dv \<longleftrightarrow> (\<forall>log S. drm_held dv log = Some S \<longrightarrow>
     (\<forall>f args. member (payload dv log (Ioctl f ''DRM_IOCTL_MODE_CREATE_DUMB'' args)) 0 \<noteq> 0
        \<and> Dumb (member (payload dv log (Ioctl f ''DRM_IOCTL_MODE_CREATE_DUMB'' args)) 0) \<notin> S) \<and>
     (\<forall>f args. member (payload dv log (Ioctl f ''DRM_IOCTL_MODE_ADDFB2'' args)) 0 \<noteq> 0
        \<and> Fb (member (payload dv log (Ioctl f ''DRM_IOCTL_MODE_ADDFB2'' args)) 0) \<notin> S) \<and>
     (\<forall>f l o'. answer dv log (MmapFd f l o') \<noteq> 0 \<and> Mapping (answer dv log (MmapFd f l o')) \<notin> S))"

lemma drm_sane_dumb: "drm_sane dv \<Longrightarrow> drm_held dv log = Some S \<Longrightarrow>
    c = Ioctl f ''DRM_IOCTL_MODE_CREATE_DUMB'' args \<Longrightarrow> member (payload dv log c) 0 \<noteq> 0 \<and> Dumb (member (payload dv log c) 0) \<notin> S"
  unfolding drm_sane_def by blast

lemma drm_sane_fb: "drm_sane dv \<Longrightarrow> drm_held dv log = Some S \<Longrightarrow>
    c = Ioctl f ''DRM_IOCTL_MODE_ADDFB2'' args \<Longrightarrow> member (payload dv log c) 0 \<noteq> 0 \<and> Fb (member (payload dv log c) 0) \<notin> S"
  unfolding drm_sane_def by blast

lemma drm_sane_map: "drm_sane dv \<Longrightarrow> drm_held dv log = Some S \<Longrightarrow>
    c = MmapFd f l o' \<Longrightarrow> answer dv log c \<noteq> 0 \<and> Mapping (answer dv log c) \<notin> S"
  unfolding drm_sane_def by blast

text \<open>Descriptors and buffers of a record of calls.\<close>

definition owns :: "dev \<Rightarrow> dev_log \<Rightarrow> int set \<Rightarrow> drm_res set \<Rightarrow> bool" where
  "owns dv log F G \<longleftrightarrow> ledger log = Some F \<and> drm_held dv log = Some G"

fun moves_drm :: "dev_call \<Rightarrow> bool" where
  "moves_drm (Ioctl f q args) \<longleftrightarrow> q \<in> {''DRM_IOCTL_MODE_CREATE_DUMB'', ''DRM_IOCTL_MODE_ADDFB2'',
      ''DRM_IOCTL_MODE_RMFB'', ''DRM_IOCTL_MODE_DESTROY_DUMB''}"
| "moves_drm (MmapFd f l o') = True"
| "moves_drm (Munmap p l) = True"
| "moves_drm _ = False"

lemma drm_step_still: "\<not> moves_drm c \<Longrightarrow> drm_step out c r S = Some S"
  by (cases c) auto

lemma owns_still: "owns dv log F G \<Longrightarrow> \<not> moves_drm c \<Longrightarrow> \<not> moves_fds c \<Longrightarrow> owns dv (log @ [(c, r)]) F G"
  by (simp add: owns_def drm_step_still fd_step_neutral)

text \<open>A routine that leaves both as they are.\<close>

definition still :: "dev \<Rightarrow> 'a dio \<Rightarrow> bool" where
  "still dv m \<longleftrightarrow> (\<forall>log F G. owns dv log F G \<longrightarrow> owns dv (snd (run_state m log)) F G)"

lemma still_act: "\<not> moves_drm c \<Longrightarrow> \<not> moves_fds c \<Longrightarrow> still dv (act dv c)"
  by (simp add: still_def owns_still)

lemma still_fetch: "\<not> moves_drm c \<Longrightarrow> \<not> moves_fds c \<Longrightarrow> still dv (fetch dv c)"
  by (simp add: still_def owns_still)

lemma still_give: "still dv (give x)"
  by (simp add: still_def)

lemma still_bind: "still dv m \<Longrightarrow> (\<And>x. still dv (f x)) \<Longrightarrow> still dv (State_Monad.bind m f)"
  unfolding still_def by (simp add: case_prod_beta)

lemma still_if: "still dv m \<Longrightarrow> still dv n \<Longrightarrow> still dv (if b then m else n)"
  by simp

lemma still_when: "\<not> moves_drm c \<Longrightarrow> \<not> moves_fds c \<Longrightarrow> still dv (when_act b dv c)"
  by (simp add: when_act_def still_bind still_act still_give)

lemmas still_rules = still_bind still_if still_act still_fetch still_give still_when

lemma still_split: "(\<And>a b. still dv (f a b)) \<Longrightarrow> still dv (case x of (a, b) \<Rightarrow> f a b)"
  by (cases x) simp

lemma get_resources_still: "still dv (get_resources dv fd)"
  unfolding get_resources_def by (intro still_rules still_split) simp_all

lemma probe_connector_still: "still dv (probe_connector dv t d cid)"
  unfolding probe_connector_def by (intro still_rules still_split) simp_all

lemma find_connector_still: "still dv (find_connector dv t d ids n i)"
proof (induction dv t d ids n i rule: find_connector.induct)
  case (1 dv t d ids n i)
  have "still dv (State_Monad.bind (probe_connector dv t d (ids ! i))
      (\<lambda>p. case p of None \<Rightarrow> find_connector dv t d ids n (Suc i) | Some x \<Rightarrow> give (Some (Some x))))"
    if "\<not> n \<le> i" "\<not> length ids \<le> i"
    using that by (intro still_bind probe_connector_still) (auto intro: "1.IH" still_give split: option.splits)
  then show ?case by (subst find_connector.simps) (simp add: still_give)
qed

lemma flip_still: "still dv (bb_display_flip dv d)"
  unfolding bb_display_flip_def by (intro still_rules) simp_all

lemma restore_still: "still dv (restore_crtc dv d)"
  unfolding restore_crtc_def set_crtc_def by (intro still_rules still_split) simp_all
section \<open>Open and close\<close>

text \<open>A display that is open, and one that is not.\<close>

definition display_open :: "dev \<Rightarrow> int set \<Rightarrow> drm_res set \<Rightarrow> bb_display_t \<Rightarrow> dev_log \<Rightarrow> bool" where
  "display_open dv F G d log \<longleftrightarrow> 0 \<le> dp_fd d \<and> dp_fd d \<notin> F \<and> dp_map d \<noteq> 0 \<and> dp_fb_id d \<noteq> 0 \<and> dp_handle d \<noteq> 0
    \<and> Mapping (dp_map d) \<notin> G \<and> Fb (dp_fb_id d) \<notin> G \<and> Dumb (dp_handle d) \<notin> G
    \<and> owns dv log (insert (dp_fd d) F) (insert (Mapping (dp_map d)) (insert (Fb (dp_fb_id d)) (insert (Dumb (dp_handle d)) G)))"

definition open_post :: "dev \<Rightarrow> int set \<Rightarrow> drm_res set \<Rightarrow> (bb_display_t \<times> int) \<times> dev_log \<Rightarrow> bool" where
  "open_post dv F G x = (case x of ((d, r), log) \<Rightarrow>
     if r = 0 then display_open dv F G d log else r = -1 \<and> dp_fd d < 0 \<and> owns dv log F G)"

lemma owns_take:
  "owns dv log F (insert x G) \<Longrightarrow> x \<notin> G \<Longrightarrow> \<not> moves_fds c \<Longrightarrow> (\<And>out r S. drm_step out c r S = take_res x S)
    \<Longrightarrow> owns dv (log @ [(c, r)]) F G"
  by (simp add: owns_def fd_step_neutral take_res_def)

lemma fail_post: "owns dv log (insert (dp_fd d) F) G \<Longrightarrow> dp_fd d \<notin> F \<Longrightarrow> open_post dv F G (run_state (fail dv d) log)"
  by (auto simp: fail_def open_post_def owns_def)

lemma fail_dumb_post:
  assumes "owns dv log (insert (dp_fd d) F) (insert (Dumb (dp_handle d)) G)" "dp_fd d \<notin> F" "Dumb (dp_handle d) \<notin> G"
  shows "open_post dv F G (run_state (fail_dumb dv d) log)"
  unfolding fail_dumb_def
  using fail_post [of dv _ "d\<lparr>dp_handle := 0\<rparr>" F G] owns_take [OF assms(1,3)] assms(2) by (simp add: member_def)

lemma fail_fb_post:
  assumes "owns dv log (insert (dp_fd d) F) (insert (Fb (dp_fb_id d)) (insert (Dumb (dp_handle d)) G))" "dp_fd d \<notin> F"
    "Dumb (dp_handle d) \<notin> G" "Fb (dp_fb_id d) \<notin> G"
  shows "open_post dv F G (run_state (fail_fb dv d) log)"
  unfolding fail_fb_def
  using fail_dumb_post [of dv _ "d\<lparr>dp_fb_id := 0\<rparr>" F G] owns_take [OF assms(1)] assms(2-) by (simp add: member_def)

lemma fail_mmap_post: "display_open dv F G d log \<Longrightarrow> open_post dv F G (run_state (fail_mmap dv d) log)"
  unfolding fail_mmap_def display_open_def
  using fail_fb_post [of dv _ "d\<lparr>dp_map := 0\<rparr>" F G]
    owns_take [of dv log _ "Mapping (dp_map d)" "insert (Fb (dp_fb_id d)) (insert (Dumb (dp_handle d)) G)"] by simp

lemma initial_modeset_post: "display_open dv F G d log \<Longrightarrow> open_post dv F G (run_state (initial_modeset dv mode d) log)"
  using fail_mmap_post [of dv F G d] owns_still [of dv log]
  by (auto simp: initial_modeset_def set_crtc_def open_post_def display_open_def)

text \<open>What the frame buffer's creation has left to do.\<close>

lemma map_buffer_post:
  assumes "drm_sane dv" "owns dv log (insert (dp_fd d) F) (insert (Fb (dp_fb_id d)) (insert (Dumb (dp_handle d)) G))"
    "0 \<le> dp_fd d" "dp_fd d \<notin> F" "Dumb (dp_handle d) \<notin> G" "Fb (dp_fb_id d) \<notin> G" "dp_fb_id d \<noteq> 0" "dp_handle d \<noteq> 0"
  shows "open_post dv F G (run_state (map_buffer dv mode d) log)"
proof -
  let ?H = "insert (Fb (dp_fb_id d)) (insert (Dumb (dp_handle d)) G)"
  define log1 where "log1 = log @ [(Ioctl (dp_fd d) ''DRM_IOCTL_MODE_MAP_DUMB'' [dp_handle d],
      answer dv log (Ioctl (dp_fd d) ''DRM_IOCTL_MODE_MAP_DUMB'' [dp_handle d]))]"
  have l1: "owns dv log1 (insert (dp_fd d) F) ?H"
    unfolding log1_def using assms(2) by (rule owns_still) simp_all
  define c where "c = MmapFd (dp_fd d) (dp_size d) (member (payload dv log (Ioctl (dp_fd d) ''DRM_IOCTL_MODE_MAP_DUMB'' [dp_handle d])) 0)"
  define p where "p = answer dv log1 c"
  have p: "p \<noteq> 0" "Mapping p \<notin> ?H"
    using drm_sane_map [OF assms(1), of log1 ?H c] l1 unfolding owns_def p_def c_def by auto
  have l2: "owns dv (log1 @ [(c, p)]) (insert (dp_fd d) F) (if p = MAP_FAILED then ?H else insert (Mapping p) ?H)"
    using l1 by (simp add: owns_def c_def)
  have "display_open dv F G (d\<lparr>dp_map := p\<rparr>) (log1 @ [(c, p)])" if "p \<noteq> MAP_FAILED"
    using l2 p assms(3-) that by (simp add: display_open_def)
  then show ?thesis
    using initial_modeset_post [of dv F G "d\<lparr>dp_map := p\<rparr>" "log1 @ [(c, p)]" mode]
      fail_fb_post [of dv "log1 @ [(c, p)]" "d\<lparr>dp_map := p\<rparr>" F G] fail_fb_post [of dv log1 d F G] l1 l2 assms
    by (cases "p = MAP_FAILED") (simp_all add: map_buffer_def log1_def [symmetric] c_def [symmetric] p_def [symmetric])
qed

lemma add_framebuffer_post:
  assumes "drm_sane dv" "owns dv log (insert (dp_fd d) F) (insert (Dumb (dp_handle d)) G)"
    "0 \<le> dp_fd d" "dp_fd d \<notin> F" "Dumb (dp_handle d) \<notin> G" "dp_handle d \<noteq> 0"
  shows "open_post dv F G (run_state (add_framebuffer dv mode d) log)"
proof -
  define c where "c = Ioctl (dp_fd d) ''DRM_IOCTL_MODE_ADDFB2''
      [dp_width d, dp_height d, DRM_FORMAT_XRGB8888, dp_handle d, dp_stride d, 0]"
  define f where "f = member (payload dv log c) 0"
  have f: "f \<noteq> 0" "Fb f \<notin> G"
    using drm_sane_fb [OF assms(1) _ c_def, of log "insert (Dumb (dp_handle d)) G"] assms(2) unfolding owns_def f_def by auto
  have "owns dv (log @ [(c, answer dv log c)]) (insert (dp_fd d) F)
      (if answer dv log c \<ge> 0 then insert (Fb f) (insert (Dumb (dp_handle d)) G) else insert (Dumb (dp_handle d)) G)"
    using assms(2) by (simp add: owns_def c_def f_def)
  then show ?thesis
    using map_buffer_post [of dv "log @ [(c, answer dv log c)]" "d\<lparr>dp_fb_id := f\<rparr>" F G mode]
      fail_dumb_post [of dv "log @ [(c, answer dv log c)]" d F G] f assms
    by (cases "answer dv log c < 0") (simp_all add: add_framebuffer_def c_def [symmetric] f_def [symmetric])
qed

lemma create_buffer_post:
  assumes "drm_sane dv" "owns dv log (insert (dp_fd d) F) G" "0 \<le> dp_fd d" "dp_fd d \<notin> F"
  shows "open_post dv F G (run_state (create_buffer dv mode d) log)"
proof -
  define c where "c = Ioctl (dp_fd d) ''DRM_IOCTL_MODE_CREATE_DUMB'' [dp_width d, dp_height d, 32]"
  define h where "h = member (payload dv log c) 0"
  have h: "h \<noteq> 0" "Dumb h \<notin> G"
    using drm_sane_dumb [OF assms(1) _ c_def, of log G] assms(2) unfolding owns_def h_def by auto
  have "owns dv (log @ [(c, answer dv log c)]) (insert (dp_fd d) F) (if answer dv log c \<ge> 0 then insert (Dumb h) G else G)"
    using assms(2) by (simp add: owns_def c_def h_def)
  then show ?thesis
    using add_framebuffer_post [of dv "log @ [(c, answer dv log c)]"
        "d\<lparr>dp_handle := h, dp_stride := member (payload dv log c) 1, dp_size := member (payload dv log c) 2\<rparr>" F G mode]
      fail_post [of dv "log @ [(c, answer dv log c)]" d F G] h assms
    by (cases "answer dv log c < 0") (simp_all add: create_buffer_def c_def [symmetric] h_def [symmetric])
qed

lemma save_crtc_post:
  assumes "drm_sane dv" "owns dv log (insert (dp_fd d) F) G" "0 \<le> dp_fd d" "dp_fd d \<notin> F"
  shows "open_post dv F G (run_state (save_crtc dv mode d) log)"
  using assms create_buffer_post [OF assms(1), where F = F and G = G and mode = mode] owns_still [OF assms(2)]
  by (simp add: save_crtc_def)
lemma probe_connector_fd: "run_state (probe_connector dv t d cid) log = (Some (d1, mode), log') \<Longrightarrow> dp_fd d1 = dp_fd d"
  unfolding probe_connector_def by (clarsimp simp: case_prod_beta split: if_split_asm)

lemma find_connector_fd:
  "run_state (find_connector dv t d ids n i) log = (Some (Some (d1, mode)), log') \<Longrightarrow> dp_fd d1 = dp_fd d"
proof (induction dv t d ids n i arbitrary: log rule: find_connector.induct)
  case (1 dv t d ids n i)
  show ?case
    using "1.prems" "1.IH"
    by (auto simp: find_connector.simps [of dv t d ids n i] split: if_splits option.splits prod.splits dest: probe_connector_fd)
qed

lemma open_connected_post:
  assumes "drm_sane dv" "owns dv log (insert (dp_fd d) F) G" "0 \<le> dp_fd d" "dp_fd d \<notin> F"
    "run_state (open_connected dv t d) log = (Some x, log')"
  shows "open_post dv F G (x, log')"
proof -
  obtain res log1 where r: "run_state (get_resources dv (dp_fd d)) log = (res, log1)" by fastforce
  have l1: "owns dv log1 (insert (dp_fd d) F) G"
    using get_resources_still assms(2) r unfolding still_def by (metis snd_conv)
  show ?thesis
  proof (cases res)
    case None
    then show ?thesis using fail_post [of dv log1 d F G] l1 r assms by (auto simp: open_connected_def case_prod_beta)
  next
    case (Some ci)
    obtain count ids where ci: "ci = (count, ids)" by fastforce
    obtain found log2 where f: "run_state (find_connector dv t d ids (nat (c_int count)) 0) log1 = (found, log2)" by fastforce
    have l2: "owns dv log2 (insert (dp_fd d) F) G"
      using find_connector_still l1 f unfolding still_def by (metis snd_conv)
    note run = open_connected_def r f Some ci
    consider "found = None" | "found = Some None" | d1 mode where "found = Some (Some (d1, mode))"
      by (metis option.exhaust surj_pair)
    then show ?thesis
    proof cases
      case 1
      then show ?thesis using assms(5) by (simp add: run)
    next
      case 2
      then show ?thesis using fail_post [of dv log2 d F G] l2 assms(4,5) by (auto simp: run case_prod_beta)
    next
      case 3
      then have "dp_fd d1 = dp_fd d" using find_connector_fd f by simp
      then show ?thesis using save_crtc_post [of dv log2 d1 F G mode] l2 assms 3 by (auto simp: run case_prod_beta)
    qed
  qed
qed

theorem open_releases:
  assumes "sane dv" "drm_sane dv" "owns dv log F G" "run_state (bb_display_open device t dv) log = (Some x, log')"
  shows "open_post dv F G (x, log')"
proof (cases "answer dv log (Open device) < 0")
  case True
  then have "x = (display_zero\<lparr>dp_fd := answer dv log (Open device)\<rparr>, -1)" "log' = log @ [(Open device, answer dv log (Open device))]"
    using assms(4) by (auto simp: bb_display_open_def)
  then show ?thesis using True assms(3) by (simp add: open_post_def owns_def)
next
  case False
  define fd where "fd = answer dv log (Open device)"
  have fd: "0 \<le> fd" "fd \<notin> F" using False sane_open [OF assms(1)] assms(3) by (auto simp: fd_def owns_def)
  define log1 where "log1 = log @ [(Open device, fd)]"
  define log2 where "log2 = log1 @ [(Ioctl fd ''DRM_IOCTL_SET_MASTER'' [], answer dv log1 (Ioctl fd ''DRM_IOCTL_SET_MASTER'' []))]"
  have l2: "owns dv log2 (insert fd F) G"
    unfolding log2_def using assms(3) fd by (intro owns_still) (simp_all add: owns_def log1_def)
  have "run_state (open_connected dv t (display_zero\<lparr>dp_fd := fd, dp_is_master := True\<rparr>)) log2 = (Some x, log')"
    using False assms(4) by (simp add: bb_display_open_def fd_def [symmetric] log1_def log2_def)
  then show ?thesis
    using open_connected_post [OF assms(2), of _ "display_zero\<lparr>dp_fd := fd, dp_is_master := True\<rparr>" F G] l2 fd by simp
qed

lemma owns_when_take:
  "owns dv log F (insert x G) \<Longrightarrow> x \<notin> G \<Longrightarrow> \<not> moves_fds c \<Longrightarrow> (\<And>out r S. drm_step out c r S = take_res x S)
    \<Longrightarrow> b \<Longrightarrow> owns dv (snd (run_state (when_act b dv c) log)) F G"
  using owns_take by (simp add: when_act_def)

theorem close_releases:
  assumes "display_open dv F G d log"
  shows "owns dv (snd (run_state (bb_display_close dv d) log)) F G \<and> dp_fd (fst (run_state (bb_display_close dv d) log)) = -1"
proof -
  let ?m = "Mapping (dp_map d)" and ?f = "Fb (dp_fb_id d)" and ?h = "Dumb (dp_handle d)"
  note o = assms [unfolded display_open_def]
  define log1 where "log1 = snd (run_state (restore_crtc dv d) log)"
  define log2 where "log2 = snd (run_state (when_act (dp_is_master d) dv (Ioctl (dp_fd d) ''DRM_IOCTL_DROP_MASTER'' [])) log1)"
  define log3 where "log3 = snd (run_state (when_act (dp_map d \<noteq> 0) dv (Munmap (dp_map d) (dp_size d))) log2)"
  define log4 where "log4 = snd (run_state (when_act (dp_fb_id d \<noteq> 0) dv (Ioctl (dp_fd d) ''DRM_IOCTL_MODE_RMFB'' [dp_fb_id d])) log3)"
  define log5 where "log5 = snd (run_state (when_act (dp_handle d \<noteq> 0) dv (Ioctl (dp_fd d) ''DRM_IOCTL_MODE_DESTROY_DUMB'' [dp_handle d])) log4)"
  have "owns dv log1 (insert (dp_fd d) F) (insert ?m (insert ?f (insert ?h G)))"
    using restore_still o unfolding still_def log1_def by blast
  then have "owns dv log2 (insert (dp_fd d) F) (insert ?m (insert ?f (insert ?h G)))"
    using still_when [of "Ioctl (dp_fd d) ''DRM_IOCTL_DROP_MASTER'' []"] unfolding still_def log2_def by simp
  then have "owns dv log3 (insert (dp_fd d) F) (insert ?f (insert ?h G))"
    unfolding log3_def using o by (intro owns_when_take [where x = ?m]) simp_all
  then have "owns dv log4 (insert (dp_fd d) F) (insert ?h G)"
    unfolding log4_def using o by (intro owns_when_take [where x = ?f]) (simp_all add: member_def)
  then have "owns dv log5 (insert (dp_fd d) F) G"
    unfolding log5_def using o by (intro owns_when_take [where x = ?h]) (simp_all add: member_def)
  then have "owns dv (log5 @ [(Close (dp_fd d), answer dv log5 (Close (dp_fd d)))]) F G"
    using o by (simp add: owns_def)
  then show ?thesis
    using conjunct1 [OF o] by (simp add: bb_display_close_def case_prod_beta log1_def [symmetric] log2_def [symmetric] log3_def [symmetric]
        log4_def [symmetric] log5_def [symmetric])
qed
fun flips :: "nat \<Rightarrow> dev \<Rightarrow> bb_display_t \<Rightarrow> unit dio" where
  "flips 0 dv d = give ()"
| "flips (Suc n) dv d = do { _ \<leftarrow> bb_display_flip dv d; flips n dv d }"

lemma flips_still: "still dv (flips n dv d)"
  by (induction n) (simp_all add: still_give still_bind flip_still)

lemma close_closed: "dp_fd d < 0 \<Longrightarrow> run_state (bb_display_close dv d) log = (d, log)"
  by (simp add: bb_display_close_def)

text \<open>
  C18. A failed open gives back the descriptor, the buffer, the frame buffer and the mapping, wherever
  it fails; an open, any number of page flips and a close give back all of them as well, none of them
  twice, and a further close does nothing.
\<close>

theorem display_session_balanced:
  assumes "sane dv" "drm_sane dv" "owns dv log F G" "run_state (bb_display_open device t dv) log = (Some (d, r), log1)"
    and "snd (run_state (flips n dv d) log1) = log2" "run_state (bb_display_close dv d) log2 = (d1, log3)"
  shows "(if r = 0 then owns dv log3 F G else r = -1 \<and> owns dv log1 F G)
    \<and> (dp_fd d1 < 0 \<longrightarrow> run_state (bb_display_close dv d1) log3 = (d1, log3)) \<and> (r = 0 \<longrightarrow> dp_fd d1 = -1)"
proof -
  have post: "open_post dv F G ((d, r), log1)" by (rule open_releases [OF assms(1-4)])
  show ?thesis
  proof (cases "r = 0")
    case True
    then have o: "display_open dv F G d log1" using post by (simp add: open_post_def)
    then have "display_open dv F G d log2"
      using flips_still assms(5) unfolding still_def display_open_def by blast
    from close_releases [OF this] show ?thesis using True assms(6) close_closed by simp
  next
    case False
    then show ?thesis using post close_closed by (simp add: open_post_def)
  qed
qed

text \<open>A kernel with one panel, numbering what it creates.\<close>

definition panel_number :: "dev_log \<Rightarrow> int" where
  "panel_number log = next_fd log + int (length log)"

definition panel_payload :: "dev_log \<Rightarrow> dev_call \<Rightarrow> int list" where
  "panel_payload log c = (case c of Ioctl f q args \<Rightarrow>
      if q = ''DRM_IOCTL_MODE_GETRESOURCES'' then [1, 1, 1, 42]
      else if q = ''DRM_IOCTL_MODE_GETCONNECTOR'' then (if member args 1 = 0 then [1, 16, 7, 1] else [1024, 600])
      else if q = ''DRM_IOCTL_MODE_CREATE_DUMB'' \<or> q = ''DRM_IOCTL_MODE_ADDFB2'' then [panel_number log, 4096, 2457600]
      else [5] | _ \<Rightarrow> [])"

definition panel_answer :: "dev_log \<Rightarrow> dev_call \<Rightarrow> int" where
  "panel_answer log c = (case c of MmapFd f l o' \<Rightarrow> panel_number log | _ \<Rightarrow> demo_answer log c)"

definition panel :: dev where
  "panel = \<lparr>answer = panel_answer, payload = panel_payload\<rparr>"

lemma panel_sane: "sane panel"
  unfolding sane_def panel_def panel_answer_def demo_answer_def by (auto dest: ledger_bound)

fun res_number :: "drm_res \<Rightarrow> int" where
  "res_number (Fb n) = n" | "res_number (Dumb n) = n" | "res_number (Mapping n) = n"

lemma panel_number_snoc [simp]: "panel_number (log @ [(c, r)]) = panel_number log + \<bar>r\<bar> + 1"
  by (simp add: panel_number_def)

lemma panel_number_pos: "3 \<le> panel_number log"
  using next_fd_pos [of log] by (simp add: panel_number_def)

lemma take_res_sub: "take_res y T = Some S \<Longrightarrow> S \<subseteq> T"
  by (auto simp: take_res_def split: if_splits)

lemma panel_step:
  assumes "drm_step (payload panel log c) c r T = Some S" "x \<in> S"
  shows "x \<in> T \<or> res_number x \<le> max (panel_number log) r"
proof (cases c)
  case (Ioctl f q args)
  then show ?thesis using assms
    by (auto simp: panel_def panel_payload_def member_def split: if_splits dest: take_res_sub)
next
  case (Munmap a b)
  then show ?thesis using assms by (auto dest: take_res_sub)
qed (use assms in \<open>auto split: if_splits\<close>)

lemma panel_bound: "drm_held panel log = Some S \<Longrightarrow> x \<in> S \<Longrightarrow> res_number x < panel_number log"
proof (induction log arbitrary: S rule: rev_induct)
  case (snoc e log)
  obtain c r where e: "e = (c, r)" by fastforce
  obtain T where T: "drm_held panel log = Some T" "drm_step (payload panel log c) c r T = Some S"
    using snoc.prems(1) e by (cases "drm_held panel log") auto
  from panel_step [OF T(2) snoc.prems(2)] show ?case
    using snoc.IH [OF T(1)] panel_number_pos [of log] e by (auto simp: max_def split: if_splits)
qed simp

lemma panel_sel: "answer panel = panel_answer" "payload panel = panel_payload"
  by (simp_all add: panel_def)

lemma panel_new:
  "member (panel_payload log (Ioctl f ''DRM_IOCTL_MODE_CREATE_DUMB'' args)) 0 = panel_number log"
  "member (panel_payload log (Ioctl f ''DRM_IOCTL_MODE_ADDFB2'' args)) 0 = panel_number log"
  "panel_answer log (MmapFd f l o') = panel_number log"
  by (simp_all add: panel_payload_def panel_answer_def member_def)

lemma panel_number_nz: "panel_number log \<noteq> 0"
  using panel_number_pos [of log] by simp

lemma panel_drm_sane: "drm_sane panel"
  unfolding drm_sane_def panel_sel panel_new by (auto simp: panel_number_nz dest: panel_bound)

lemma panel_open:
  "case run_state (bb_display_open ''/dev/dri/card1'' BB_DISP_DSI panel) [] of
     (Some (d, r), log1) \<Rightarrow> r = 0 \<and> dp_width d = 1024 \<and> dp_height d = 600 \<and> dp_stride d = 4096 | _ \<Rightarrow> False"
  by code_simp

lemma display_session_balanced_witness:
  "(case run_state (bb_display_open ''/dev/dri/card1'' BB_DISP_DSI panel) [] of
      (Some (d, r), log1) \<Rightarrow> r = 0 \<and> dp_width d = 1024
        \<and> owns panel (snd (run_state (bb_display_close panel d) (snd (run_state (flips 2 panel d) log1)))) {} {}
    | _ \<Rightarrow> False)"
proof -
  define x where "x = run_state (bb_display_open ''/dev/dri/card1'' BB_DISP_DSI panel) []"
  obtain d log1 where x: "x = (Some (d, 0), log1)" "dp_width d = 1024"
    using panel_open unfolding x_def [symmetric] by (cases x; cases "fst x") auto
  then have o: "run_state (bb_display_open ''/dev/dri/card1'' BB_DISP_DSI panel) [] = (Some (d, 0), log1)"
    by (simp add: x_def)
  have "owns panel [] {} {}" by (simp add: owns_def)
  from display_session_balanced [OF panel_sane panel_drm_sane this o refl surjective_pairing, of 2] x
  show ?thesis unfolding x_def [symmetric] by simp
qed

lemma connector_count_unchecked:
  assumes "\<And>log c. member (payload dv log (Ioctl (dp_fd d) ''DRM_IOCTL_MODE_GETCONNECTOR'' [c, 0])) 0 \<noteq> 1"
  shows "fst (run_state (find_connector dv t d ids n i) log) = (if n > length ids \<and> n > i then None else Some None)"
  using assms
proof (induction dv t d ids n i arbitrary: log rule: find_connector.induct)
  case (1 dv t d ids n i)
  obtain log1 where c: "run_state (probe_connector dv t d (ids ! i)) log = (None, log1)"
    using "1.prems" by (simp add: probe_connector_def)
  show ?case
    using "1.IH" c "1.prems" by (subst find_connector.simps) (auto simp: case_prod_beta)
qed
lemma length_conn_array: "length (conn_array n xs) = 32"
  unfolding conn_array_def length_take length_append length_replicate by simp

lemma get_resources_ids:
  "fst (run_state (get_resources dv fd) log) = Some (count, ids) \<Longrightarrow> length ids = 32"
  unfolding get_resources_def by (simp add: case_prod_beta if_distrib [of fst] length_conn_array split: if_split_asm) (metis length_conn_array)

text \<open>
  The search does not look at the size of the array: with no connected display, opening reads behind
  the array of 32 connectors exactly when the kernel reports more than 32 of them.
\<close>

theorem display_open_overrun:
  assumes "\<And>log. answer dv log (Open device) \<ge> 0"
    and "\<And>log f args. answer dv log (Ioctl f ''DRM_IOCTL_MODE_GETRESOURCES'' args) \<ge> 0"
    and "\<And>log f args. payload dv log (Ioctl f ''DRM_IOCTL_MODE_GETRESOURCES'' args) = count # rest"
    and "\<And>log f c. member (payload dv log (Ioctl f ''DRM_IOCTL_MODE_GETCONNECTOR'' [c, 0])) 0 \<noteq> 1"
  shows "fst (run_state (bb_display_open device t dv) log) = None \<longleftrightarrow> c_int count > 32"
proof -
  define fd where "fd = answer dv log (Open device)"
  define d where "d = display_zero\<lparr>dp_fd := fd, dp_is_master := True\<rparr>"
  have "\<not> fd < 0" using assms(1) [of log] by (simp add: fd_def)
  then obtain log1 where o: "run_state (bb_display_open device t dv) log = run_state (open_connected dv t d) log1"
    by (simp add: bb_display_open_def fd_def [symmetric] d_def)
  obtain ids log2 where r: "run_state (get_resources dv (dp_fd d)) log1 = (Some (count, ids), log2)"
    using assms(2,3) by (simp add: get_resources_def member_def not_less [symmetric])
  have "length ids = 32" using get_resources_ids [of dv "dp_fd d" log1 count ids] r by simp
  moreover obtain fnd log3 where f: "run_state (find_connector dv t d ids (nat (c_int count)) 0) log2 = (fnd, log3)" by fastforce
  ultimately have "fnd = (if c_int count > 32 then None else Some None)"
    using connector_count_unchecked [of dv d t ids "nat (c_int count)" 0 log2, OF assms(4)] by (auto split: if_splits)
  then show ?thesis using o r f by (simp add: open_connected_def case_prod_beta)
qed

definition dark :: dev where
  "dark = \<lparr>answer = demo_answer, payload = \<lambda>log c. case c of Ioctl f q args \<Rightarrow>
      if q = ''DRM_IOCTL_MODE_GETRESOURCES'' then [33] else [] | _ \<Rightarrow> []\<rparr>"

lemma display_open_overrun_witness: "fst (run_state (bb_display_open ''/dev/dri/card1'' BB_DISP_ANY dark) []) = None"
  by (subst display_open_overrun [where count = 33 and rest = "[]"])
     (simp_all add: dark_def member_def c_int_def demo_answer_def order_trans [OF _ next_fd_pos])

text \<open>
  The restore at a close names a mode but no connector: whatever the kernel returned for the crtc, the
  only mode set of the routine has 0 connectors and mode_valid 1, which the kernel refuses.
\<close>

lemma restore_without_connector:
  assumes "run_state (restore_crtc dv d) log = ((), log @ es)" "(Ioctl f ''DRM_IOCTL_MODE_SETCRTC'' args, r) \<in> set es"
  shows "member args 2 = 0 \<and> member args 3 = 1"
  using assms by (auto simp: restore_crtc_def set_crtc_def member_def split: if_splits)

end
