(* ===== verification/BB_Display_Test.thy ===== *)
theory BB_Display_Test
  imports BB_Hal_Display BB_Audio_Hal
begin

text \<open>
  The colour bar tool \<open>tools/bb-display-test.c\<close>: the drawing routines on the mapped frame buffer, the
  layers of the picture and the tool's session with the display. A drawing routine returns None where
  its loop does not end and Inl where it leaves the buffer; pixel indices are unsigned 32-bit as in the code.
\<close>

unbundle bit_operations_syntax

section \<open>Pixels\<close>

type_synonym drawing = "u32 list \<Rightarrow> u32 list cres option"

definition C_WHITE :: u32 where "C_WHITE = 0xFFFFFFFF"
definition C_BLACK :: u32 where "C_BLACK = 0xFF000000"

definition smpte_colors :: "u32 list" where
  "smpte_colors = [0xFFC0C0C0, 0xFFFFC000, 0xFF00FFFF, 0xFF00C000, 0xFFFF00FF, 0xFFFF0000, 0xFF0000FF, C_BLACK]"

definition store :: "int \<Rightarrow> u32 \<Rightarrow> drawing" where
  "store i c fb = Some (if nat i < length fb then Inr (fb[nat i := c]) else Inl OutOfBounds)"

fun draw_all :: "drawing list \<Rightarrow> drawing" where
  "draw_all [] fb = Some (Inr fb)"
| "draw_all (m # ms) fb = (case m fb of Some (Inr fb') \<Rightarrow> draw_all ms fb' | r \<Rightarrow> r)"

definition pixel_index :: "int \<Rightarrow> int \<Rightarrow> int \<Rightarrow> int" where
  "pixel_index sw x y = (y * sw + x) mod 2 ^ 32"

definition put_pixel :: "int \<Rightarrow> int \<Rightarrow> int \<Rightarrow> u32 \<Rightarrow> drawing" where
  "put_pixel sw x y c = (if x \<ge> 0 \<and> y \<ge> 0 then store (pixel_index sw x y) c else draw_all [])"

section \<open>Shapes\<close>

text \<open>The rectangle from a corner that is not negative on, and the clipping of a negative one.\<close>

definition fill_rows :: "int \<Rightarrow> int \<Rightarrow> int \<Rightarrow> int \<Rightarrow> int \<Rightarrow> u32 \<Rightarrow> drawing" where
  "fill_rows sw x y w h c = draw_all (map (\<lambda>row. draw_all (map (\<lambda>col. store (pixel_index sw x (y + row) + col) c)
      (map int [0..<nat w]))) (map int [0..<nat h]))"

definition fill_rect :: "int \<Rightarrow> int \<Rightarrow> int \<Rightarrow> int \<Rightarrow> int \<Rightarrow> u32 \<Rightarrow> drawing" where
  "fill_rect sw x y w h c =
    fill_rows sw (max 0 x) (max 0 y) (if x < 0 then w + x else w) (if y < 0 then h + y else h) c"

definition draw_rect :: "int \<Rightarrow> int \<Rightarrow> int \<Rightarrow> int \<Rightarrow> int \<Rightarrow> u32 \<Rightarrow> drawing" where
  "draw_rect sw x y w h c = draw_all [fill_rect sw x y w 1 c, fill_rect sw x (y + h - 1) w 1 c,
     fill_rect sw x y 1 h c, fill_rect sw (x + w - 1) y 1 h c]"

text \<open>The ends, the distances and the error term of a line are 32-bit int; an overflow is undefined.\<close>

partial_function (option) line_loop ::
  "int \<Rightarrow> u32 \<Rightarrow> int \<Rightarrow> int \<Rightarrow> int \<Rightarrow> int \<Rightarrow> int \<Rightarrow> int \<Rightarrow> int \<Rightarrow> int \<Rightarrow> int \<Rightarrow> u32 list \<Rightarrow> u32 list cres option" where
  "line_loop sw c x1 y1 dx dy sx sy x0 y0 err fb =
    (case put_pixel sw x0 y0 c fb of
       Some (Inr fb') \<Rightarrow>
         if x0 = x1 \<and> y0 = y1 then Some (Inr fb')
         else let e2 = 2 * err;
                  err1 = (if e2 \<ge> dy then err + dy else err); x = (if e2 \<ge> dy then x0 + sx else x0);
                  err2 = (if e2 \<le> dx then err1 + dx else err1); y = (if e2 \<le> dx then y0 + sy else y0)
              in if list_all in_int32 [e2, err1, x, err2, y] then line_loop sw c x1 y1 dx dy sx sy x y err2 fb'
                 else Some (Inl SignedOverflow)
     | r \<Rightarrow> r)"

definition draw_line :: "int \<Rightarrow> int \<Rightarrow> int \<Rightarrow> int \<Rightarrow> int \<Rightarrow> u32 \<Rightarrow> drawing" where
  "draw_line sw x0 y0 x1 y1 c fb =
    (let dx = \<bar>x1 - x0\<bar>; dy = - \<bar>y1 - y0\<bar>
     in if list_all in_int32 [x1 - x0, dx, y1 - y0, - dy, dx + dy]
        then line_loop sw c x1 y1 dx dy (if x0 < x1 then 1 else -1) (if y0 < y1 then 1 else -1) x0 y0 (dx + dy) fb
        else Some (Inl SignedOverflow))"

definition draw_crosshair :: "int \<Rightarrow> int \<Rightarrow> int \<Rightarrow> int \<Rightarrow> u32 \<Rightarrow> drawing" where
  "draw_crosshair sw cx cy sz c = draw_all [draw_line sw (cx - sz) cy (cx + sz) cy c,
     draw_line sw cx (cy - sz) cx (cy + sz) c,
     draw_rect sw (cx - sz div 2) (cy - sz div 2) sz sz c]"

section \<open>The picture\<close>

definition colour_bars :: "int \<Rightarrow> int \<Rightarrow> int \<Rightarrow> drawing" where
  "colour_bars sw bar_w bar_h = draw_all (map (\<lambda>i. draw_all [
       fill_rect sw (int i * bar_w) 0 bar_w bar_h (smpte_colors ! i),
       if i < 7 then draw_line sw (int (i + 1) * bar_w) 0 (int (i + 1) * bar_w) (bar_h - 1) 0xFF444444 else draw_all []])
     [0..<8])"

definition gradient :: "int \<Rightarrow> int \<Rightarrow> int \<Rightarrow> int \<Rightarrow> drawing" where
  "gradient sw W grad_y grad_h = draw_all [
     fill_rect sw 0 grad_y (W div 5) grad_h 0xFF200080,
     fill_rect sw (W div 5) grad_y (W div 5) grad_h 0xFF802000,
     fill_rect sw ((2 * W) mod 2 ^ 32 div 5) grad_y (W div 5) grad_h 0xFF200080,
     fill_rect sw ((3 * W) mod 2 ^ 32 div 5) grad_y (W div 5) grad_h 0xFF802000,
     fill_rect sw ((4 * W) mod 2 ^ 32 div 5) grad_y (W div 5) grad_h C_BLACK]"

definition dim_pixel :: "int \<Rightarrow> int \<Rightarrow> int \<Rightarrow> drawing" where
  "dim_pixel sw gx gy fb =
    (let i = nat (pixel_index sw gx gy) in
     if i < length fb then put_pixel sw gx gy (drop_bit 1 (fb ! i AND 0xFFFEFEFE)) fb else Some (Inl OutOfBounds))"

definition grid_column :: "int \<Rightarrow> int \<Rightarrow> int \<Rightarrow> drawing" where
  "grid_column sw bar_h gx = draw_all (map (\<lambda>gy. if (gy div 4) mod 2 = 0 then dim_pixel sw gx gy else draw_all [])
     (map int [0..<nat bar_h]))"

text \<open>The columns of the grid; the unsigned gx wraps around.\<close>

partial_function (option) grid :: "int \<Rightarrow> int \<Rightarrow> int \<Rightarrow> int \<Rightarrow> u32 list \<Rightarrow> u32 list cres option" where
  "grid sw W bar_h gx fb =
    (if gx < W then (case grid_column sw bar_h gx fb of
        Some (Inr fb') \<Rightarrow> grid sw W bar_h ((gx + W div 16) mod 2 ^ 32) fb' | r \<Rightarrow> r)
     else Some (Inr fb))"

text \<open>\<open>root\<close> is the square root of the floating point library, truncated.\<close>

definition circle :: "(int \<Rightarrow> int) \<Rightarrow> int \<Rightarrow> int \<Rightarrow> int \<Rightarrow> int \<Rightarrow> drawing" where
  "circle root sw cx cy r = draw_all (map (\<lambda>dy. let dx = root (r * r - dy * dy) in
     draw_all [put_pixel sw (cx + dx) (cy + dy) C_WHITE, put_pixel sw (cx - dx) (cy + dy) C_WHITE]) [-r..r])"

definition paint :: "(int \<Rightarrow> int) \<Rightarrow> int \<Rightarrow> int \<Rightarrow> int \<Rightarrow> drawing" where
  "paint root W H sw =
    (let bar_w = W div 8; bar_h = (H * 3) mod 2 ^ 32 div 4; r = (if bar_h div 4 < 100 then bar_h div 4 else 100)
     in draw_all [
       colour_bars sw bar_w bar_h,
       gradient sw W bar_h (c_int (H - bar_h)),
       grid sw W bar_h 0,
       draw_all (map (\<lambda>i. draw_crosshair sw (int i * bar_w + bar_w div 2) (bar_h div 2) 30 C_WHITE) [0..<8]),
       draw_rect sw 0 0 (c_int W) (c_int H) C_WHITE,
       draw_rect sw 2 2 (c_int (W - 4)) (c_int (H - 4)) C_WHITE,
       circle root sw (W div 2) (bar_h div 2) r])"

section \<open>The tool\<close>

definition display_type_arg :: "string list \<Rightarrow> bb_disp_type_t option" where
  "display_type_arg argv =
    (case argv of [] \<Rightarrow> Some BB_DISP_DSI
     | a # _ \<Rightarrow> if a = ''dsi'' then Some BB_DISP_DSI else if a = ''lvds'' then Some BB_DISP_LVDS
        else if a = ''hdmi'' then Some BB_DISP_HDMI else if a = ''any'' then Some BB_DISP_ANY else None)"

text \<open>
  The tool on the arguments after its name, with the memory of the mapped buffer: its exit status and
  the picture. None stands for undefined behaviour or a loop that does not end.
\<close>

definition display_test_main :: "(int \<Rightarrow> int) \<Rightarrow> u32 list \<Rightarrow> string list \<Rightarrow> dev \<Rightarrow> (int \<times> u32 list) option dio" where
  "display_test_main root mem argv dv =
    (case display_type_arg argv of None \<Rightarrow> give (Some (1, mem))
     | Some t \<Rightarrow> do {
        opened \<leftarrow> bb_display_open ''/dev/dri/card1'' t dv;
        (case opened of None \<Rightarrow> give None
         | Some (d, r) \<Rightarrow>
            if r < 0 then give (Some (1, mem))
            else (case bb_display_get_fb d of
               None \<Rightarrow> do { _ \<leftarrow> bb_display_close dv d; give (Some (1, mem)) }
             | Some (fb, W, H, stride) \<Rightarrow>
                (case paint root W H (stride div 4) mem of
                   Some (Inr mem') \<Rightarrow> do { _ \<leftarrow> bb_display_flip dv d; _ \<leftarrow> bb_display_close dv d; give (Some (0, mem')) }
                 | _ \<Rightarrow> give None))) })"

section \<open>Safe drawings\<close>

text \<open>A drawing that ends and stays within a buffer of n pixels.\<close>

definition safe :: "nat \<Rightarrow> drawing \<Rightarrow> bool" where
  "safe n m \<longleftrightarrow> (\<forall>fb. length fb = n \<longrightarrow> (\<exists>fb'. m fb = Some (Inr fb') \<and> length fb' = n))"

text \<open>A screen of H lines of sw pixels in a buffer of n.\<close>

definition screen :: "nat \<Rightarrow> int \<Rightarrow> int \<Rightarrow> bool" where
  "screen n sw H \<longleftrightarrow> 0 < sw \<and> 0 < H \<and> sw * H \<le> int n \<and> int n < 2 ^ 32"

named_theorems safe_rules \<open>drawings that end and stay within the buffer\<close>

lemma safeD: "safe n m \<Longrightarrow> length fb = n \<Longrightarrow> \<exists>fb'. m fb = Some (Inr fb') \<and> length fb' = n"
  by (simp add: safe_def)

lemma safe_draw_all [safe_rules]: "(\<And>m. m \<in> set ms \<Longrightarrow> safe n m) \<Longrightarrow> safe n (draw_all ms)"
proof (induction ms)
  case (Cons m ms)
  then have "safe n m" "safe n (draw_all ms)" by simp_all
  then show ?case unfolding safe_def by fastforce
qed (simp add: safe_def)

lemma index_bound:
  assumes "screen n sw H" "0 \<le> x" "x < sw" "0 \<le> y" "y < H"
  shows "0 \<le> y * sw + x" "y * sw + x < int n" "y * sw + x < 2 ^ 32" "pixel_index sw x y = y * sw + x"
proof -
  have "(y + 1) * sw \<le> H * sw" using assms unfolding screen_def by (intro mult_right_mono) auto
  moreover have "(y + 1) * sw = y * sw + sw" by (simp add: algebra_simps)
  moreover have "H * sw \<le> int n" using assms(1) by (simp add: screen_def mult.commute)
  ultimately show lt: "y * sw + x < int n" using assms(3) by linarith
  show nn: "0 \<le> y * sw + x" using assms by (simp add: screen_def)
  show l32: "y * sw + x < 2 ^ 32" using lt assms(1) by (simp add: screen_def)
  show "pixel_index sw x y = y * sw + x" using nn l32 by (simp add: pixel_index_def)
qed

lemma safe_store: "0 \<le> i \<Longrightarrow> i < int n \<Longrightarrow> safe n (store i c)"
  by (auto simp: safe_def store_def)

lemma safe_put_pixel: "screen n sw H \<Longrightarrow> x < sw \<Longrightarrow> y < H \<Longrightarrow> safe n (put_pixel sw x y c)"
  using index_bound [of n sw H x y] by (auto simp: put_pixel_def intro!: safe_store safe_draw_all)

lemma safe_fill_rect:
  assumes "screen n sw H" "0 \<le> x" "x + w \<le> sw" "0 \<le> y" "y + h \<le> H"
  shows "safe n (fill_rect sw x y w h c)"
proof -
  have "safe n (store (pixel_index sw x (y + row) + col) c)"
    if "0 \<le> row" "row < h" "0 \<le> col" "col < w" for row col
    using index_bound [OF assms(1), of x "y + row"] index_bound [OF assms(1), of "x + col" "y + row"] assms that
    by (intro safe_store) simp_all
  then show ?thesis using assms by (auto simp: fill_rect_def fill_rows_def intro!: safe_draw_all)
qed

lemma safe_draw_rect:
  assumes "screen n sw H" "0 \<le> x" "x + w \<le> sw" "0 \<le> y" "y + h \<le> H" "0 < w" "0 < h"
  shows "safe n (draw_rect sw x y w h c)"
  using assms by (auto simp: draw_rect_def intro!: safe_draw_all safe_fill_rect [OF assms(1)])

section \<open>Lines\<close>

lemma draw_all_append: "draw_all (ms @ ns) fb = (case draw_all ms fb of Some (Inr fb') \<Rightarrow> draw_all ns fb' | r \<Rightarrow> r)"
  by (induction ms arbitrary: fb) (auto split: option.splits sum.splits)

text \<open>The way a line takes: from each point to a neighbour, within the rectangle of its ends.\<close>

fun path :: "(int \<times> int) list \<Rightarrow> bool" where
  "path (p # q # ps) = (p \<noteq> q \<and> \<bar>fst q - fst p\<bar> \<le> 1 \<and> \<bar>snd q - snd p\<bar> \<le> 1 \<and> path (q # ps))"
| "path ps = True"

text \<open>
  After i steps along x and j along y the error term is a (j + 1) - b (i + 1), a and b the extent of the
  line; neither direction is stepped past the end.
\<close>

lemma line_no_overstep:
  fixes a b i j :: int
  assumes "0 \<le> i" "i \<le> a" "0 \<le> j" "j \<le> b" "i < a \<or> j < b" "e = a * (j + 1) - b * (i + 1)"
  shows "2 * e \<ge> - b \<Longrightarrow> i < a" "2 * e \<le> a \<Longrightarrow> j < b" "2 * e \<ge> - b \<or> 2 * e \<le> a"
proof -
  show "i < a" if s: "2 * e \<ge> - b"
  proof (rule ccontr)
    assume "\<not> i < a"
    then have i: "i = a" "j < b" using assms by auto
    have "a * (j + 1 - b) \<le> 0" using assms i by (intro mult_nonneg_nonpos) auto
    moreover have "e = a * (j + 1 - b) - b" using assms(6) i by (simp add: algebra_simps)
    ultimately show False using s i assms by linarith
  qed
  show "j < b" if s: "2 * e \<le> a"
  proof (rule ccontr)
    assume "\<not> j < b"
    then have j: "j = b" "i < a" using assms by auto
    have "0 \<le> b * (a - i - 1)" using assms j by (intro mult_nonneg_nonneg) auto
    moreover have "e = a + b * (a - i - 1)" using assms(6) j by (simp add: algebra_simps)
    ultimately show False using s j assms by linarith
  qed
  show "2 * e \<ge> - b \<or> 2 * e \<le> a" using assms by linarith
qed

definition line_point :: "int \<Rightarrow> int \<Rightarrow> int \<Rightarrow> int \<Rightarrow> int \<Rightarrow> int \<Rightarrow> int \<times> int" where
  "line_point x0 y0 sx sy i j = (x0 + sx * i, y0 + sy * j)"

definition line_way :: "int \<Rightarrow> int \<Rightarrow> int \<Rightarrow> int \<Rightarrow> int \<Rightarrow> int \<Rightarrow> int \<Rightarrow> int \<Rightarrow> (int \<times> int) list \<Rightarrow> bool" where
  "line_way x0 y0 sx sy a b i j ps \<longleftrightarrow> ps \<noteq> [] \<and> hd ps = line_point x0 y0 sx sy i j \<and> last ps = line_point x0 y0 sx sy a b
     \<and> path ps \<and> set ps \<subseteq> {line_point x0 y0 sx sy i' j' | i' j'. 0 \<le> i' \<and> i' \<le> a \<and> 0 \<le> j' \<and> j' \<le> b}
     \<and> length ps \<le> nat (a - i + (b - j)) + 1"

lemma line_way_step:
  assumes "line_way x0 y0 sx sy a b i' j' ps" "\<bar>sx\<bar> = 1" "\<bar>sy\<bar> = 1" "0 \<le> i" "0 \<le> j" "i' \<le> a" "j' \<le> b"
    and "i' \<in> {i, i + 1}" "j' \<in> {j, j + 1}" "(i, j) \<noteq> (i', j')"
  shows "line_way x0 y0 sx sy a b i j (line_point x0 y0 sx sy i j # ps)"
proof -
  obtain p qs where ps: "ps = p # qs" using assms(1) by (cases ps) (auto simp: line_way_def)
  have p: "p = line_point x0 y0 sx sy i' j'" using assms(1) ps by (simp add: line_way_def)
  have le: "i \<le> a" "j \<le> b" using assms(6-9) by auto
  have "line_point x0 y0 sx sy i j \<in> {line_point x0 y0 sx sy i' j' | i' j'. 0 \<le> i' \<and> i' \<le> a \<and> 0 \<le> j' \<and> j' \<le> b}"
    using le assms(4,5) by blast
  moreover have "path (line_point x0 y0 sx sy i j # ps)"
    using assms ps p by (auto simp: line_way_def line_point_def algebra_simps)
  moreover have "length (line_point x0 y0 sx sy i j # ps) \<le> nat (a - i + (b - j)) + 1"
    using assms by (auto simp: line_way_def)
  ultimately show ?thesis using assms(1) by (auto simp: line_way_def)
qed

abbreviation put_points :: "int \<Rightarrow> u32 \<Rightarrow> (int \<times> int) list \<Rightarrow> drawing" where
  "put_points sw c ps \<equiv> draw_all (map (\<lambda>(x, y). put_pixel sw x y c) ps)"

text \<open>The error term stays within three half distances, so that twice the term does not overflow.\<close>

definition err_ok :: "int \<Rightarrow> int \<Rightarrow> int \<Rightarrow> bool" where
  "err_ok a b e \<longleftrightarrow> - 3 * b \<le> 2 * e \<and> 2 * e \<le> 3 * a"

lemma err_step:
  assumes "err_ok a b e" "0 \<le> a" "0 \<le> b" "3 * a < 2 ^ 31" "3 * b < 2 ^ 31"
    and "e1 = (if 2 * e \<ge> - b then e + - b else e)" "e2 = (if 2 * e \<le> a then e1 + a else e1)"
  shows "err_ok a b e2" "in_int32 (2 * e)" "in_int32 e1" "in_int32 e2"
  using assms by (auto simp: err_ok_def in_int32_def split: if_splits)

definition line_small :: "int \<Rightarrow> int \<Rightarrow> int \<Rightarrow> int \<Rightarrow> int \<Rightarrow> int \<Rightarrow> bool" where
  "line_small x0 y0 sx sy a b \<longleftrightarrow> 3 * a < 2 ^ 31 \<and> 3 * b < 2 ^ 31
     \<and> list_all in_int32 [x0, x0 + sx * a, y0, y0 + sy * b]"

lemma int32_between:
  assumes "in_int32 x" "in_int32 (x + s * a)" "\<bar>s\<bar> = 1" "0 \<le> i" "i \<le> a"
  shows "in_int32 (x + s * i)"
  using assms by (cases "s = 1") (auto simp: in_int32_def abs_if split: if_splits)

text \<open>One round of the loop, from i and j to i' and j'.\<close>

lemma line_loop_round:
  assumes one: "\<bar>sx\<bar> = 1" "\<bar>sy\<bar> = 1" and r: "0 \<le> i" "i \<le> a" "0 \<le> j" "j \<le> b" "i < a \<or> j < b"
    and e: "e = a * (j + 1) - b * (i + 1)" "err_ok a b e" and small: "line_small x0 y0 sx sy a b"
    and n: "i' = (if 2 * e \<ge> - b then i + 1 else i)" "j' = (if 2 * e \<le> a then j + 1 else j)" "e' = a * (j' + 1) - b * (i' + 1)"
  shows "err_ok a b e'" "0 \<le> i'" "i' \<le> a" "0 \<le> j'" "j' \<le> b" "(i, j) \<noteq> (i', j')"
    "line_loop sw c (x0 + sx * a) (y0 + sy * b) a (- b) sx sy (x0 + sx * i) (y0 + sy * j) e fb
      = (case put_pixel sw (x0 + sx * i) (y0 + sy * j) c fb of
           Some (Inr fb') \<Rightarrow> line_loop sw c (x0 + sx * a) (y0 + sy * b) a (- b) sx sy (x0 + sx * i') (y0 + sy * j') e' fb' | r \<Rightarrow> r)"
proof -
  define e1 where "e1 = (if 2 * e \<ge> - b then e + - b else e)"
  note st = line_no_overstep [OF r e(1)]
  show i': "0 \<le> i'" "i' \<le> a" "0 \<le> j'" "j' \<le> b" "(i, j) \<noteq> (i', j')" using st r n by auto
  have e': "e' = (if 2 * e \<le> a then e1 + a else e1)" by (simp add: n e1_def e(1) algebra_simps)
  have s: "3 * a < 2 ^ 31" "3 * b < 2 ^ 31" "0 \<le> a" "0 \<le> b" using small r by (simp_all add: line_small_def)
  note ok = err_step [OF e(2) s(3,4,1,2) e1_def e']
  show "err_ok a b e'" by (rule ok)
  have xy: "in_int32 (x0 + sx * i')" "in_int32 (y0 + sy * j')"
    using small i' one by (auto simp: line_small_def intro: int32_between)
  have to: "(if 2 * e \<ge> - b then x0 + sx * i + sx else x0 + sx * i) = x0 + sx * i'"
    "(if 2 * e \<le> a then y0 + sy * j + sy else y0 + sy * j) = y0 + sy * j'" by (simp_all add: n algebra_simps)
  have ne: "(x0 + sx * i = x0 + sx * a \<and> y0 + sy * j = y0 + sy * b) = False" using r(5) one by auto
  show "line_loop sw c (x0 + sx * a) (y0 + sy * b) a (- b) sx sy (x0 + sx * i) (y0 + sy * j) e fb
      = (case put_pixel sw (x0 + sx * i) (y0 + sy * j) c fb of
           Some (Inr fb') \<Rightarrow> line_loop sw c (x0 + sx * a) (y0 + sy * b) a (- b) sx sy (x0 + sx * i') (y0 + sy * j') e' fb' | r \<Rightarrow> r)"
    by (subst line_loop.simps, unfold Let_def to e1_def [symmetric] e' [symmetric] ne) (simp add: ok xy split: option.split sum.split)
qed

lemma line_loop_way:
  assumes "\<bar>sx\<bar> = 1" "\<bar>sy\<bar> = 1" "0 \<le> i" "i \<le> a" "0 \<le> j" "j \<le> b" "err_ok a b (a * (j + 1) - b * (i + 1))"
    and small: "line_small x0 y0 sx sy a b"
  shows "\<exists>ps. line_way x0 y0 sx sy a b i j ps \<and> (\<forall>fb. line_loop sw c (x0 + sx * a) (y0 + sy * b) a (- b) sx sy
      (x0 + sx * i) (y0 + sy * j) (a * (j + 1) - b * (i + 1)) fb = put_points sw c ps fb)"
  using assms(1-7)
proof (induction "nat (a - i + (b - j))" arbitrary: i j rule: less_induct)
  case less
  let ?e = "a * (j + 1) - b * (i + 1)"
  show ?case
  proof (cases "i = a \<and> j = b")
    case True
    have "line_way x0 y0 sx sy a b i j [line_point x0 y0 sx sy i j]"
      using True less.prems by (auto simp: line_way_def)
    moreover have "line_loop sw c (x0 + sx * a) (y0 + sy * b) a (- b) sx sy (x0 + sx * i) (y0 + sy * j) ?e fb
        = put_points sw c [line_point x0 y0 sx sy i j] fb" for fb
      using True by (subst line_loop.simps) (auto simp: line_point_def split: option.splits sum.splits)
    ultimately show ?thesis by blast
  next
    case False
    define i' where "i' = (if 2 * ?e \<ge> - b then i + 1 else i)"
    define j' where "j' = (if 2 * ?e \<le> a then j + 1 else j)"
    have ne: "i < a \<or> j < b" using False less.prems by auto
    note round = line_loop_round [OF less.prems(1-6) ne refl less.prems(7) small i'_def j'_def refl]
    have "nat (a - i' + (b - j')) < nat (a - i + (b - j))" using round(2-6) unfolding i'_def j'_def by (simp split: if_splits)
    then obtain ps where ps: "line_way x0 y0 sx sy a b i' j' ps"
      "\<And>fb. line_loop sw c (x0 + sx * a) (y0 + sy * b) a (- b) sx sy (x0 + sx * i') (y0 + sy * j') (a * (j' + 1) - b * (i' + 1)) fb
        = put_points sw c ps fb"
      using less.hyps [OF _ less.prems(1,2) round(2-5,1)] by blast
    have "line_way x0 y0 sx sy a b i j (line_point x0 y0 sx sy i j # ps)"
      using line_way_step [OF ps(1) less.prems(1,2,3,5) round(3,5)] round(6) by (auto simp: i'_def j'_def)
    moreover have "line_loop sw c (x0 + sx * a) (y0 + sy * b) a (- b) sx sy (x0 + sx * i) (y0 + sy * j) ?e fb
        = put_points sw c (line_point x0 y0 sx sy i j # ps) fb" for fb
      unfolding round(7) ps(2) by (simp add: line_point_def)
    ultimately show ?thesis by blast
  qed
qed

lemma draw_line_way:
  assumes "list_all in_int32 [x0, y0, x1, y1]" "3 * \<bar>x1 - x0\<bar> < 2 ^ 31" "3 * \<bar>y1 - y0\<bar> < 2 ^ 31"
  obtains ps where "ps \<noteq> []" "hd ps = (x0, y0)" "last ps = (x1, y1)" "path ps"
    "set ps \<subseteq> {min x0 x1..max x0 x1} \<times> {min y0 y1..max y0 y1}" "length ps \<le> nat (\<bar>x1 - x0\<bar> + \<bar>y1 - y0\<bar>) + 1"
    "draw_line sw x0 y0 x1 y1 c = put_points sw c ps"
proof -
  define a b sx sy where ab: "a = \<bar>x1 - x0\<bar>" "b = \<bar>y1 - y0\<bar>" "sx = (if x0 < x1 then 1 else -1 :: int)"
    "sy = (if y0 < y1 then 1 else -1 :: int)"
  have ends: "x0 + sx * a = x1" "y0 + sy * b = y1" and one: "\<bar>sx\<bar> = 1" "\<bar>sy\<bar> = 1" by (auto simp: ab)
  have nn: "0 \<le> a" "0 \<le> b" by (simp_all add: ab)
  moreover have "line_small x0 y0 sx sy a b" "err_ok a b (a - b)"
    using assms nn by (simp_all add: line_small_def ends err_ok_def flip: ab(1,2))
  ultimately obtain ps where ps: "line_way x0 y0 sx sy a b 0 0 ps"
    "\<And>fb. line_loop sw c x1 y1 a (- b) sx sy x0 y0 (a - b) fb = put_points sw c ps fb"
    using line_loop_way [OF one, of 0 a 0 b x0 y0 sw c] by (auto simp: ends)
  have "line_point x0 y0 sx sy i j \<in> {min x0 x1..max x0 x1} \<times> {min y0 y1..max y0 y1}"
    if "0 \<le> i" "i \<le> a" "0 \<le> j" "j \<le> b" for i j
    using that by (auto simp: line_point_def ab)
  then have "set ps \<subseteq> {min x0 x1..max x0 x1} \<times> {min y0 y1..max y0 y1}"
    using ps(1) unfolding line_way_def by blast
  moreover have "list_all in_int32 [x1 - x0, a, y1 - y0, b, a + - b]"
  proof -
    have "- a \<le> x1 - x0" "x1 - x0 \<le> a" "- b \<le> y1 - y0" "y1 - y0 \<le> b" "3 * a < 2 ^ 31" "3 * b < 2 ^ 31"
      using assms(2,3) by (simp_all add: ab)
    then show ?thesis using nn by (simp add: in_int32_def)
  qed
  then have "draw_line sw x0 y0 x1 y1 c = put_points sw c ps"
    using ps(2) by (intro ext) (simp add: draw_line_def ab Let_def)
  ultimately show ?thesis
    using that [of ps] ps(1) ends by (simp add: line_way_def line_point_def ab)
qed

text \<open>
  C20. A line between two ends that are ints, whose distances are less than a third of 2^31, is drawn in finitely
  many steps and without an overflow: the pixels put are a way from the first end to the second, each a
  neighbour of the one before it, none outside the rectangle of the two ends, and no more than the width and
  the height of that rectangle together, plus one.
\<close>

theorem draw_line_path:
  assumes "list_all in_int32 [x0, y0, x1, y1]" "3 * \<bar>x1 - x0\<bar> < 2 ^ 31" "3 * \<bar>y1 - y0\<bar> < 2 ^ 31"
  shows "\<exists>ps. ps \<noteq> [] \<and> hd ps = (x0, y0) \<and> last ps = (x1, y1) \<and> path ps
     \<and> set ps \<subseteq> {min x0 x1..max x0 x1} \<times> {min y0 y1..max y0 y1}
     \<and> length ps \<le> nat (\<bar>x1 - x0\<bar> + \<bar>y1 - y0\<bar>) + 1
     \<and> draw_line sw x0 y0 x1 y1 c = put_points sw c ps"
  by (rule draw_line_way [OF assms, of sw c]) blast

lemma draw_line_path_witness:
  "\<exists>ps. hd ps = (5, 1) \<and> last ps = (-2, 4) \<and> path ps \<and> draw_line 8 5 1 (-2) 4 C_WHITE = put_points 8 C_WHITE ps"
proof -
  have "list_all in_int32 [5, 1, -2, 4]" by (simp add: in_int32_def)
  from draw_line_path [OF this, of 8 C_WHITE] show ?thesis by auto
qed

text \<open>Further apart the first round already overflows.\<close>

lemma draw_line_overflow:
  assumes "2 ^ 30 \<le> \<bar>x1 - x0\<bar> - \<bar>y1 - y0\<bar>" "put_pixel sw x0 y0 c fb = Some (Inr fb')"
  shows "draw_line sw x0 y0 x1 y1 c fb = Some (Inl SignedOverflow)"
proof -
  define dx dy where d: "dx = \<bar>x1 - x0\<bar>" "dy = - \<bar>y1 - y0\<bar>"
  have "(x0 = x1 \<and> y0 = y1) = False" "in_int32 (2 * (dx + dy)) = False" using assms(1) by (auto simp: in_int32_def d)
  then have "line_loop sw c x1 y1 dx dy sx sy x0 y0 (dx + dy) fb = Some (Inl SignedOverflow)" for sx sy
    using assms(2) by (subst line_loop.simps) (simp only: Let_def list.pred_inject if_False simp_thms option.case sum.case)
  then show ?thesis by (simp only: draw_line_def Let_def d [symmetric] if_cancel)
qed

lemma safe_draw_line:
  assumes s: "screen n sw H" and m: "max x0 x1 < sw" "max y0 y1 < H"
    and small: "list_all (\<lambda>v. - 100 \<le> v \<and> v \<le> 2 ^ 29 + 100) [x0, x1, y0, y1]"
  shows "safe n (draw_line sw x0 y0 x1 y1 c)"
proof -
  have "list_all in_int32 [x0, y0, x1, y1]" "3 * \<bar>x1 - x0\<bar> < 2 ^ 31" "3 * \<bar>y1 - y0\<bar> < 2 ^ 31"
    using small by (simp_all add: in_int32_def abs_le_iff abs_less_iff abs_if)
  then obtain ps where ps: "draw_line sw x0 y0 x1 y1 c = put_points sw c ps"
    "set ps \<subseteq> {min x0 x1..max x0 x1} \<times> {min y0 y1..max y0 y1}" by (rule draw_line_way [of x0 y0 x1 y1 sw c])
  show ?thesis unfolding ps(1)
    using m ps(2) by (intro safe_draw_all) (fastforce intro: safe_put_pixel [OF s])
qed

section \<open>The layers\<close>

lemma safe_crosshair:
  assumes "screen n sw H" "cx + 30 < sw" "cy + 30 < H" "15 \<le> cx" "15 \<le> cy" "cx \<le> 2 ^ 29" "cy \<le> 2 ^ 29"
  shows "safe n (draw_crosshair sw cx cy 30 c)"
  using assms by (auto simp: draw_crosshair_def intro!: safe_draw_all safe_draw_line [OF assms(1)] safe_draw_rect [OF assms(1)])

lemma bar_edges:
  assumes "0 \<le> W" "i < 8"
  shows "0 \<le> int i * (W div 8)" "int i * (W div 8) + W div 8 \<le> W"
proof -
  have "(int i + 1) * (W div 8) \<le> 8 * (W div 8)" using assms by (intro mult_right_mono) auto
  then show "int i * (W div 8) + W div 8 \<le> W" by (simp add: algebra_simps)
  show "0 \<le> int i * (W div 8)" using assms by simp
qed

lemma safe_colour_bars:
  assumes "screen n sw H" "0 \<le> W" "W \<le> sw" "0 \<le> bh" "bh \<le> H" "W < 2 ^ 29" "bh < 2 ^ 29"
  shows "safe n (colour_bars sw (W div 8) bh)"
  unfolding colour_bars_def
proof (intro safe_draw_all)
  fix m assume "m \<in> set (map (\<lambda>i. draw_all [fill_rect sw (int i * (W div 8)) 0 (W div 8) bh (smpte_colors ! i),
      if i < 7 then draw_line sw (int (i + 1) * (W div 8)) 0 (int (i + 1) * (W div 8)) (bh - 1) 0xFF444444 else draw_all []]) [0..<8])"
  then obtain i where i: "i < 8" and m: "m = draw_all [fill_rect sw (int i * (W div 8)) 0 (W div 8) bh (smpte_colors ! i),
      if i < 7 then draw_line sw (int (i + 1) * (W div 8)) 0 (int (i + 1) * (W div 8)) (bh - 1) 0xFF444444 else draw_all []]"
    by auto
  note e = bar_edges [OF assms(2) i]
  have l: "safe n (draw_line sw (int (i + 1) * (W div 8)) 0 (int (i + 1) * (W div 8)) (bh - 1) 0xFF444444)" if "i < 7"
  proof (rule safe_draw_line [OF assms(1)])
    have "int (i + 1) * (W div 8) + W div 8 \<le> W" using bar_edges(2) [of W "i + 1"] assms(2) that by simp
    then show "max (int (i + 1) * (W div 8)) (int (i + 1) * (W div 8)) < sw"
      using assms(1-3) by (cases "W div 8 = 0") (auto simp: screen_def)
    show "max 0 (bh - 1) < H" using assms(1,5) by (auto simp: screen_def)
    show "list_all (\<lambda>v. - 100 \<le> v \<and> v \<le> 2 ^ 29 + 100)
        [int (i + 1) * (W div 8), int (i + 1) * (W div 8), 0, bh - 1]"
      using bar_edges(1) [OF assms(2), of "i + 1"] \<open>int (i + 1) * (W div 8) + W div 8 \<le> W\<close> assms(2,4,6,7) that
      by (simp only: list.pred_inject simp_thms) (intro conjI; linarith)
  qed
  have r: "safe n (fill_rect sw (int i * (W div 8)) 0 (W div 8) bh (smpte_colors ! i))"
    using e assms by (intro safe_fill_rect [OF assms(1)]) auto
  have "safe n (if i < 7 then draw_line sw (int (i + 1) * (W div 8)) 0 (int (i + 1) * (W div 8)) (bh - 1) 0xFF444444 else draw_all [])"
    using l safe_draw_all [of "[]"] by simp
  with r show "safe n m" unfolding m by (intro safe_draw_all) auto
qed

lemma safe_gradient:
  assumes "screen n sw H" "0 \<le> W" "W \<le> sw" "W < 2 ^ 29" "0 \<le> y" "0 \<le> h" "y + h \<le> H"
  shows "safe n (gradient sw W y h)"
proof -
  have m: "(k * W) mod 2 ^ 32 = k * W" if "0 \<le> k" "k \<le> 4" for k
  proof (rule mod_pos_pos_trivial)
    have "k * W \<le> 4 * W" using that assms(2) by (intro mult_right_mono) auto
    then show "k * W < 2 ^ 32" using assms(4) by simp
  qed (use that assms in simp)
  show ?thesis
    unfolding gradient_def using assms m [of 2] m [of 3] m [of 4]
    by (auto intro!: safe_draw_all safe_fill_rect [OF assms(1)])
qed

lemma safe_dim_pixel:
  assumes "screen n sw H" "0 \<le> x" "x < sw" "0 \<le> y" "y < H"
  shows "safe n (dim_pixel sw x y)"
  using index_bound [OF assms] safeD [OF safe_put_pixel [OF assms(1) assms(3,5)]]
  by (auto simp: safe_def dim_pixel_def Let_def)

lemma safe_grid_column:
  assumes "screen n sw H" "0 \<le> x" "x < sw" "bh \<le> H"
  shows "safe n (grid_column sw bh x)"
  unfolding grid_column_def using assms
  by (auto intro!: safe_draw_all safe_dim_pixel [OF assms(1-3)])

lemma safe_grid:
  assumes "screen n sw H" "16 \<le> W" "W \<le> sw" "W < 2 ^ 29" "bh \<le> H" "0 \<le> gx"
  shows "safe n (grid sw W bh gx)"
  using assms(6)
proof (induction "nat (W - gx)" arbitrary: gx rule: less_induct)
  case less
  show ?case
  proof (cases "gx < W")
    case True
    have st: "0 < W div 16" using assms(2) by simp
    then have "(gx + W div 16) mod 2 ^ 32 = gx + W div 16"
      using True less.prems assms(4) by (intro mod_pos_pos_trivial) auto
    moreover have "safe n (grid sw W bh (gx + W div 16))" using True st less.prems by (intro less.hyps) auto
    moreover have "safe n (grid_column sw bh gx)" using True less.prems assms by (intro safe_grid_column) auto
    ultimately show ?thesis using True unfolding safe_def by (subst grid.simps) fastforce
  next
    case False
    then show ?thesis unfolding safe_def by (subst grid.simps) simp
  qed
qed

lemma safe_circle:
  assumes "screen n sw H" "\<And>k. 0 \<le> k \<Longrightarrow> k \<le> 10000 \<Longrightarrow> 0 \<le> root k \<and> root k * root k \<le> k" "0 \<le> r" "r \<le> 100" "cx + r < sw" "cy + r < H"
  shows "safe n (circle root sw cx cy r)"
proof -
  have "root (r * r - dy * dy) \<le> r \<and> 0 \<le> root (r * r - dy * dy)" if "- r \<le> dy" "dy \<le> r" for dy
  proof -
    have "dy * dy \<le> r * r" using that by (metis abs_le_iff abs_le_square_iff abs_of_nonneg assms(3) minus_le_iff power2_eq_square)
    moreover have "r * r \<le> 100 * 100" using assms(3,4) by (intro mult_mono) auto
    moreover have "0 \<le> dy * dy" by simp
    ultimately have "0 \<le> r * r - dy * dy" "r * r - dy * dy \<le> 10000" by linarith+
    then have "0 \<le> root (r * r - dy * dy)" "root (r * r - dy * dy) * root (r * r - dy * dy) \<le> r * r - dy * dy"
      using assms(2) by simp_all
    moreover from this have "root (r * r - dy * dy) * root (r * r - dy * dy) \<le> r * r"
      by (smt (verit) zero_le_square)
    ultimately show ?thesis using assms(3) by (metis abs_le_square_iff abs_of_nonneg power2_eq_square)
  qed
  then show ?thesis
    unfolding circle_def Let_def using assms
    by (auto intro!: safe_draw_all safe_put_pixel [OF assms(1)]) (smt (verit))+
qed

lemma c_int_small: "0 \<le> k \<Longrightarrow> k < 2 ^ 31 \<Longrightarrow> c_int k = k"
  by (simp add: c_int_def)

lemma safe_paint:
  assumes "screen n sw H" "488 \<le> W" "W \<le> sw" "W < 2 ^ 29" "64 \<le> H" "H < 2 ^ 29"
    and "\<And>k. 0 \<le> k \<Longrightarrow> k \<le> 10000 \<Longrightarrow> 0 \<le> root k \<and> root k * root k \<le> k"
  shows "safe n (paint root W H sw)"
proof -
  define bh where "bh = H * 3 div 4"
  have bh: "(H * 3) mod 2 ^ 32 div 4 = bh" "48 \<le> bh" "bh \<le> H" "bh div 2 + 30 < H" "c_int (H - bh) = H - bh" "bh div 2 + 100 < H + 100"
    using assms(5,6) by (auto simp: bh_def c_int_small)
  have cross: "safe n (draw_crosshair sw (int i * (W div 8) + W div 8 div 2) (bh div 2) 30 C_WHITE)" if "i < 8" for i
  proof (rule safe_crosshair [OF assms(1)])
    show "int i * (W div 8) + W div 8 div 2 + 30 < sw" "15 \<le> int i * (W div 8) + W div 8 div 2"
      using bar_edges [of W i] bar_edges(1) [of W i] that assms(2,3) by (auto simp del: zero_le_mult_iff mult_nonneg_nonneg)
    show "int i * (W div 8) + W div 8 div 2 \<le> 2 ^ 29" "bh div 2 \<le> 2 ^ 29"
      using bar_edges [of W i] that assms(2,4,6) bh by auto
    show "bh div 2 + 30 < H" "15 \<le> bh div 2" using bh by auto
  qed
  define r where "r = (if bh div 4 < 100 then bh div 4 else 100)"
  have r: "0 \<le> r" "r \<le> 100" "W div 2 + r < sw" "bh div 2 + r < H" using assms(2,3) bh(2,3,4) by (auto simp: r_def)
  have "safe n (colour_bars sw (W div 8) bh)" using assms(2-4,6) bh by (intro safe_colour_bars [OF assms(1)]) auto
  moreover have "safe n (gradient sw W bh (H - bh))" using assms(2-4) bh by (intro safe_gradient [OF assms(1)]) auto
  moreover have "safe n (grid sw W bh 0)" using assms(2-4) bh by (intro safe_grid [OF assms(1)]) auto
  moreover have "safe n (draw_all (map (\<lambda>i. draw_crosshair sw (int i * (W div 8) + W div 8 div 2) (bh div 2) 30 C_WHITE) [0..<8]))"
    using cross by (intro safe_draw_all) (auto simp del: upt_rec_numeral)
  moreover have "safe n (draw_rect sw 0 0 W H C_WHITE)" "safe n (draw_rect sw 2 2 (W - 4) (H - 4) C_WHITE)"
    using assms(2-6) by (auto intro!: safe_draw_rect [OF assms(1)])
  moreover have "safe n (circle root sw (W div 2) (bh div 2) r)" using r assms(7) by (intro safe_circle [OF assms(1)]) auto
  moreover have "c_int W = W" "c_int H = H" "c_int (W - 4) = W - 4" "c_int (H - 4) = H - 4"
    using assms(2-6) by (auto simp: c_int_small)
  ultimately show ?thesis
    unfolding paint_def Let_def bh(1) bh(5) r_def by (intro safe_draw_all) (auto simp del: upt_rec_numeral)
qed

section \<open>Rectangles\<close>

lemma draw_all_concat: "draw_all (map draw_all mss) fb = draw_all (concat mss) fb"
  by (induction mss arbitrary: fb) (auto simp: draw_all_append split: option.splits sum.splits)

lemma store_ok: "nat i < length fb \<Longrightarrow> store i c fb = Some (Inr (fb[nat i := c]))"
  by (simp add: store_def)

lemma set_map_int: "set (map int [0..<nat w]) = {0..<w}"
  by (cases "0 \<le> w") (simp_all add: image_int_atLeastLessThan)

lemma store_all:
  "(\<And>i. i \<in> set is \<Longrightarrow> 0 \<le> i \<and> i < int (length fb)) \<Longrightarrow> \<exists>fb'. draw_all (map (\<lambda>i. store i c) is) fb = Some (Inr fb')
     \<and> length fb' = length fb \<and> (\<forall>k<length fb. fb' ! k = (if int k \<in> set is then c else fb ! k))"
proof (induction "is" arbitrary: fb)
  case (Cons i "is")
  have "0 \<le> i \<and> i < int (length fb)" using Cons.prems [of i] by simp
  then have i: "0 \<le> i" "nat i < length fb" by auto
  have "\<exists>fb'. draw_all (map (\<lambda>i. store i c) is) (fb[nat i := c]) = Some (Inr fb')
     \<and> length fb' = length (fb[nat i := c]) \<and> (\<forall>k<length (fb[nat i := c]). fb' ! k = (if int k \<in> set is then c else fb[nat i := c] ! k))"
    using Cons.prems by (intro Cons.IH) auto
  then show ?case using i by (auto simp: store_ok nth_list_update)
qed auto

lemma row_col_unique:
  fixes X Y X' Y' sw :: int
  assumes "0 \<le> X" "X < sw" "0 \<le> X'" "X' < sw" "Y * sw + X = Y' * sw + X'"
  shows "X = X' \<and> Y = Y'"
proof -
  have q: "(k * sw + r) div sw = k" if "0 \<le> r" "r < sw" for k r :: int using that by simp
  have "Y = Y'" using q [OF assms(1,2), of Y] q [OF assms(3,4), of Y'] assms(5) by metis
  then show ?thesis using assms(5) by simp
qed

text \<open>The pixels of a rectangle in the order they are stored, and which they are.\<close>

definition rect_indices :: "int \<Rightarrow> int \<Rightarrow> int \<Rightarrow> int \<Rightarrow> int \<Rightarrow> int list" where
  "rect_indices sw x y w h = concat (map (\<lambda>row. map (\<lambda>col. pixel_index sw x (y + row) + col) (map int [0..<nat w])) (map int [0..<nat h]))"

lemma fill_rows_indices: "fill_rows sw x y w h c fb = draw_all (map (\<lambda>i. store i c) (rect_indices sw x y w h)) fb"
  unfolding fill_rows_def rect_indices_def by (simp add: map_concat comp_def flip: draw_all_concat)

lemma rect_indices_iff:
  assumes "screen n sw H" "0 \<le> x" "0 \<le> y" "0 < w \<longrightarrow> x + w \<le> sw" "0 < h \<longrightarrow> y + h \<le> H"
  shows "i \<in> set (rect_indices sw x y w h) \<longleftrightarrow>
    (\<exists>row col. 0 \<le> row \<and> row < h \<and> 0 \<le> col \<and> col < w \<and> i = (y + row) * sw + (x + col))"
proof -
  have "set (rect_indices sw x y w h) = (\<Union>row\<in>{0..<h}. (\<lambda>col. pixel_index sw x (y + row) + col) ` {0..<w})"
    unfolding rect_indices_def set_concat set_map [of "\<lambda>row. map (\<lambda>col. pixel_index sw x (y + row) + col) (map int [0..<nat w])"]
      set_map_int set_map [of "\<lambda>col. pixel_index sw x (y + _) + col"] image_image by simp
  also have "\<dots> = (\<Union>row\<in>{0..<h}. (\<lambda>col. (y + row) * sw + (x + col)) ` {0..<w})"
    by (intro SUP_cong refl image_cong) (use index_bound(4) [OF assms(1), of x] assms in auto)
  finally have s: "set (rect_indices sw x y w h) = (\<Union>row\<in>{0..<h}. (\<lambda>col. (y + row) * sw + (x + col)) ` {0..<w})" .
  show ?thesis
    unfolding s UN_iff image_iff Bex_def atLeastLessThan_iff ex_simps(2) [symmetric] conj_assoc ..
qed

lemma rect_indices_pixel:
  assumes "screen n sw H" "0 \<le> x" "0 \<le> y" "0 < w \<longrightarrow> x + w \<le> sw" "0 < h \<longrightarrow> y + h \<le> H" "0 \<le> X" "X < sw"
  shows "Y * sw + X \<in> set (rect_indices sw x y w h) \<longleftrightarrow> x \<le> X \<and> X < x + w \<and> y \<le> Y \<and> Y < y + h"
proof
  assume "Y * sw + X \<in> set (rect_indices sw x y w h)"
  then obtain row col where rc: "0 \<le> row" "row < h" "0 \<le> col" "col < w" "Y * sw + X = (y + row) * sw + (x + col)"
    unfolding rect_indices_iff [OF assms(1-5)] by (elim exE conjE)
  then have "X = x + col \<and> Y = y + row" using row_col_unique [of X sw "x + col" Y "y + row"] assms by simp
  then show "x \<le> X \<and> X < x + w \<and> y \<le> Y \<and> Y < y + h" using rc by simp
next
  assume "x \<le> X \<and> X < x + w \<and> y \<le> Y \<and> Y < y + h"
  then show "Y * sw + X \<in> set (rect_indices sw x y w h)"
    unfolding rect_indices_iff [OF assms(1-5)] by (intro exI [of _ "Y - y"] exI [of _ "X - x"]) simp
qed

lemma rect_indices_bound:
  assumes "screen n sw H" "0 \<le> x" "0 \<le> y" "0 < w \<longrightarrow> x + w \<le> sw" "0 < h \<longrightarrow> y + h \<le> H"
    and i: "i \<in> set (rect_indices sw x y w h)"
  shows "0 \<le> i \<and> i < int n"
proof -
  obtain row col where rc: "0 \<le> row" "row < h" "0 \<le> col" "col < w" "i = (y + row) * sw + (x + col)"
    using i unfolding rect_indices_iff [OF assms(1-5)] by (elim exE conjE)
  then show ?thesis using index_bound(1,2) [OF assms(1), of "x + col" "y + row"] assms by simp
qed

text \<open>
  A filled rectangle sets exactly the pixels of the rectangle, clipped at the left and the upper edge, on
  any screen it does not leave to the right or below; every other pixel keeps its colour.
\<close>

theorem fill_rect_pixels:
  assumes "screen n sw H" "length fb = n" "x + w \<le> sw" "y + h \<le> H"
  shows "\<exists>fb'. fill_rect sw x y w h c fb = Some (Inr fb') \<and> length fb' = n
    \<and> (\<forall>X Y. 0 \<le> X \<longrightarrow> X < sw \<longrightarrow> 0 \<le> Y \<longrightarrow> Y < H \<longrightarrow>
         fb' ! nat (Y * sw + X) = (if x \<le> X \<and> X < x + w \<and> y \<le> Y \<and> Y < y + h then c else fb ! nat (Y * sw + X)))"
proof -
  define x' y' w' h' where d: "x' = max 0 x" "y' = max 0 y" "w' = (if x < 0 then w + x else w)" "h' = (if y < 0 then h + y else h)"
  have b: "0 \<le> x'" "0 \<le> y'" "0 < w' \<longrightarrow> x' + w' \<le> sw" "0 < h' \<longrightarrow> y' + h' \<le> H" using assms(3,4) by (auto simp: d)
  define ps where "ps = rect_indices sw x' y' w' h'"
  have eq: "fill_rect sw x y w h c fb = draw_all (map (\<lambda>i. store i c) ps) fb"
    unfolding fill_rect_def d [symmetric] ps_def by (rule fill_rows_indices)
  have "0 \<le> i \<and> i < int (length fb)" if "i \<in> set ps" for i
    using rect_indices_bound [OF assms(1) b] that assms(2) by (simp add: ps_def)
  from store_all [of ps fb c, OF this] obtain fb' where
    fb': "draw_all (map (\<lambda>i. store i c) ps) fb = Some (Inr fb')" "length fb' = n"
      "\<And>k. k < n \<Longrightarrow> fb' ! k = (if int k \<in> set ps then c else fb ! k)"
    using assms(2) by blast
  have "fb' ! nat (Y * sw + X) = (if x \<le> X \<and> X < x + w \<and> y \<le> Y \<and> Y < y + h then c else fb ! nat (Y * sw + X))"
    if XY: "0 \<le> X" "X < sw" "0 \<le> Y" "Y < H" for X Y
  proof -
    have "Y * sw + X \<in> set ps \<longleftrightarrow> x \<le> X \<and> X < x + w \<and> y \<le> Y \<and> Y < y + h"
      unfolding ps_def rect_indices_pixel [OF assms(1) b XY(1,2)] using XY by (auto simp: d)
    then show ?thesis using fb'(3) [of "nat (Y * sw + X)"] index_bound(1,2) [OF assms(1) XY] by simp
  qed
  then show ?thesis using eq fb' by auto
qed

lemma fill_rect_pixels_witness:
  "\<exists>fb'. fill_rect 4 (-1) 1 3 2 C_WHITE (replicate 16 0) = Some (Inr fb') \<and> fb' ! 5 = C_WHITE \<and> fb' ! 6 = 0"
proof -
  have "screen 16 4 4" by (simp add: screen_def)
  from fill_rect_pixels [OF this, of "replicate 16 0" "-1" 3 1 2 C_WHITE] obtain fb' where
    f: "fill_rect 4 (-1) 1 3 2 C_WHITE (replicate 16 0) = Some (Inr fb')"
    and p: "\<And>X Y. 0 \<le> X \<Longrightarrow> X < 4 \<Longrightarrow> 0 \<le> Y \<Longrightarrow> Y < 4 \<Longrightarrow> fb' ! nat (Y * 4 + X) =
      (if -1 \<le> X \<and> X < 2 \<and> 1 \<le> Y \<and> Y < 3 then C_WHITE else replicate 16 0 ! nat (Y * 4 + X))"
    by auto
  from p [of 1 1] p [of 2 1] f show ?thesis by auto
qed

section \<open>The session\<close>

lemma display_open_fb: "display_open dv F G d log \<Longrightarrow> bb_display_get_fb d = Some (dp_map d, dp_width d, dp_height d, dp_stride d)"
  by (simp add: bb_display_get_fb_def display_open_def)

lemma close_result: "display_open dv F G d log \<Longrightarrow> run_state (bb_display_close dv d) log = (d', log') \<Longrightarrow> owns dv log' F G"
  using close_releases [of dv F G d log] by simp

text \<open>
  C19. On a screen of at least 488 by 64 pixels whose lines fit the buffer the tool paints the whole picture:
  no layer leaves the buffer, every loop ends, the tool returns 0, and the display is closed with
  everything given back. A display that does not open makes the tool return 1, with nothing left
  open either.
\<close>

theorem display_test_paints:
  assumes "sane dv" "drm_sane dv" "owns dv log F G" "display_type_arg argv = Some t"
    and "run_state (bb_display_open ''/dev/dri/card1'' t dv) log = (Some (d, r), log1)"
    and "488 \<le> dp_width d" "dp_width d \<le> dp_stride d div 4" "dp_width d < 2 ^ 29" "64 \<le> dp_height d" "dp_height d < 2 ^ 29"
    and "screen (length mem) (dp_stride d div 4) (dp_height d)"
    and "\<And>k. 0 \<le> k \<Longrightarrow> k \<le> 10000 \<Longrightarrow> 0 \<le> root k \<and> root k * root k \<le> k"
  shows "\<exists>mem' log'. run_state (display_test_main root mem argv dv) log = (Some (if r = 0 then 0 else 1, mem'), log')
    \<and> length mem' = length mem \<and> owns dv log' F G"
proof -
  have post: "open_post dv F G ((d, r), log1)" by (rule open_releases [OF assms(1-3,5)])
  show ?thesis
  proof (cases "r = 0")
    case True
    then have o: "display_open dv F G d log1" using post by (simp add: open_post_def)
    obtain mem' where m: "paint root (dp_width d) (dp_height d) (dp_stride d div 4) mem = Some (Inr mem')" "length mem' = length mem"
      using safeD [OF safe_paint [OF assms(11,6-10,12)] refl] by blast
    obtain fl log2 where f: "run_state (bb_display_flip dv d) log1 = (fl, log2)" by fastforce
    have "display_open dv F G d log2"
      using flip_still [of dv d] o f unfolding still_def display_open_def by (metis snd_conv)
    moreover obtain d' log3 where "run_state (bb_display_close dv d) log2 = (d', log3)" by fastforce
    ultimately show ?thesis
      using close_result [of dv F G d log2] True assms(4,5) f m display_open_fb [OF o] by (simp add: display_test_main_def)
  next
    case False
    then show ?thesis using post assms(4,5) by (simp add: open_post_def display_test_main_def)
  qed
qed

definition isqrt :: "int \<Rightarrow> int" where
  "isqrt k = int (Max {m. m * m \<le> nat k})"

lemma isqrt_le: "0 \<le> k \<Longrightarrow> 0 \<le> isqrt k \<and> isqrt k * isqrt k \<le> k"
proof -
  assume k: "0 \<le> k"
  have "{m. m * m \<le> nat k} \<subseteq> {..nat k}" by (auto intro: order_trans [OF le_square])
  then have "finite {m. m * m \<le> nat k}" by (rule finite_subset) simp
  moreover have "0 \<in> {m. m * m \<le> nat k}" by simp
  ultimately have "Max {m. m * m \<le> nat k} \<in> {m. m * m \<le> nat k}" by (intro Max_in) (auto intro: exI [of _ 0])
  then have "int (Max {m. m * m \<le> nat k} * Max {m. m * m \<le> nat k}) \<le> k" using k by (simp add: nat_le_iff le_nat_iff)
  then show ?thesis by (simp add: isqrt_def)
qed

lemma display_test_paints_witness:
  "\<exists>mem' log'. run_state (display_test_main isqrt (replicate 614400 0) [] panel) [] = (Some (0, mem'), log')
    \<and> owns panel log' {} {}"
proof -
  define x where "x = run_state (bb_display_open ''/dev/dri/card1'' BB_DISP_DSI panel) []"
  obtain d log1 where x: "x = (Some (d, 0), log1)" and d: "dp_width d = 1024" "dp_height d = 600" "dp_stride d = 4096"
    using panel_open unfolding x_def [symmetric] by (cases x; cases "fst x") auto
  have o: "run_state (bb_display_open ''/dev/dri/card1'' BB_DISP_DSI panel) [] = (Some (d, 0), log1)"
    using x by (simp add: x_def)
  have "owns panel [] {} {}" by (simp add: owns_def)
  from display_test_paints [OF panel_sane panel_drm_sane this _ o _ _ _ _ _ _ isqrt_le, of "[]" "replicate 614400 0"]
  show ?thesis by (auto simp: d screen_def display_type_arg_def)
qed

end
