(* ===== verification/BB_Hal_Test.thy ===== *)
theory BB_Hal_Test
  imports BB_Board BB_Hal_Bus BB_Hal_Gpio BB_Hal_Uart BB_Led
begin

text \<open>
  The hardware check \<open>tools/bb-hal-test.c\<close>: its nine tests on the device layers, with the values of the
  board, and its exit status, the number of failures. What is printed is left out. The LEDs are the
  sysfs files of the LED layer, whose answers are arguments.
\<close>

section \<open>I2C\<close>

text \<open>The number of addresses that answer.\<close>

fun i2c_probe_all :: "dev \<Rightarrow> bb_i2c_t \<Rightarrow> int list \<Rightarrow> nat dio" where
  "i2c_probe_all dv i [] = give 0"
| "i2c_probe_all dv i (a # as) = do {
     r \<leftarrow> bb_i2c_probe dv i a;
     n \<leftarrow> i2c_probe_all dv i as;
     give (if r = 0 then n + 1 else n) }"

fun test_i2c_scan :: "dev \<Rightarrow> int list \<Rightarrow> nat dio" where
  "test_i2c_scan dv [] = give 0"
| "test_i2c_scan dv (b # bs) = do {
     (i, r) \<leftarrow> bb_i2c_open (snprintf 32 (''/dev/i2c-'' @ dec_int b)) dv;
     if r < 0 then do { n \<leftarrow> test_i2c_scan dv bs; give (n + 1) }
     else do { _ \<leftarrow> i2c_probe_all dv i [3..0x77]; _ \<leftarrow> bb_i2c_close dv i; test_i2c_scan dv bs } }"

definition test_i2c_first_bus :: "dev \<Rightarrow> nat dio" where
  "test_i2c_first_bus dv = do {
     (i, r) \<leftarrow> bb_i2c_open ''/dev/i2c-0'' dv;
     if r < 0 then give 1
     else do { found \<leftarrow> i2c_probe_all dv i [3..0x77]; _ \<leftarrow> bb_i2c_close dv i; give (if found > 0 then 0 else 1) } }"

section \<open>SPI, GPIO, LEDs\<close>

definition test_spi :: "dev \<Rightarrow> board \<Rightarrow> nat dio" where
  "test_spi dv b = do {
     (s, r) \<leftarrow> bb_spi_open (spi_dev b) 1000000 0 8 dv;
     if r < 0 then give 1
     else do { t \<leftarrow> bb_spi_transfer dv s [0x9F, 0, 0, 0]; _ \<leftarrow> bb_spi_close dv s; give (if t \<ge> 0 then 0 else 1) } }"

text \<open>What is read back only decides what is printed.\<close>

definition test_gpio :: "dev \<Rightarrow> board \<Rightarrow> nat dio" where
  "test_gpio dv b = do {
     (g, r) \<leftarrow> bb_gpio_open (gpio_test_pin b) BB_GPIO_OUT dv;
     if r < 0 then give 1
     else do { _ \<leftarrow> bb_gpio_write dv g 1; v1 \<leftarrow> bb_gpio_read dv g; _ \<leftarrow> bb_gpio_write dv g 0; v2 \<leftarrow> bb_gpio_read dv g;
               _ \<leftarrow> bb_gpio_close dv g; give 0 } }"

text \<open>The LEDs that open, and what is written to sysfs.\<close>

fun test_leds :: "(string \<Rightarrow> int option option \<times> bool) \<Rightarrow> (string \<Rightarrow> bool) \<Rightarrow> string list \<Rightarrow> sysfs_log \<Rightarrow> nat \<times> sysfs_log" where
  "test_leds leds can [] log = (0, log)"
| "test_leds leds can (n # ns) log =
    (if n = [] then test_leds leds can ns log
     else (case bb_led_open (fst (leds n)) (snd (leds n)) n of (r, led) \<Rightarrow>
       if r < 0 then test_leds leds can ns log
       else (case test_leds leds can ns (snd (bb_led_off can led (snd (bb_led_on can led log)))) of
          (tested, log') \<Rightarrow> (tested + 1, log'))))"

definition test_led :: "(string \<Rightarrow> int option option \<times> bool) \<Rightarrow> (string \<Rightarrow> bool) \<Rightarrow> board \<Rightarrow> nat \<times> sysfs_log" where
  "test_led leds can b = (case test_leds leds can [led1 b, led2 b] [] of (tested, log) \<Rightarrow> (if tested > 0 then 0 else 1, log))"

section \<open>PWM, clock, watchdog, serial ports\<close>

definition test_pwm_chip :: "dev \<Rightarrow> int \<Rightarrow> bool dio" where
  "test_pwm_chip dv chip = do {
     (p, r) \<leftarrow> bb_pwm_open dv chip 0;
     if r < 0 then give False
     else do {
       a \<leftarrow> bb_pwm_set_period dv p 1000000;
       d \<leftarrow> bb_pwm_set_duty dv p 500000;
       e \<leftarrow> bb_pwm_enable dv p;
       _ \<leftarrow> (if a \<ge> 0 \<and> d \<ge> 0 \<and> e \<ge> 0 then bb_pwm_disable dv p else give 0);
       _ \<leftarrow> bb_pwm_close dv p;
       give (a \<ge> 0 \<and> d \<ge> 0 \<and> e \<ge> 0) } }"

fun test_pwm_chips :: "dev \<Rightarrow> int list \<Rightarrow> bool dio" where
  "test_pwm_chips dv [] = give False"
| "test_pwm_chips dv (c # cs) = do { t \<leftarrow> test_pwm_chip dv c; ts \<leftarrow> test_pwm_chips dv cs; give (t \<or> ts) }"

definition test_pwm :: "dev \<Rightarrow> board \<Rightarrow> nat dio" where
  "test_pwm dv b = do { t \<leftarrow> test_pwm_chips dv (pwm_test_chips b); give (if t then 0 else 1) }"

definition test_rtc :: "dev \<Rightarrow> board \<Rightarrow> nat dio" where
  "test_rtc dv b = do {
     (c, r) \<leftarrow> bb_rtc_open (rtc_dev b) dv;
     if r < 0 then give 1
     else do { (e, t) \<leftarrow> bb_rtc_read dv c; _ \<leftarrow> bb_rtc_close dv c; give (if e = 0 then 0 else 1) } }"

definition test_wdg :: "dev \<Rightarrow> board \<Rightarrow> nat dio" where
  "test_wdg dv b = do {
     (w, r) \<leftarrow> bb_wdg_open (wdg_dev b) dv;
     if r < 0 then give 1
     else do {
       (w1, timeout) \<leftarrow> bb_wdg_get_timeout dv w;
       f \<leftarrow> (if timeout > 0 then do { k \<leftarrow> bb_wdg_kick dv w1; give (if k = 0 then 0 else 1) } else give 0);
       _ \<leftarrow> bb_wdg_close dv w1;
       give f } }"

definition test_uart_port :: "dev \<Rightarrow> string \<Rightarrow> bool dio" where
  "test_uart_port dv device = do {
     (u, r) \<leftarrow> bb_uart_open device 115200 dv;
     if r < 0 then give False
     else do { w \<leftarrow> bb_uart_write dv u [65, 84, 13, 10]; _ \<leftarrow> bb_uart_close dv u; give (w = 0) } }"

fun test_uart_ports :: "dev \<Rightarrow> string list \<Rightarrow> bool dio" where
  "test_uart_ports dv [] = give False"
| "test_uart_ports dv (d # ds) = do { t \<leftarrow> test_uart_port dv d; ts \<leftarrow> test_uart_ports dv ds; give (t \<or> ts) }"

definition test_uart :: "dev \<Rightarrow> board \<Rightarrow> nat dio" where
  "test_uart dv b = do { t \<leftarrow> test_uart_ports dv (uart_devs b); give (if t then 0 else 1) }"

text \<open>The exit status: the number of failures.\<close>

definition hal_test_main :: "(string \<Rightarrow> int option option \<times> bool) \<Rightarrow> (string \<Rightarrow> bool) \<Rightarrow> board \<Rightarrow> dev \<Rightarrow> nat dio" where
  "hal_test_main leds can b dv = do {
     f1 \<leftarrow> test_i2c_scan dv (i2c_buses b);
     f2 \<leftarrow> test_i2c_first_bus dv;
     f3 \<leftarrow> test_spi dv b;
     f4 \<leftarrow> test_gpio dv b;
     let f5 = fst (test_led leds can b);
     f6 \<leftarrow> test_pwm dv b;
     f7 \<leftarrow> test_rtc dv b;
     f8 \<leftarrow> test_wdg dv b;
     f9 \<leftarrow> test_uart dv b;
     give (f1 + f2 + f3 + f4 + f5 + f6 + f7 + f8 + f9) }"

section \<open>Descriptors\<close>

text \<open>
  A routine that leaves at most n more descriptors open than it found, closes none it did not open, and
  returns a number of failures within a bound.
\<close>

definition leaves :: "nat \<Rightarrow> ('a \<Rightarrow> bool) \<Rightarrow> 'a dio \<Rightarrow> bool" where
  "leaves n P m \<longleftrightarrow> (\<forall>log S. ledger log = Some S \<longrightarrow> (\<exists>T. ledger (snd (run_state m log)) = Some T
     \<and> S \<subseteq> T \<and> finite (T - S) \<and> card (T - S) \<le> n) \<and> P (fst (run_state m log)))"

lemma leaves_bind:
  assumes "leaves a P m" "\<And>x. P x \<Longrightarrow> leaves b Q (f x)"
  shows "leaves (a + b) Q (State_Monad.bind m f)"
  unfolding leaves_def
proof (intro allI impI)
  fix log S assume "ledger log = Some S"
  then obtain T where T: "ledger (snd (run_state m log)) = Some T" "S \<subseteq> T" "finite (T - S)" "card (T - S) \<le> a"
    and P: "P (fst (run_state m log))" using assms(1) unfolding leaves_def by blast
  obtain U where U: "ledger (snd (run_state (f (fst (run_state m log))) (snd (run_state m log)))) = Some U" "T \<subseteq> U"
    "finite (U - T)" "card (U - T) \<le> b" and Q: "Q (fst (run_state (f (fst (run_state m log))) (snd (run_state m log))))"
    using assms(2) [OF P] T(1) unfolding leaves_def by blast
  have e: "U - S = (U - T) \<union> (T - S)" using T(2) U(2) by blast
  then have "finite (U - S)" "card (U - S) \<le> a + b"
    using T U card_Un_le [of "U - T" "T - S"] by simp_all
  then show "(\<exists>T. ledger (snd (run_state (State_Monad.bind m f) log)) = Some T \<and> S \<subseteq> T \<and> finite (T - S) \<and> card (T - S) \<le> a + b)
      \<and> Q (fst (run_state (State_Monad.bind m f) log))"
    using U Q T(2) by (auto simp: case_prod_beta)
qed

lemma leaves_neutral: "neutral m \<Longrightarrow> leaves 0 (\<lambda>_. True) m"
  by (simp add: leaves_def neutral_def)

lemma leaves_give: "P x \<Longrightarrow> leaves 0 P (give x)"
  by (simp add: leaves_def)

lemma leaves_weaken: "leaves a P m \<Longrightarrow> a \<le> b \<Longrightarrow> (\<And>x. P x \<Longrightarrow> Q x) \<Longrightarrow> leaves b Q m"
  unfolding leaves_def by (meson order_trans)

text \<open>A routine that starts with the descriptors H of a handle open beside others, and closes exactly these.\<close>

definition closes :: "int set \<Rightarrow> ('a \<Rightarrow> bool) \<Rightarrow> 'a dio \<Rightarrow> bool" where
  "closes H P m \<longleftrightarrow> (\<forall>log S. ledger log = Some (S \<union> H) \<and> S \<inter> H = {} \<longrightarrow>
     ledger (snd (run_state m log)) = Some S \<and> P (fst (run_state m log)))"

lemma closes_leaves: "leaves 0 P m \<Longrightarrow> closes {} P m"
  unfolding leaves_def closes_def by (fastforce simp: Diff_eq_empty_iff)

lemma closes_neutral:
  assumes "neutral m" "\<And>x. \<exists>log. x = fst (run_state m log) \<Longrightarrow> closes H P (f x)"
  shows "closes H P (State_Monad.bind m f)"
  unfolding closes_def
proof (intro allI impI)
  fix log S assume a: "ledger log = Some (S \<union> H) \<and> S \<inter> H = {}"
  have "closes H P (f (fst (run_state m log)))" using assms(2) by blast
  moreover have "ledger (snd (run_state m log)) = Some (S \<union> H)" using assms(1) a by (simp add: neutral_def)
  ultimately show "ledger (snd (run_state (State_Monad.bind m f) log)) = Some S \<and> P (fst (run_state (State_Monad.bind m f) log))"
    using a unfolding closes_def by (simp add: case_prod_beta) blast
qed

text \<open>An open and what follows it: after a failure kf, with the descriptors the failure left behind, else k.\<close>

lemma leaves_opening:
  assumes "\<And>log S d r log'. ledger log = Some S \<Longrightarrow> run_state m log = ((d, r), log') \<Longrightarrow>
      if r < (0 :: int) then \<exists>H. ledger log' = Some (S \<union> H) \<and> S \<inter> H = {} \<and> finite H \<and> card H \<le> a
      else \<exists>H. ledger log' = Some (S \<union> H) \<and> S \<inter> H = {} \<and> closes H P (k d)"
    and "\<And>d. leaves n P (kf d)"
  shows "leaves (a + n) P (State_Monad.bind m (\<lambda>(d, r). if r < 0 then kf d else k d))"
  unfolding leaves_def
proof (intro allI impI)
  fix log S assume l: "ledger log = Some S"
  obtain d r log' where o: "run_state m log = ((d, r), log')" by (metis prod.collapse)
  show "(\<exists>T. ledger (snd (run_state (State_Monad.bind m (\<lambda>(d, r). if r < 0 then kf d else k d)) log)) = Some T
      \<and> S \<subseteq> T \<and> finite (T - S) \<and> card (T - S) \<le> a + n)
    \<and> P (fst (run_state (State_Monad.bind m (\<lambda>(d, r). if r < 0 then kf d else k d)) log))"
  proof (cases "r < 0")
    case True
    then obtain H where H: "ledger log' = Some (S \<union> H)" "S \<inter> H = {}" "finite H" "card H \<le> a"
      using assms(1) [OF l o] by auto
    obtain T where T: "ledger (snd (run_state (kf d) log')) = Some T" "S \<union> H \<subseteq> T"
      "finite (T - (S \<union> H))" "card (T - (S \<union> H)) \<le> n" and P: "P (fst (run_state (kf d) log'))"
      using assms(2) [of d] H unfolding leaves_def by blast
    have e: "T - S = (T - (S \<union> H)) \<union> H" using T(2) H by blast
    have "finite (T - S)" "card (T - S) \<le> a + n"
      using T H e card_Un_le [of "T - (S \<union> H)" H] by simp_all
    then show ?thesis using T(1,2) P o True by auto
  next
    case False
    then show ?thesis using assms(1) [OF l o] o unfolding closes_def by auto
  qed
qed

context fd_device
begin

lemma closes_cls: "good d \<Longrightarrow> (\<And>d'. closes {} P (f d')) \<Longrightarrow> closes (held d) P (State_Monad.bind (cls dv d) f)"
  unfolding closes_def [of "held d"]
proof (intro allI impI)
  fix log S assume g: "good d" and f: "\<And>d'. closes {} P (f d')" and a: "ledger log = Some (S \<union> held d) \<and> S \<inter> held d = {}"
  obtain d' log' where c: "run_state (cls dv d) log = (d', log')" by fastforce
  have "ledger log' = Some S" using cls_fds [OF g _ _ c] a by blast
  then show "ledger (snd (run_state (State_Monad.bind (cls dv d) f) log)) = Some S
      \<and> P (fst (run_state (State_Monad.bind (cls dv d) f) log))"
    using f [of d'] c by (simp add: closes_def)
qed

lemma leaves_open:
  assumes "sane dv" "\<And>d. leaves n P (kf d)" "\<And>d. good d \<Longrightarrow> closes (held d) P (k d)"
    and "\<And>log d r log'. run_state (opn dv) log = ((d, r), log') \<Longrightarrow> r < 0 \<Longrightarrow> finite (held d) \<and> card (held d) \<le> m"
  shows "leaves (m + n) P (State_Monad.bind (opn dv) (\<lambda>(d, r). if r < 0 then kf d else k d))"
proof (rule leaves_opening [OF _ assms(2)])
  fix log S d r log' assume a: "ledger log = Some S" "run_state (opn dv) log = ((d, r), log')"
  show "if r < 0 then \<exists>H. ledger log' = Some (S \<union> H) \<and> S \<inter> H = {} \<and> finite H \<and> card H \<le> m
      else \<exists>H. ledger log' = Some (S \<union> H) \<and> S \<inter> H = {} \<and> closes H P (k d)"
    using opn_fds [OF assms(1) a] assms(3) [of d] assms(4) [OF a(2)] by auto
qed

end

context fd_device_strict
begin

lemma leaves_open_strict:
  assumes "sane dv" "\<And>d. leaves n P (kf d)" "\<And>d. good d \<Longrightarrow> closes (held d) P (k d)"
  shows "leaves n P (State_Monad.bind (opn dv) (\<lambda>(d, r). if r < 0 then kf d else k d))"
  using leaves_open [where m = 0, OF assms] opn_fail by fastforce

end

lemma probe_all_neutral: "neutral (i2c_probe_all dv i as)"
  by (induction as) (auto intro!: neutral_rules)

lemma i2c_scan_leaves: "sane dv \<Longrightarrow> leaves 0 (\<lambda>f. f \<le> length bs) (test_i2c_scan dv bs)"
proof (induction bs)
  case (Cons b bs)
  have "leaves 0 (\<lambda>f. f \<le> length (b # bs)) (State_Monad.bind (test_i2c_scan dv bs) (\<lambda>n. give (n + 1)))"
    using leaves_bind [OF Cons.IH [OF Cons.prems], of 0 "\<lambda>f. f \<le> length (b # bs)" "\<lambda>n. give (n + 1)"] by (simp add: leaves_give)
  moreover have "leaves 0 (\<lambda>f. f \<le> length (b # bs)) (test_i2c_scan dv bs)"
    using Cons.IH [OF Cons.prems] by (rule leaves_weaken) simp_all
  ultimately show ?case
    unfolding test_i2c_scan.simps using Cons.prems
    by (intro i2c.leaves_open_strict closes_neutral probe_all_neutral i2c.closes_cls closes_leaves TrueI)
qed (simp add: leaves_give)

lemma closes_split: "(\<And>a b. closes H P (f a b)) \<Longrightarrow> closes H P (case x of (a, b) \<Rightarrow> f a b)"
  by (cases x) simp

lemma fail_bit: "(if b then 0 else 1) \<le> (1 :: nat)"
  by simp

lemma i2c_first_leaves: "sane dv \<Longrightarrow> leaves 0 (\<lambda>f. f \<le> 1) (test_i2c_first_bus dv)"
  unfolding test_i2c_first_bus_def
  by (rule i2c.leaves_open_strict, assumption, rule leaves_give, simp, rule closes_neutral [OF probe_all_neutral],
      rule i2c.closes_cls, rule TrueI, rule closes_leaves, rule leaves_give, rule fail_bit)

lemma rtc_leaves: "sane dv \<Longrightarrow> leaves 0 (\<lambda>f. f \<le> 1) (test_rtc dv b)"
  unfolding test_rtc_def
  by (rule rtc.leaves_open_strict, assumption, rule leaves_give, simp, rule closes_neutral [OF bus_ops_neutral(6)],
      rule closes_split, rule rtc.closes_cls, rule TrueI, rule closes_leaves, rule leaves_give, rule fail_bit)

lemma get_timeout_fd: "wdg_fd (fst (fst (run_state (bb_wdg_get_timeout dv w) log))) = wdg_fd w"
  by (simp add: bb_wdg_get_timeout_def case_prod_beta)

lemma wdg_kick_neutral: "neutral (if t > (0 :: int) then State_Monad.bind (bb_wdg_kick dv w) (\<lambda>k. give (if k = 0 then 0 else 1 :: nat)) else give 0)"
  by (intro neutral_if neutral_bind neutral_give bus_ops_neutral)

lemma wdg_kick_result:
  "\<exists>log. f = fst (run_state (if t > (0 :: int) then State_Monad.bind (bb_wdg_kick dv w) (\<lambda>k. give (if k = 0 then 0 else 1 :: nat)) else give 0) log)
    \<Longrightarrow> f \<le> 1"
  by (auto simp: case_prod_beta split: if_splits)

lemma wdg_leaves: "sane dv \<Longrightarrow> leaves 0 (\<lambda>f. f \<le> 1) (test_wdg dv b)"
  unfolding test_wdg_def
proof (rule wdg.leaves_open_strict)
  fix w
  show "closes (fd_set (wdg_fd w)) (\<lambda>f. f \<le> (1 :: nat)) (State_Monad.bind (bb_wdg_get_timeout dv w) (\<lambda>(w1, timeout).
      State_Monad.bind (if timeout > 0 then State_Monad.bind (bb_wdg_kick dv w1) (\<lambda>k. give (if k = 0 then 0 else 1)) else give 0)
        (\<lambda>f. State_Monad.bind (bb_wdg_close dv w1) (\<lambda>_. give f))))"
  proof (rule closes_neutral [OF bus_ops_neutral(9)])
    fix x assume "\<exists>log. x = fst (run_state (bb_wdg_get_timeout dv w) log)"
    then have fd: "wdg_fd w = wdg_fd (fst x)" using get_timeout_fd [of dv w] by metis
    obtain w1 t where x: "x = (w1, t)" by fastforce
    show "closes (fd_set (wdg_fd w)) (\<lambda>f. f \<le> (1 :: nat)) (case x of (w1, timeout) \<Rightarrow>
        State_Monad.bind (if timeout > 0 then State_Monad.bind (bb_wdg_kick dv w1) (\<lambda>k. give (if k = 0 then 0 else 1)) else give 0)
          (\<lambda>f. State_Monad.bind (bb_wdg_close dv w1) (\<lambda>_. give f)))"
      unfolding x prod.case fd fst_conv
      by (rule closes_neutral [OF wdg_kick_neutral], rule wdg.closes_cls, simp, rule closes_leaves, rule leaves_give,
          rule wdg_kick_result)
  qed
qed (simp_all add: leaves_give)

text \<open>The SPI device closes what it opened when it fails, and is closed once otherwise.\<close>

lemma spi_transfer_neutral: "neutral (bb_spi_transfer dv s tx)"
  unfolding bb_spi_transfer_def by (intro neutral_rules) simp_all

lemma spi_close_closes: "spi_fd s \<ge> 0 \<Longrightarrow> (\<And>s'. closes {} P (f s')) \<Longrightarrow> closes {spi_fd s} P (State_Monad.bind (bb_spi_close dv s) f)"
  unfolding closes_def by (auto simp: bb_spi_close_def insert_Diff_if Diff_insert_absorb)

lemma spi_open_fds:
  assumes "sane dv" "ledger log = Some S" "run_state (bb_spi_open device speed mode bits dv) log = ((s, r), log')"
  shows "if r < 0 then ledger log' = Some S
    else 0 \<le> spi_fd s \<and> ledger log' = Some (S \<union> {spi_fd s}) \<and> S \<inter> {spi_fd s} = {}"
  using assms(3) sane_open [OF assms(1,2), of device] assms(2)
  by (auto simp: bb_spi_open_def Let_def not_less split: if_splits)

lemma spi_leaves: "sane dv \<Longrightarrow> leaves 0 (\<lambda>f. f \<le> 1) (test_spi dv b)"
  unfolding test_spi_def
proof (rule leaves_opening [where a = 0 and n = 0, unfolded add_0])
  fix log S s r log' assume a: "sane dv" "ledger log = Some S" "run_state (bb_spi_open (spi_dev b) 1000000 0 8 dv) log = ((s, r), log')"
  have c: "closes {spi_fd s} (\<lambda>f. f \<le> (1 :: nat))
      (State_Monad.bind (bb_spi_transfer dv s [0x9F, 0, 0, 0]) (\<lambda>t. State_Monad.bind (bb_spi_close dv s) (\<lambda>_. give (if 0 \<le> t then 0 else 1))))"
    if "0 \<le> spi_fd s"
    by (rule closes_neutral [OF spi_transfer_neutral], rule spi_close_closes [OF that], rule closes_leaves, rule leaves_give, rule fail_bit)
  show "if r < 0 then \<exists>H. ledger log' = Some (S \<union> H) \<and> S \<inter> H = {} \<and> finite H \<and> card H \<le> 0
      else \<exists>H. ledger log' = Some (S \<union> H) \<and> S \<inter> H = {} \<and> closes H (\<lambda>f. f \<le> (1 :: nat))
      (State_Monad.bind (bb_spi_transfer dv s [0x9F, 0, 0, 0]) (\<lambda>t. State_Monad.bind (bb_spi_close dv s) (\<lambda>_. give (if 0 \<le> t then 0 else 1))))"
  proof (cases "r < 0")
    case True
    have l: "ledger log' = Some S" using spi_open_fds [OF a] unfolding if_P [OF True] .
    show ?thesis unfolding if_P [OF True] using l by (intro exI [of _ "{}"] conjI) simp_all
  next
    case False
    have "0 \<le> spi_fd s" "ledger log' = Some (S \<union> {spi_fd s})" "S \<inter> {spi_fd s} = {}"
      using spi_open_fds [OF a] unfolding if_not_P [OF False] by blast+
    then show ?thesis unfolding if_not_P [OF False] using c by blast
  qed
qed (simp add: leaves_give)

lemma pwm_chip_neutral: "neutral (test_pwm_chip dv chip)"
  unfolding test_pwm_chip_def bb_pwm_open_def bb_pwm_set_period_def bb_pwm_set_duty_def bb_pwm_enable_def bb_pwm_disable_def
    bb_pwm_close_def pwm_write_attr_def Let_def
  by (auto intro!: neutral_rules split: prod.split)

lemma pwm_chips_neutral: "neutral (test_pwm_chips dv cs)"
  by (induction cs) (auto intro!: neutral_rules pwm_chip_neutral)

lemma pwm_leaves: "leaves 0 (\<lambda>f. f \<le> 1) (test_pwm dv b)"
  unfolding test_pwm_def
  by (rule leaves_bind [OF leaves_neutral [OF pwm_chips_neutral], unfolded add_0], rule leaves_give, rule fail_bit)

text \<open>A GPIO that fails to open may leave the file of its value open, an UART that fails its port.\<close>

lemma gpio_failed_held:
  "run_state (bb_gpio_open num d dv) log = ((g, r), log') \<Longrightarrow> r < 0 \<Longrightarrow> finite (gpio_held g) \<and> card (gpio_held g) \<le> 1"
  by (auto simp: bb_gpio_open_def gpio_has_sysfs_def gpio_sysfs_open_def gpio_v2_open_def gpio_held_def fd_set_def
      bb_gpio_set_direction_def Let_def case_prod_beta split: if_splits option.splits)

lemma gpio_leaves: "sane dv \<Longrightarrow> leaves 1 (\<lambda>f. f \<le> 1) (test_gpio dv b)"
  unfolding test_gpio_def
  by (rule gpio.leaves_open [where m = 1 and n = 0, unfolded add_0_right], assumption, rule leaves_give, simp,
      rule closes_neutral [OF gpio_ops_neutral(3)], rule closes_neutral [OF gpio_ops_neutral(2)],
      rule closes_neutral [OF gpio_ops_neutral(3)], rule closes_neutral [OF gpio_ops_neutral(2)],
      rule gpio.closes_cls, assumption, rule closes_leaves, rule leaves_give, simp, rule gpio_failed_held)

lemma uart_open_fds:
  assumes "sane dv" "ledger log = Some S" "run_state (bb_uart_open device baud dv) log = ((u, r), log')"
  shows "if r < 0 then ledger log' = Some S \<or> ledger log' = Some (S \<union> {uart_fd u}) \<and> S \<inter> {uart_fd u} = {}
    else 0 \<le> uart_fd u \<and> ledger log' = Some (S \<union> {uart_fd u}) \<and> S \<inter> {uart_fd u} = {}"
  using assms(3) sane_open [OF assms(1,2), of device] assms(2)
  by (auto simp: bb_uart_open_def bb_uart_set_baud_def tcgetattr_def tcsetattr_def Let_def not_less split: if_splits)

lemma uart_write_neutral: "neutral (bb_uart_write dv u data)"
  unfolding bb_uart_write_def by (intro neutral_rules) simp_all

lemma uart_close_closes: "uart_fd u \<ge> 0 \<Longrightarrow> (\<And>u'. closes {} P (f u')) \<Longrightarrow> closes {uart_fd u} P (State_Monad.bind (bb_uart_close dv u) f)"
  unfolding closes_def by (auto simp: bb_uart_close_def insert_Diff_if Diff_insert_absorb)

lemma uart_port_leaves: "sane dv \<Longrightarrow> leaves 1 (\<lambda>_. True) (test_uart_port dv device)"
  unfolding test_uart_port_def
proof (rule leaves_opening [where a = 1 and n = 0, unfolded add_0_right])
  fix log S u r log' assume a: "sane dv" "ledger log = Some S" "run_state (bb_uart_open device 115200 dv) log = ((u, r), log')"
  let ?k = "State_Monad.bind (bb_uart_write dv u [65, 84, 13, 10]) (\<lambda>w. State_Monad.bind (bb_uart_close dv u) (\<lambda>_. give (w = 0)))"
  have c: "closes {uart_fd u} (\<lambda>_. True) ?k" if "0 \<le> uart_fd u"
    by (rule closes_neutral [OF uart_write_neutral], rule uart_close_closes [OF that], rule closes_leaves, rule leaves_give, rule TrueI)
  show "if r < 0 then \<exists>H. ledger log' = Some (S \<union> H) \<and> S \<inter> H = {} \<and> finite H \<and> card H \<le> 1
      else \<exists>H. ledger log' = Some (S \<union> H) \<and> S \<inter> H = {} \<and> closes H (\<lambda>_. True) ?k"
  proof (cases "r < 0")
    case True
    from uart_open_fds [OF a, unfolded if_P [OF True]] show ?thesis unfolding if_P [OF True]
    proof
      assume "ledger log' = Some S"
      then show "\<exists>H. ledger log' = Some (S \<union> H) \<and> S \<inter> H = {} \<and> finite H \<and> card H \<le> 1"
        by (intro exI [of _ "{}"] conjI) simp_all
    next
      assume "ledger log' = Some (S \<union> {uart_fd u}) \<and> S \<inter> {uart_fd u} = {}"
      then show "\<exists>H. ledger log' = Some (S \<union> H) \<and> S \<inter> H = {} \<and> finite H \<and> card H \<le> 1"
        by (intro exI [of _ "{uart_fd u}"] conjI) simp_all
    qed
  next
    case False
    then show ?thesis using uart_open_fds [OF a, unfolded if_not_P [OF False]] c unfolding if_not_P [OF False] by blast
  qed
qed (simp add: leaves_give)

lemma uart_ports_leaves: "sane dv \<Longrightarrow> leaves (length ds) (\<lambda>_. True) (test_uart_ports dv ds)"
proof (induction ds)
  case (Cons d ds)
  have "leaves (1 + (length ds + 0)) (\<lambda>_. True) (test_uart_ports dv (d # ds))"
    unfolding test_uart_ports.simps using Cons
    by (intro leaves_bind [OF uart_port_leaves [OF Cons.prems]] leaves_bind [OF Cons.IH [OF Cons.prems]] leaves_give)
  then show ?case by simp
qed (simp add: leaves_give)

lemma uart_leaves: "sane dv \<Longrightarrow> leaves (length (uart_devs b) + 0) (\<lambda>f. f \<le> 1) (test_uart dv b)"
  unfolding test_uart_def by (rule leaves_bind [OF uart_ports_leaves], assumption, rule leaves_give, rule fail_bit)

text \<open>
  C37. The hardware check closes nothing it did not open and closes nothing twice, whatever the devices answer; it
  leaves open at most the GPIO value file and one port per UART that failed half way, and its exit
  status is at most the number of I2C buses plus eight.
\<close>

theorem hal_test_descriptors:
  assumes "sane dv" "ledger log = Some S"
  shows "\<exists>T. ledger (snd (run_state (hal_test_main leds can b dv) log)) = Some T \<and> S \<subseteq> T \<and> finite (T - S)
    \<and> card (T - S) \<le> 1 + length (uart_devs b)
    \<and> fst (run_state (hal_test_main leds can b dv) log) \<le> length (i2c_buses b) + 8"
proof -
  have led: "fst (test_led leds can b) \<le> 1" by (simp add: test_led_def case_prod_beta)
  have "leaves (0 + (0 + (0 + (1 + (0 + (0 + (0 + ((length (uart_devs b) + 0) + 0)))))))) (\<lambda>f. f \<le> length (i2c_buses b) + 8)
      (hal_test_main leds can b dv)"
    unfolding hal_test_main_def Let_def
    by (rule leaves_bind [OF i2c_scan_leaves [OF assms(1)]], rule leaves_bind [OF i2c_first_leaves [OF assms(1)]],
        rule leaves_bind [OF spi_leaves [OF assms(1)]], rule leaves_bind [OF gpio_leaves [OF assms(1)]],
        rule leaves_bind [OF pwm_leaves], rule leaves_bind [OF rtc_leaves [OF assms(1)]],
        rule leaves_bind [OF wdg_leaves [OF assms(1)]], rule leaves_bind [OF uart_leaves [OF assms(1)]],
        rule leaves_give) (use led in linarith)
  then show ?thesis using assms(2) unfolding leaves_def by auto
qed

lemma hal_test_descriptors_witness:
  "\<exists>T. ledger (snd (run_state (hal_test_main (\<lambda>_. (None, False)) (\<lambda>_. False) nxp_imx8mp_evk demo_dv) [])) = Some T \<and> card T \<le> 3
    \<and> fst (run_state (hal_test_main (\<lambda>_. (None, False)) (\<lambda>_. False) nxp_imx8mp_evk demo_dv) []) \<le> 12"
proof -
  have "sane demo_dv" by (simp add: demo_dv_def demo_sane)
  from hal_test_descriptors [OF this ledger_Nil, of "\<lambda>_. (None, False)" "\<lambda>_. False" nxp_imx8mp_evk] show ?thesis
    by (auto simp: nxp_imx8mp_evk_def)
qed

end
