(* ===== verification/Spec2Isabelle.thy ===== *)
theory Spec2Isabelle
  imports BB_Pool_SPSC BB_Pool_MPSC BB_Cli BB_Led_Session BB_Audio_Stream BB_Audio_Pipeline BB_Audio_Test BB_Persist BB_Mfg BB_Update BB_Recovery
    BB_Log BB_Hal_Bus BB_Hal_Gpio BB_Hal_Uart BB_Hal_Display BB_Display_Test BB_Hal_Test
begin

text \<open>
  A model of the building blocks of an i.MX8MP Linux board, C code under src/, and its correctness.

  \<^bold>\<open>The program.\<close> Blocks are processes that talk over a message bus: a daemon (services/bb-busd.c) keeps
  clients and their subscriptions, the client library (libbb/bb_bus.c), the command line tool
  (tools/bb-cli.c) and the block life cycle (libbb/bb_block.c) speak its line protocol, with JSON payloads
  (libbb/bb_json.c). The LED block (blocks/bb-led/main.c) is the example of a block. Audio goes through
  three threads (middleware/bb_audio_stream.c, libbb/bb_thread.c) that hand frames on in two kinds of
  reference counted pools (libbb/bb_pool.c) between two PCM devices (hal/bb_hal_audio.c). The board keeps
  its configuration, its logs and its identity on partitions (libbb/bb_persist.c, libbb/bb_log.c), and is
  updated and recovered by tools/bb-update and libbb/bb_recovery.c. The devices are behind a thin hardware
  layer (hal/), which the test tools bb-hal-test, bb-display-test, bb-audio-test and bb-audio-loopback exercise.

  \<^bold>\<open>How it is modelled.\<close> A C structure is a record with the code's fields, an enumeration a datatype, a
  string a char list without its NUL, a fixed array its contents. A function is a function from the state it
  changes to the new one. Machine integers are words or integers with the C rules written out: where C
  leaves the behaviour undefined, the result is \<open>Inl\<close> of the kind (\<open>c_ub\<close>, BB_Prelude); a failure that the
  code reports stays an ordinary result. What the kernel, the C library or a codec answers is an
  argument: the results of socket calls, the oracle \<open>os\<close> for shell commands and files (BB_Os), the oracle
  \<open>dev\<close> for device files (BB_Dev). Both oracles see the record of all calls made before, and the routines
  that use them are computations of the state monad over that record, so that what a routine does is the
  list of calls it leaves. Loops that may not end take fuel (\<open>boundary_loop\<close>, \<open>codec_drain\<close>,
  \<open>run_loop\<close> over a list of inputs) or are partial functions whose value is None when they do not end
  (\<open>line_loop\<close>, \<open>grid\<close>, \<open>playback_loop\<close>, \<open>capture_loop\<close>); all other recursion is total.

  \<^bold>\<open>The theories.\<close>

  \<^item> BB_Prelude, BB_CString, BB_Stdio, BB_Framing: outcomes, 32-bit integers, reachability and the interface
    of a state machine with an invariant; C strings and their routines; fgets, sscanf and snprintf; the
    receive loop and the interface \<open>line_receiver\<close> of what it does with a stream.
  \<^item> BB_Pool (libbb/bb_pool.c): creation and destruction over an abstract heap, and the calls of the two
    pools. BB_Pool_SPSC interleaves one producer and one consumer of the lock-free ring, BB_Pool_MPSC any
    number of producers and one consumer, one atomic access a step; a consumer in the condition wait sleeps until a
    signal, or wakes for no reason. Shown: exclusive ownership, delivery in
    order, the exact pending count, no lost wakeup, freedom from undefined behaviour, refinement of a bounded queue, and
    where the signed indices wrap.
  \<^item> BB_Json (libbb/bb_json.c): the writer's contract, the round trip with the reader, and the limits of both.
  \<^item> BB_Busd (services/bb-busd.c): the tables, the handlers of a line and of an event, removal, and the
    loop over the wakeups. Shown: the
    subscription table refines a set of pairs, publications reach the subscribers, which events leave the
    arrays and that live ones do not, the bounds of the tables, and what the indices registered with epoll go
    through when clients leave.
  \<^item> BB_Bus, BB_Cli, BB_Block, BB_Led: the client library, the tool, the life cycle and the LED block with its
    HAL (hal/bb_hal_led.c). Shown: delivery whatever the segmentation of the stream, end to end delivery through tool or
    client, daemon and handler, the messages of the life cycle, and the end of the main loop.
    BB_Led_Threads: the main thread of the LED block, handler by handler, and any number of blink threads at once, each
    stopped between any two accesses to the flag, the parameters and the LED. Shown: a handler without interference
    does and publishes what the sequential one of BB_Led does, every thread writes whole cycles, as many as it counts, the threads end soon
    after the flag is cleared, and how a stop leaves the LED on and a second blink leaves two threads.
    BB_Led_Session: a blink command from the shell through tool, daemon, main loop and handler to the thread's writes.
  \<^item> BB_Audio_Hal, BB_Audio_Stream: negotiation of the parameters, opening and its failures, the rounds of
    the three threads, their start and stop, and the destruction of a stream. Shown: values within the device's
    ranges, descriptors and pools released on failure and on destruction, payload sizes within the buffers, and what
    errors of the codec or of thread creation do.
    BB_Audio_Pipeline: the three threads of a stream at once, each stopped between any two atomic operations of the
    pools; its steps are those of the two machines of BB_Pool_SPSC and BB_Pool_MPSC, whose invariants it inherits.
    Shown: every captured frame is dropped, played or on its way exactly once and unchanged, no two threads use a
    buffer at once, the playback thread ends after the codec thread has and is not left asleep, what a sentinel left
    over does to a restart, and that without its codec thread the playback never ends.
    BB_Audio_Test (tools/bb-audio-test.c, tools/bb-audio-loopback.c): the playback and capture loops, the level
    statistics and the session of the loopback with a stream. Shown: the playback ends and writes what it is
    asked for, the capture reads and counts what it is asked for, the peak is the largest sample, and the
    loopback releases what it creates.
  \<^item> BB_Os, BB_Board: calls of the operating system and packed structures as bytes; the two boards
    with all their fields, and what a well-formed board is.
    BB_Persist, BB_Mfg (libbb/bb_persist.c): configuration files as maps, through the interface \<open>kv_store\<close>, the boot and
    update logs and their round trips, the manufacturing record and its checksum.
    BB_Update (tools/bb-update), BB_Recovery (libbb/bb_recovery.c), BB_Log (libbb/bb_log.c): the calls an installation, a creation,
    a check, a snapshot and a reset make, in order, and the bounded log file. Shown: an update touches only the two
    devices of the slot that is not running, and a snapshot is restored from the archive its creation made.
  \<^item> BB_Dev: the descriptors open after a list of calls, and the interface \<open>fd_device\<close> of a handle, extended
    by \<open>fd_device_strict\<close>. BB_Hal_Bus (I2C, SPI, RTC, watchdog, PWM), BB_Hal_Gpio, BB_Hal_Uart: the operations of
    hal/, with interpretations of the interface where the code keeps it and counterexamples where not.
    BB_Hal_Test (tools/bb-hal-test.c): the nine tests, each leaving only the descriptors that a failed UART
    setup leaves, shown by composing the laws of the interface.
  \<^item> BB_Hal_Display (hal/bb_hal_display.c): the search for a connector, the open with its release labels, page flips
    and the close, with a ledger of what the process holds (descriptor, dumb buffer, frame buffer, mapping). Shown: an
    open that fails and a session that is closed leave nothing held, and where the search overruns its arrays.
    BB_Display_Test (tools/bb-display-test.c): the drawing routines on the buffer and the picture; an overflow of the
    line's 32-bit error term is undefined. Shown: the line loop ends on both end points without one, clipped rectangles change exactly their pixels, and the whole picture of a
    screen that is large enough stays within the buffer.

  \<^bold>\<open>Interfaces.\<close> \<open>inv_machine\<close> (BB_Prelude) is interpreted on the ring, on the multi-producer pool, on the
  audio pipeline, on the blink threads and on the logger; \<open>line_receiver\<close> (BB_Framing) on the daemon, the client and the tool;
  \<open>sub_table\<close> (BB_Busd) on the subscription table; \<open>kv_store\<close> (BB_Persist) on the configuration files;
  \<open>fd_device\<close> and \<open>fd_device_strict\<close> (BB_Dev) on the GPIO, I2C, RTC and watchdog handles, whose laws BB_Hal_Test
  uses.

  \<^bold>\<open>Bounds and fuel.\<close> The fuel of \<open>boundary_loop\<close> is not a limit of the result: one round is enough below 2^30
  frames, and for 2^30 frames no number of rounds is. \<open>codec_drain\<close> ends as soon as the ring is empty,
  so one unit more than the frames in the ring is enough. The frames of a stream are counted
  exactly for the first 2^31 captured ones, where the ring's signed index wraps. A line is free of overflow when
  its ends are less than a third of 2^31 apart. A package manifest is the 344-byte structure of the 64-bit
  target. Bit values of termios are those of the Linux headers.

  \<^bold>\<open>Not modelled.\<close> The boot scripts and units; memory ordering below the atomicity of the accesses; the text of messages on
  stdout; a signal in the middle of a call; write errors that the code does not look at; the write and the
  truncation of the log as two calls; the destruction of a mutex and a condition variable, which on the failure path of
  bb_pool_init are not initialised yet; the three bytes behind the mode that SPI_IOC_WR_MODE32 reads.
\<close>

end
